(* ===== verification/Prelude.thy ===== *)
theory Prelude
  imports Complex_Main "HOL-Library.Multiset" "HOL-Library.AList" "HOL-Library.Sublist"
begin

text \<open>
  What the components share: the parts of the JavaScript standard library the sources use,
  written as executable functions, with the lemmas the component proofs rest on.

  Strings are lists of UTF-16 code units. Where a component only handles code units below 256
  (nearly every literal of the sources is ASCII; the texts that are not are arguments) a string is a HOL \<^typ>\<open>string\<close>, one
  \<^typ>\<open>char\<close> per code unit; where the source itself names a wider code unit, a string is a list of
  the type \<open>code_unit\<close> below. An insertion-ordered \<^verbatim>\<open>Map\<close> is an association list with distinct
  keys, updated by \<open>AList.update\<close>; an insertion-ordered \<^verbatim>\<open>Set\<close> is a list without repetition.
\<close>

named_theorems js_string_simps \<open>facts about the string operations of the language\<close>
named_theorems js_list_simps \<open>facts about the array, Map and Set operations of the language\<close>

section \<open>Code units and white space\<close>

text \<open>A UTF-16 code unit: \<open>Lat c\<close> below 256, \<open>Wide n\<close> for the others.\<close>

datatype code_unit = Lat char | Wide int

text \<open>The white space of \<^verbatim>\<open>String.prototype.trim\<close> and of \<^verbatim>\<open>\s\<close>.\<close>

definition is_ws :: "char \<Rightarrow> bool" where
  "is_ws c \<longleftrightarrow> c \<in> {CHR 0x09, CHR 0x0A, CHR 0x0B, CHR 0x0C, CHR 0x0D, CHR 0x20, CHR 0xA0}"

fun is_ws_cu :: "code_unit \<Rightarrow> bool" where
  "is_ws_cu (Lat c) = is_ws c"
| "is_ws_cu (Wide n) =
     (n \<in> {0x1680, 0x2028, 0x2029, 0x202F, 0x205F, 0x3000, 0xFEFF} \<or> (0x2000 \<le> n \<and> n \<le> 0x200A))"

section \<open>Strings\<close>

definition trim_by :: "('a \<Rightarrow> bool) \<Rightarrow> 'a list \<Rightarrow> 'a list" where
  "trim_by p xs = rev (dropWhile p (rev (dropWhile p xs)))"

abbreviation trim :: "string \<Rightarrow> string" where
  "trim \<equiv> trim_by is_ws"

text \<open>\<^verbatim>\<open>s.split(c)\<close> for a separator of one code unit: never empty.\<close>

fun split_on :: "'a \<Rightarrow> 'a list \<Rightarrow> 'a list list" where
  "split_on c [] = [[]]"
| "split_on c (x # xs) =
     (if x = c then [] # split_on c xs
      else (case split_on c xs of [] \<Rightarrow> [[x]] | y # ys \<Rightarrow> (x # y) # ys))"

text \<open>\<^verbatim>\<open>xs.join(sep)\<close>.\<close>

fun join :: "'a list \<Rightarrow> 'a list list \<Rightarrow> 'a list" where
  "join sep [] = []"
| "join sep [x] = x"
| "join sep (x # y # ys) = x @ sep @ join sep (y # ys)"

text \<open>\<^verbatim>\<open>s.startsWith(p)\<close> is \<^const>\<open>prefix\<close>, \<^verbatim>\<open>s.endsWith(p)\<close> is \<^const>\<open>suffix\<close>, and
  \<^verbatim>\<open>s.includes(p)\<close> is the following.\<close>

fun str_includes :: "'a list \<Rightarrow> 'a list \<Rightarrow> bool" where
  "str_includes [] p = (p = [])"
| "str_includes (x # xs) p = (prefix p (x # xs) \<or> str_includes xs p)"

lemma dropWhile_idem [simp]: "dropWhile p (dropWhile p xs) = dropWhile p xs"
  by (induction xs) auto

lemma trim_by_Nil [simp]: "trim_by p [] = []"
  by (simp add: trim_by_def)

lemma trim_by_subset: "set (trim_by p xs) \<subseteq> set xs"
  by (auto simp: trim_by_def dest!: set_dropWhileD)

lemma trim_by_eq_Nil [simp]: "trim_by p xs = [] \<longleftrightarrow> (\<forall>x \<in> set xs. p x)"
proof -
  have "trim_by p xs = [] \<longleftrightarrow> (\<forall>x \<in> set (dropWhile p xs). p x)"
    by (simp add: trim_by_def)
  also have "\<dots> \<longleftrightarrow> (\<forall>x \<in> set xs. p x)"
    by (induction xs) (auto dest: set_dropWhileD)
  finally show ?thesis .
qed

text \<open>A string that neither starts nor ends with white space is its own trim.\<close>

definition trimmed_by :: "('a \<Rightarrow> bool) \<Rightarrow> 'a list \<Rightarrow> bool" where
  "trimmed_by p xs \<longleftrightarrow> xs = [] \<or> (\<not> p (hd xs) \<and> \<not> p (last xs))"

lemma dropWhile_hd: "xs \<noteq> [] \<Longrightarrow> \<not> p (hd xs) \<Longrightarrow> dropWhile p xs = xs"
  by (cases xs) auto

lemma trim_by_trimmed [simp]: "trimmed_by p xs \<Longrightarrow> trim_by p xs = xs"
  by (cases "xs = []") (auto simp: trimmed_by_def trim_by_def dropWhile_hd hd_rev)

lemma last_dropWhile: "dropWhile p xs \<noteq> [] \<Longrightarrow> last (dropWhile p xs) = last xs"
  by (induction xs) auto

lemma trimmed_by_trim_by [simp]: "trimmed_by p (trim_by p xs)"
proof (cases "trim_by p xs = []")
  case True
  then show ?thesis by (simp add: trimmed_by_def)
next
  case False
  let ?ys = "dropWhile p xs"
  let ?zs = "dropWhile p (rev ?ys)"
  have zs: "?zs \<noteq> []" using False unfolding trim_by_def by (metis rev.simps(1))
  have ys: "?ys \<noteq> []" using zs by (metis dropWhile.simps(1) rev.simps(1))
  have "\<not> p (hd ?ys)" using ys by (rule hd_dropWhile)
  moreover have "last ?zs = hd ?ys"
    using last_dropWhile [OF zs] by (simp only: last_rev)
  moreover have "\<not> p (hd ?zs)" using zs by (rule hd_dropWhile)
  ultimately show ?thesis
    unfolding trimmed_by_def trim_by_def by (simp only: hd_rev last_rev simp_thms)
qed

lemma trim_by_idem [simp]: "trim_by p (trim_by p xs) = trim_by p xs"
  by simp

lemma trimmed_by_no: "(\<And>x. x \<in> set xs \<Longrightarrow> \<not> p x) \<Longrightarrow> trimmed_by p xs"
  by (auto simp: trimmed_by_def)

lemma trim_by_none [js_string_simps]: "(\<And>x. x \<in> set xs \<Longrightarrow> \<not> p x) \<Longrightarrow> trim_by p xs = xs"
  by (simp add: trimmed_by_no)

lemma split_on_neq_Nil [simp]: "split_on c xs \<noteq> []"
  by (cases xs) (auto split: list.splits)

lemma split_on_none [js_string_simps]: "c \<notin> set xs \<Longrightarrow> split_on c xs = [xs]"
  by (induction xs) auto

lemma split_on_append [js_string_simps]: "c \<notin> set xs \<Longrightarrow> split_on c (xs @ c # ys) = xs # split_on c ys"
  by (induction xs) auto

lemma prefix_before_unique:
  assumes "prefix (s @ [c]) key" "prefix (s' @ [c]) key" "c \<notin> set s" "c \<notin> set s'"
  shows "s = s'"
proof -
  obtain x where "key = s @ c # x" using assms(1) by (auto simp: prefix_def)
  moreover obtain y where "key = s' @ c # y" using assms(2) by (auto simp: prefix_def)
  ultimately have "split_on c (s @ c # x) = split_on c (s' @ c # y)" by simp
  then show ?thesis using assms(3,4) by (simp add: split_on_append)
qed

lemma split_on_join:
  "xs \<noteq> [] \<Longrightarrow> (\<And>x. x \<in> set xs \<Longrightarrow> c \<notin> set x) \<Longrightarrow> split_on c (join [c] xs) = xs"
proof (induction xs rule: induct_list012)
  case 1
  then show ?case by simp
next
  case (2 x)
  then show ?case by (simp add: split_on_none)
next
  case (3 x y zs)
  have "split_on c (join [c] (x # y # zs)) = x # split_on c (join [c] (y # zs))"
    using "3.prems" by (simp add: split_on_append)
  also have "split_on c (join [c] (y # zs)) = y # zs"
    by (rule "3.IH"(2)) (use "3.prems" in auto)
  finally show ?case .
qed

lemma set_join: "set (join sep xs) \<subseteq> \<Union> (set ` set xs) \<union> set sep"
  by (induction sep xs rule: join.induct) auto

lemma join_split_on [js_string_simps]: "join [c] (split_on c xs) = xs"
proof (induction xs)
  case Nil
  then show ?case by simp
next
  case (Cons x xs)
  obtain y ys where s: "split_on c xs = y # ys"
    by (meson list.exhaust split_on_neq_Nil)
  with Cons show ?case by (cases ys) auto
qed

lemma split_on_pieces: "y \<in> set (split_on c xs) \<Longrightarrow> c \<notin> set y"
  by (induction xs arbitrary: y) (auto split: if_splits list.splits)

lemma str_includes_iff_sublist: "str_includes xs p \<longleftrightarrow> sublist p xs"
  by (induction xs) (auto simp: sublist_Cons_right)

lemma str_includes_append:
  assumes "str_includes xs p"
  shows "str_includes (ys @ xs @ zs) p"
proof -
  from assms obtain us vs where "xs = us @ p @ vs"
    by (auto simp: str_includes_iff_sublist sublist_def)
  then have "ys @ xs @ zs = (ys @ us) @ p @ (vs @ zs)" by simp
  then show ?thesis
    unfolding str_includes_iff_sublist by (metis sublist_appendI)
qed

section \<open>Decimal numerals\<close>

text \<open>\<^verbatim>\<open>String(n)\<close> of a natural number and \<^verbatim>\<open>Number.parseInt(s, 10)\<close> of a string of digits.\<close>

definition is_digit :: "char \<Rightarrow> bool" where
  "is_digit c \<longleftrightarrow> 48 \<le> (of_char c :: nat) \<and> (of_char c :: nat) \<le> 57"

definition digit_val :: "char \<Rightarrow> nat" where
  "digit_val c = of_char c - 48"

definition digit_char :: "nat \<Rightarrow> char" where
  "digit_char n = char_of (48 + n)"

fun show_nat :: "nat \<Rightarrow> string" where
  "show_nat n = (if n < 10 then [digit_char n] else show_nat (n div 10) @ [digit_char (n mod 10)])"

declare show_nat.simps [simp del]

definition parse_nat :: "string \<Rightarrow> nat" where
  "parse_nat s = foldl (\<lambda>n c. 10 * n + digit_val c) 0 s"

lemma digit_val_char [simp]: "n < 10 \<Longrightarrow> digit_val (digit_char n) = n"
  by (simp add: digit_val_def digit_char_def)

lemma is_digit_char [simp]: "n < 10 \<Longrightarrow> is_digit (digit_char n)"
  by (simp add: is_digit_def digit_char_def)

lemma digit_not_ws [simp]: "is_digit c \<Longrightarrow> \<not> is_ws c"
  by (auto simp: is_digit_def is_ws_def)

lemma show_nat_neq_Nil [simp]: "show_nat n \<noteq> []"
  by (subst show_nat.simps) simp

lemma show_nat_digits: "c \<in> set (show_nat n) \<Longrightarrow> is_digit c"
proof (induction n rule: show_nat.induct)
  case (1 n)
  then show ?case by (cases "n < 10") (auto simp: show_nat.simps [of n])
qed

lemma parse_show_nat [simp]: "parse_nat (show_nat n) = n"
proof (induction n rule: show_nat.induct)
  case (1 n)
  show ?case
  proof (cases "n < 10")
    case True
    then show ?thesis by (simp add: show_nat.simps [of n] parse_nat_def)
  next
    case False
    with 1 show ?thesis by (simp add: show_nat.simps [of n] parse_nat_def)
  qed
qed

lemma show_nat_inject [simp]: "show_nat m = show_nat n \<longleftrightarrow> m = n"
  by (metis parse_show_nat)

section \<open>Insertion-ordered sets\<close>

text \<open>\<^verbatim>\<open>[...new Set(xs)]\<close>: first occurrences, in order.\<close>

definition set_add :: "'a \<Rightarrow> 'a list \<Rightarrow> 'a list" where
  "set_add x s = (if x \<in> set s then s else s @ [x])"

definition unique :: "'a list \<Rightarrow> 'a list" where
  "unique xs = foldl (\<lambda>s x. set_add x s) [] xs"

lemma set_set_add [simp]: "set (set_add x s) = insert x (set s)"
  by (auto simp: set_add_def)

lemma distinct_set_add [simp]: "distinct (set_add x s) = distinct s"
  by (auto simp: set_add_def)

lemma foldl_set_add:
  "distinct s \<Longrightarrow> distinct (foldl (\<lambda>s x. set_add x s) s xs) \<and>
     set (foldl (\<lambda>s x. set_add x s) s xs) = set s \<union> set xs"
  by (induction xs arbitrary: s) auto

lemma distinct_unique [simp]: "distinct (unique xs)"
  using foldl_set_add [of "[]" xs] by (simp add: unique_def)

lemma set_unique [simp]: "set (unique xs) = set xs"
  using foldl_set_add [of "[]" xs] by (simp add: unique_def)

lemma foldl_set_add_distinct:
  "distinct (s @ xs) \<Longrightarrow> foldl (\<lambda>s x. set_add x s) s xs = s @ xs"
  by (induction xs arbitrary: s) (auto simp: set_add_def)

lemma unique_distinct [js_list_simps]: "distinct xs \<Longrightarrow> unique xs = xs"
  using foldl_set_add_distinct [of "[]" xs] by (simp add: unique_def)

lemma unique_idem [simp]: "unique (unique xs) = unique xs"
  by (simp add: unique_distinct)

lemma unique_Nil [simp]: "unique [] = []"
  by (simp add: unique_def)

lemma unique_eq_Nil [simp]: "unique xs = [] \<longleftrightarrow> xs = []"
  by (simp flip: set_empty)

section \<open>Dynamic values\<close>

text \<open>
  Values of the TypeScript type \<^verbatim>\<open>unknown\<close>. Numbers are the finite ones, taken as exact rationals,
  and the three that are not finite; an object is the list of its own enumerable properties.
\<close>

datatype jsnum = Fin rat | PosInf | NegInf | NaN

datatype jsval =
    JUndefined
  | JNull
  | JBool bool
  | JNum jsnum
  | JStr string
  | JArr "jsval list"
  | JObj "(string \<times> jsval) list"

fun truthy :: "jsval \<Rightarrow> bool" where
  "truthy JUndefined = False"
| "truthy JNull = False"
| "truthy (JBool b) = b"
| "truthy (JNum n) = (n \<noteq> Fin 0 \<and> n \<noteq> NaN)"
| "truthy (JStr s) = (s \<noteq> [])"
| "truthy (JArr xs) = True"
| "truthy (JObj ps) = True"

text \<open>The property read \<^verbatim>\<open>v.k\<close> (\<^verbatim>\<open>v?.k\<close> on a value that is not an object). The keys the sources
  read this way are never \<^verbatim>\<open>length\<close> and never an index, so an array and a string have none of them.\<close>

fun jprop :: "jsval \<Rightarrow> string \<Rightarrow> jsval" where
  "jprop (JObj ps) k = (case map_of ps k of None \<Rightarrow> JUndefined | Some v \<Rightarrow> v)"
| "jprop v k = JUndefined"

text \<open>What every object inherits: a property read and the operator \<^verbatim>\<open>in\<close> find these as well.\<close>

definition object_prototype_keys :: "string list" where
  "object_prototype_keys = [''constructor'', ''__defineGetter__'', ''__defineSetter__'', ''hasOwnProperty'',
     ''__lookupGetter__'', ''__lookupSetter__'', ''isPrototypeOf'', ''propertyIsEnumerable'', ''toString'',
     ''valueOf'', ''__proto__'', ''toLocaleString'']"

text \<open>\<^verbatim>\<open>Boolean(v) && typeof v === 'object'\<close>, and \<^verbatim>\<open>typeof\<close> tests.\<close>

fun is_record :: "jsval \<Rightarrow> bool" where
  "is_record (JObj ps) = True"
| "is_record (JArr xs) = True"
| "is_record v = False"

fun is_string :: "jsval \<Rightarrow> bool" where
  "is_string (JStr s) = True"
| "is_string v = False"

fun is_number :: "jsval \<Rightarrow> bool" where
  "is_number (JNum n) = True"
| "is_number v = False"

fun is_boolean :: "jsval \<Rightarrow> bool" where
  "is_boolean (JBool b) = True"
| "is_boolean v = False"

text \<open>\<^verbatim>\<open>Number.isInteger\<close>, \<^verbatim>\<open>Number.isFinite\<close>: false on what is not a number.\<close>

fun num_is_integer :: "jsval \<Rightarrow> bool" where
  "num_is_integer (JNum (Fin r)) = (of_int \<lfloor>r\<rfloor> = r)"
| "num_is_integer v = False"

fun num_is_finite :: "jsval \<Rightarrow> bool" where
  "num_is_finite (JNum (Fin r)) = True"
| "num_is_finite v = False"

text \<open>\<^verbatim>\<open>a > b\<close> on numbers.\<close>

fun num_gt :: "jsnum \<Rightarrow> rat \<Rightarrow> bool" where
  "num_gt (Fin r) b = (r > b)"
| "num_gt PosInf b = True"
| "num_gt NegInf b = False"
| "num_gt NaN b = False"

fun the_num :: "jsval \<Rightarrow> jsnum" where
  "the_num (JNum n) = n"
| "the_num v = NaN"

fun the_str :: "jsval \<Rightarrow> string" where
  "the_str (JStr s) = s"
| "the_str v = []"

fun the_bool :: "jsval \<Rightarrow> bool" where
  "the_bool (JBool b) = b"
| "the_bool v = False"

lemma is_string_conv: "is_string v \<longleftrightarrow> (\<exists>s. v = JStr s)"
  by (cases v) auto

lemma is_number_conv: "is_number v \<longleftrightarrow> (\<exists>n. v = JNum n)"
  by (cases v) auto

lemma is_boolean_conv: "is_boolean v \<longleftrightarrow> (\<exists>b. v = JBool b)"
  by (cases v) auto

lemma num_is_finite_conv: "num_is_finite v \<longleftrightarrow> (\<exists>r. v = JNum (Fin r))"
  by (cases v rule: num_is_finite.cases) auto

lemma num_is_integer_conv: "num_is_integer v \<longleftrightarrow> (\<exists>i. v = JNum (Fin (of_int i)))"
proof (cases v rule: num_is_integer.cases)
  case (1 r)
  then show ?thesis by (metis floor_of_int jsval.inject(2) jsnum.inject num_is_integer.simps(1))
qed auto

lemmas typeof_conv = is_string_conv is_number_conv is_boolean_conv num_is_finite_conv

section \<open>Word characters\<close>

text \<open>\<^verbatim>\<open>\w\<close>, and the absence of one at the end of a text, for \<^verbatim>\<open>\b\<close>.\<close>

definition is_word :: "char \<Rightarrow> bool" where
  "is_word c = (let n = of_char c :: nat in
     48 \<le> n \<and> n \<le> 57 \<or> 65 \<le> n \<and> n \<le> 90 \<or> n = 95 \<or> 97 \<le> n \<and> n \<le> 122)"

definition not_word :: "char option \<Rightarrow> bool" where
  "not_word c = (case c of None \<Rightarrow> True | Some x \<Rightarrow> \<not> is_word x)"

section \<open>Missing values\<close>

text \<open>\<^verbatim>\<open>xs ?? []\<close> and \<^verbatim>\<open>x ?? d\<close>.\<close>

definition or_empty :: "'a list option \<Rightarrow> 'a list" where
  "or_empty x = (case x of None \<Rightarrow> [] | Some xs \<Rightarrow> xs)"

definition or_else :: "'a option \<Rightarrow> 'a option \<Rightarrow> 'a option" where
  "or_else x y = (case x of None \<Rightarrow> y | Some v \<Rightarrow> Some v)"

definition or_value :: "'a option \<Rightarrow> 'a \<Rightarrow> 'a" where
  "or_value x d = (case x of None \<Rightarrow> d | Some v \<Rightarrow> v)"

lemma or_simps [simp]:
  "or_empty None = []" "or_empty (Some xs) = xs"
  "or_else None y = y" "or_else (Some v) y = Some v"
  "or_value None d = d" "or_value (Some v) d = v"
  by (simp_all add: or_empty_def or_else_def or_value_def)

section \<open>Stable sorting by a comparator\<close>

text \<open>
  \<^verbatim>\<open>xs.sort(cmp)\<close> is stable (ECMAScript 2019); for a consistent comparator its result is the one
  of insertion from the right, an element going before the first that is not smaller.
\<close>

fun insort_cmp :: "('a \<Rightarrow> 'a \<Rightarrow> int) \<Rightarrow> 'a \<Rightarrow> 'a list \<Rightarrow> 'a list" where
  "insort_cmp cmp x [] = [x]"
| "insort_cmp cmp x (y # ys) = (if cmp x y \<le> 0 then x # y # ys else y # insort_cmp cmp x ys)"

definition sort_cmp :: "('a \<Rightarrow> 'a \<Rightarrow> int) \<Rightarrow> 'a list \<Rightarrow> 'a list" where
  "sort_cmp cmp xs = foldr (insort_cmp cmp) xs []"

lemma sort_cmp_Nil [simp]: "sort_cmp cmp [] = []"
  by (simp add: sort_cmp_def)

lemma sort_cmp_Cons: "sort_cmp cmp (x # xs) = insort_cmp cmp x (sort_cmp cmp xs)"
  by (simp add: sort_cmp_def)

lemma mset_insort_cmp [simp]: "mset (insort_cmp cmp x xs) = add_mset x (mset xs)"
  by (induction xs) auto

lemma mset_sort_cmp [simp]: "mset (sort_cmp cmp xs) = mset xs"
  by (induction xs) (simp_all add: sort_cmp_Cons)

lemma set_sort_cmp [simp]: "set (sort_cmp cmp xs) = set xs"
  by (rule mset_eq_setD) simp

lemma length_sort_cmp [simp]: "length (sort_cmp cmp xs) = length xs"
  by (rule mset_eq_length) simp

lemma distinct_sort_cmp [simp]: "distinct (sort_cmp cmp xs) = distinct xs"
  by (rule mset_eq_imp_distinct_iff) simp

text \<open>A comparator is consistent when \<open>cmp a b \<le> 0\<close> is a total preorder.\<close>

locale comparator =
  fixes cmp :: "'a \<Rightarrow> 'a \<Rightarrow> int"
  assumes cmp_total: "cmp a b \<le> 0 \<or> cmp b a \<le> 0"
    and cmp_trans: "cmp a b \<le> 0 \<Longrightarrow> cmp b c \<le> 0 \<Longrightarrow> cmp a c \<le> 0"
begin

lemma set_insort_cmp: "set (insort_cmp cmp x xs) = insert x (set xs)"
  by (induction xs) auto

lemma sorted_insort_cmp:
  "sorted_wrt (\<lambda>a b. cmp a b \<le> 0) xs \<Longrightarrow> sorted_wrt (\<lambda>a b. cmp a b \<le> 0) (insort_cmp cmp x xs)"
proof (induction xs)
  case Nil
  then show ?case by simp
next
  case (Cons y ys)
  then show ?case
    using cmp_total [of x y] by (auto simp: set_insort_cmp intro: cmp_trans)
qed

lemma sorted_sort_cmp: "sorted_wrt (\<lambda>a b. cmp a b \<le> 0) (sort_cmp cmp xs)"
  by (induction xs) (simp_all add: sort_cmp_Cons sorted_insort_cmp)

lemma insort_cmp_least: "(\<And>y. y \<in> set ys \<Longrightarrow> cmp x y \<le> 0) \<Longrightarrow> insort_cmp cmp x ys = x # ys"
  by (cases ys) auto

lemma sort_cmp_sorted: "sorted_wrt (\<lambda>a b. cmp a b \<le> 0) xs \<Longrightarrow> sort_cmp cmp xs = xs"
  by (induction xs) (simp_all add: sort_cmp_Cons insort_cmp_least)

end

end
