(* ===== verification/HttpStatusRules.thy ===== *)
theory HttpStatusRules
  imports Prelude
begin

text \<open>
  The parser of HTTP status code rules, \<^verbatim>\<open>src/web/src/lib/http-status-code-rules.ts\<close>: a comma
  separated list of codes and ranges is split, each token is parsed, and the ranges are sorted and
  merged into a normal form. The source replaces the full-width comma U+FF0C, so strings here are
  lists of code units. \<^verbatim>\<open>Number.parseInt\<close> rounds above \<open>2 ^ 53\<close>, where every code is out of
  bounds, so natural numbers give the same verdicts.
\<close>

type_synonym wstr = "code_unit list"

abbreviation wide :: "string \<Rightarrow> wstr" where
  "wide \<equiv> map Lat"

record StatusCodeRange =
  rng_start :: nat
  rng_end :: nat

record ParsedHttpStatusCodeRules =
  ok :: bool
  ranges :: "StatusCodeRange list"
  tokens :: "wstr list"
  normalized :: wstr
  invalidTokens :: "wstr list"

section \<open>Tokens\<close>

fun is_digit_cu :: "code_unit \<Rightarrow> bool" where
  "is_digit_cu (Lat c) = is_digit c"
| "is_digit_cu (Wide n) = False"

fun narrow :: "code_unit \<Rightarrow> char" where
  "narrow (Lat c) = c"
| "narrow (Wide n) = CHR 0x00"

text \<open>\<^verbatim>\<open>isNumber\<close>: the regular expression of one or more ASCII digits. A missing second piece is
  \<^verbatim>\<open>undefined\<close>, not a string.\<close>

definition isNumber :: "wstr option \<Rightarrow> bool" where
  "isNumber s = (case s of None \<Rightarrow> False | Some t \<Rightarrow> t \<noteq> [] \<and> list_all is_digit_cu t)"

definition parse_int :: "wstr \<Rightarrow> nat" where
  "parse_int t = parse_nat (map narrow t)"

definition isValidCode :: "nat \<Rightarrow> bool" where
  "isValidCode code \<longleftrightarrow> code \<ge> 100 \<and> code \<le> 599"

text \<open>\<^verbatim>\<open>xs[i]\<close> of a JavaScript array: \<^verbatim>\<open>undefined\<close> out of range.\<close>

definition piece :: "nat \<Rightarrow> wstr list \<Rightarrow> wstr option" where
  "piece i xs = (if i < length xs then Some (xs ! i) else None)"

definition parseToken :: "wstr \<Rightarrow> StatusCodeRange option" where
  "parseToken token =
     (let cleaned = filter (\<lambda>c. \<not> is_ws_cu c) (trim_by is_ws_cu token) in
      if cleaned = [] then None
      else if Lat CHR ''-'' \<in> set cleaned then
        (let a = piece 0 (split_on (Lat CHR ''-'') cleaned);
             b = piece 1 (split_on (Lat CHR ''-'') cleaned) in
         if \<not> isNumber a \<or> \<not> isNumber b then None
         else (let start = parse_int (the a); end' = parse_int (the b) in
           if \<not> isValidCode start \<or> \<not> isValidCode end' \<or> start > end' then None
           else Some \<lparr>rng_start = start, rng_end = end'\<rparr>))
      else if \<not> isNumber (Some cleaned) then None
      else (let code = parse_int cleaned in
        if \<not> isValidCode code then None
        else Some \<lparr>rng_start = code, rng_end = code\<rparr>))"

section \<open>Merging\<close>

definition range_cmp :: "StatusCodeRange \<Rightarrow> StatusCodeRange \<Rightarrow> int" where
  "range_cmp a b =
     (if rng_start a \<noteq> rng_start b then int (rng_start a) - int (rng_start b)
      else int (rng_end a) - int (rng_end b))"

definition merge_step :: "StatusCodeRange list \<Rightarrow> StatusCodeRange \<Rightarrow> StatusCodeRange list" where
  "merge_step merged current =
     (if merged = [] \<or> rng_start current > rng_end (last merged) + 1 then merged @ [current]
      else butlast merged @
        [(last merged)\<lparr>rng_end := max (rng_end (last merged)) (rng_end current)\<rparr>])"

definition mergeRanges :: "StatusCodeRange list \<Rightarrow> StatusCodeRange list" where
  "mergeRanges rs =
     (if rs = [] then [] else foldl merge_step [] (sort_cmp range_cmp rs))"

section \<open>The parser\<close>

definition show_range :: "StatusCodeRange \<Rightarrow> wstr" where
  "show_range r =
     (if rng_start r = rng_end r then wide (show_nat (rng_start r))
      else wide (show_nat (rng_start r)) @ [Lat CHR ''-''] @ wide (show_nat (rng_end r)))"

text \<open>The loop over the segments: the ranges so far and the invalid segments so far.\<close>

fun parse_segments ::
  "wstr list \<Rightarrow> StatusCodeRange list \<Rightarrow> wstr list \<Rightarrow> StatusCodeRange list \<times> wstr list" where
  "parse_segments [] rs bad = (rs, bad)"
| "parse_segments (segment # rest) rs bad =
     (case parseToken segment of
        None \<Rightarrow> parse_segments rest rs (bad @ [segment])
      | Some r \<Rightarrow> parse_segments rest (rs @ [r]) bad)"

definition sanitize :: "wstr \<Rightarrow> wstr" where
  "sanitize raw = map (\<lambda>c. if c = Wide 0xFF0C then Lat CHR '','' else c) raw"

definition segments_of :: "wstr \<Rightarrow> wstr list" where
  "segments_of raw =
     filter (\<lambda>s. s \<noteq> []) (map (trim_by is_ws_cu) (split_on (Lat CHR '','') (sanitize raw)))"

definition raw_of :: "wstr option \<Rightarrow> wstr" where
  "raw_of input = trim_by is_ws_cu (case input of None \<Rightarrow> [] | Some s \<Rightarrow> s)"

definition parseHttpStatusCodeRules :: "wstr option \<Rightarrow> ParsedHttpStatusCodeRules" where
  "parseHttpStatusCodeRules input =
     (let raw = raw_of input in
      if raw = [] then
        \<lparr>ok = True, ranges = [], tokens = [], normalized = [], invalidTokens = []\<rparr>
      else
        (let (rs, bad) = parse_segments (segments_of raw) [] [] in
         if bad \<noteq> [] then
           \<lparr>ok = False, ranges = [], tokens = [], normalized = raw, invalidTokens = bad\<rparr>
         else
           (let merged = mergeRanges rs;
                toks = map show_range merged in
            \<lparr>ok = True, ranges = merged, tokens = toks,
             normalized = join [Lat CHR '',''] toks, invalidTokens = []\<rparr>)))"

section \<open>Codes and the normal form\<close>

text \<open>The status codes a list of ranges stands for, and the normal form of such a list: proper
  ranges, ascending, with at least one code missing between neighbours.\<close>

definition codes :: "StatusCodeRange list \<Rightarrow> nat set" where
  "codes rs = (\<Union>r \<in> set rs. {rng_start r .. rng_end r})"

definition range_ok :: "StatusCodeRange \<Rightarrow> bool" where
  "range_ok r \<longleftrightarrow> 100 \<le> rng_start r \<and> rng_start r \<le> rng_end r \<and> rng_end r \<le> 599"

definition canonical :: "StatusCodeRange list \<Rightarrow> bool" where
  "canonical rs \<longleftrightarrow>
     (\<forall>r \<in> set rs. rng_start r \<le> rng_end r) \<and>
     sorted_wrt (\<lambda>a b. rng_end a + 1 < rng_start b) rs"

lemma codes_simps [simp]:
  "codes [] = {}"
  "codes (r # rs) = {rng_start r .. rng_end r} \<union> codes rs"
  "codes (rs @ ss) = codes rs \<union> codes ss"
  by (auto simp: codes_def)

lemma codes_sort_cmp [simp]: "codes (sort_cmp cmp rs) = codes rs"
  by (simp add: codes_def)

interpretation range_order: comparator range_cmp
  by unfold_locales (auto simp: range_cmp_def split: if_splits)

lemma range_cmp_start: "range_cmp a b \<le> 0 \<Longrightarrow> rng_start a \<le> rng_start b"
  by (auto simp: range_cmp_def split: if_splits)

lemma merge_step_codes:
  assumes "m \<noteq> [] \<Longrightarrow> rng_start (last m) \<le> rng_start r \<and> rng_start (last m) \<le> rng_end (last m)"
    and "rng_start r \<le> rng_end r"
  shows "codes (merge_step m r) = codes m \<union> {rng_start r .. rng_end r}"
proof (cases "m = [] \<or> rng_start r > rng_end (last m) + 1")
  case True
  then show ?thesis by (auto simp: merge_step_def)
next
  case False
  have m: "codes m = codes (butlast m) \<union> {rng_start (last m) .. rng_end (last m)}"
    using False codes_simps(3) [of "butlast m" "[last m]"] by simp
  have "{rng_start (last m) .. max (rng_end (last m)) (rng_end r)} =
      {rng_start (last m) .. rng_end (last m)} \<union> {rng_start r .. rng_end r}"
    using False assms by auto
  with False m show ?thesis by (auto simp: merge_step_def)
qed

lemma canonical_snoc:
  "canonical (m @ [r]) \<longleftrightarrow>
     canonical m \<and> rng_start r \<le> rng_end r \<and> (\<forall>a \<in> set m. rng_end a + 1 < rng_start r)"
  by (auto simp: canonical_def sorted_wrt_append)

lemma canonical_end_le_last:
  "canonical m \<Longrightarrow> a \<in> set m \<Longrightarrow> rng_end a \<le> rng_end (last m)"
proof (induction m rule: rev_induct)
  case Nil
  then show ?case by simp
next
  case (snoc x xs)
  then show ?case by (auto simp: canonical_snoc)
qed

lemma merge_step_canonical:
  assumes can: "canonical m"
    and start: "m \<noteq> [] \<Longrightarrow> rng_start (last m) \<le> rng_start r"
    and r: "rng_start r \<le> rng_end r"
  shows "canonical (merge_step m r)"
proof (cases "m = [] \<or> rng_start r > rng_end (last m) + 1")
  case True
  then have "\<forall>a \<in> set m. rng_end a + 1 < rng_start r"
    using canonical_end_le_last [OF can] by fastforce
  with True show ?thesis
    using can r by (simp add: merge_step_def canonical_snoc)
next
  case False
  then obtain xs l where m: "m = xs @ [l]" by (metis append_butlast_last_id)
  with False can show ?thesis
    by (auto simp: merge_step_def canonical_snoc)
qed

lemma merge_step_last:
  "m \<noteq> [] \<longrightarrow> rng_start (last m) \<le> rng_start r \<Longrightarrow>
     merge_step m r \<noteq> [] \<and> rng_start (last (merge_step m r)) \<le> rng_start r"
  by (auto simp: merge_step_def)

lemma foldl_merge_step:
  assumes "sorted_wrt (\<lambda>a b. range_cmp a b \<le> 0) rs"
    and "\<forall>r \<in> set rs. rng_start r \<le> rng_end r"
    and "canonical m"
    and "\<forall>r \<in> set rs. m \<noteq> [] \<longrightarrow> rng_start (last m) \<le> rng_start r"
  shows "canonical (foldl merge_step m rs) \<and> codes (foldl merge_step m rs) = codes m \<union> codes rs"
  using assms
proof (induction rs arbitrary: m)
  case Nil
  then show ?case by simp
next
  case (Cons r rs)
  have r: "rng_start r \<le> rng_end r" and st: "m \<noteq> [] \<longrightarrow> rng_start (last m) \<le> rng_start r"
    using Cons.prems by auto
  have can: "canonical (merge_step m r)"
    using Cons.prems(3) st r by (auto intro: merge_step_canonical)
  have last_ok: "m \<noteq> [] \<Longrightarrow> rng_start (last m) \<le> rng_end (last m)"
    using Cons.prems(3) by (auto simp: canonical_def)
  have cod: "codes (merge_step m r) = codes m \<union> {rng_start r .. rng_end r}"
    using st r last_ok by (intro merge_step_codes) auto
  have "rng_start (last (merge_step m r)) \<le> rng_start x" if "x \<in> set rs" for x
  proof -
    have "rng_start r \<le> rng_start x"
      using Cons.prems(1) that by (auto dest: range_cmp_start)
    then show ?thesis using merge_step_last [OF st] by simp
  qed
  then have "canonical (foldl merge_step (merge_step m r) rs) \<and>
      codes (foldl merge_step (merge_step m r) rs) = codes (merge_step m r) \<union> codes rs"
    using Cons.prems can by (intro Cons.IH) auto
  with cod show ?case by auto
qed

lemma mergeRanges_spec:
  assumes "\<forall>r \<in> set rs. rng_start r \<le> rng_end r"
  shows "canonical (mergeRanges rs) \<and> codes (mergeRanges rs) = codes rs"
proof (cases "rs = []")
  case True
  then show ?thesis by (simp add: mergeRanges_def canonical_def)
next
  case False
  have "canonical (foldl merge_step [] (sort_cmp range_cmp rs)) \<and>
      codes (foldl merge_step [] (sort_cmp range_cmp rs)) = codes [] \<union> codes (sort_cmp range_cmp rs)"
    using assms range_order.sorted_sort_cmp by (intro foldl_merge_step) (auto simp: canonical_def)
  with False show ?thesis by (simp add: mergeRanges_def)
qed

text \<open>The normal form determines the set of codes and is determined by it.\<close>

lemma canonical_Cons_codes: "canonical (r # rs) \<Longrightarrow> c \<in> codes rs \<Longrightarrow> rng_end r + 1 < c"
  by (fastforce simp: canonical_def codes_def)

lemma canonical_ConsD:
  "canonical (r # rs) \<Longrightarrow> canonical rs \<and> rng_start r \<le> rng_end r"
  by (simp add: canonical_def)

lemma canonical_unique:
  "canonical rs \<Longrightarrow> canonical ss \<Longrightarrow> codes rs = codes ss \<Longrightarrow> rs = ss"
proof (induction rs arbitrary: ss)
  case Nil
  then show ?case by (cases ss) (auto dest: canonical_ConsD)
next
  case (Cons r rs)
  then obtain s ss' where ss: "ss = s # ss'"
    by (cases ss) (auto dest: canonical_ConsD)
  note can = Cons.prems(1) Cons.prems(2) [unfolded ss]
  note gap = canonical_Cons_codes [OF can(1)] canonical_Cons_codes [OF can(2)]
  have le: "rng_start r \<le> rng_end r" "rng_start s \<le> rng_end s"
    using can by (auto dest: canonical_ConsD)
  have eq: "{rng_start r .. rng_end r} \<union> codes rs = {rng_start s .. rng_end s} \<union> codes ss'"
    using Cons.prems(3) ss by simp
  have mem: "rng_start r \<in> {rng_start s .. rng_end s} \<union> codes ss'"
    "rng_start s \<in> {rng_start r .. rng_end r} \<union> codes rs"
    using le eq by auto
  then have st: "rng_start r = rng_start s"
    using le gap by fastforce
  have "rng_end r = rng_end s"
  proof (rule linorder_cases)
    assume lt: "rng_end r < rng_end s"
    then have "rng_end r + 1 \<in> {rng_start s .. rng_end s} \<union> codes ss'"
      using le st by auto
    then show ?thesis using gap(1) unfolding eq [symmetric] by auto
  next
    assume lt: "rng_end s < rng_end r"
    then have "rng_end s + 1 \<in> {rng_start r .. rng_end r} \<union> codes rs"
      using le st by auto
    then show ?thesis using gap(2) unfolding eq by auto
  qed
  with st have rs: "r = s" by simp
  have "codes rs \<inter> {rng_start r .. rng_end r} = {}" "codes ss' \<inter> {rng_start s .. rng_end s} = {}"
    using gap by fastforce+
  then have "codes rs = codes ss'"
    using eq rs by blast
  with Cons.IH can rs ss show ?case
    by (auto dest: canonical_ConsD)
qed

lemma canonical_sorted_cmp: "canonical rs \<Longrightarrow> sorted_wrt (\<lambda>a b. range_cmp a b \<le> 0) rs"
  by (auto simp: canonical_def range_cmp_def elim!: sorted_wrt_mono_rel [rotated])

lemma mergeRanges_canonical: "canonical rs \<Longrightarrow> mergeRanges rs = rs"
  by (rule canonical_unique) (use mergeRanges_spec in \<open>auto simp: canonical_def\<close>)

text \<open>Merging keeps the bounds of the codes.\<close>

lemma canonical_range_mem:
  "canonical rs \<Longrightarrow> r \<in> set rs \<Longrightarrow> rng_start r \<in> codes rs \<and> rng_end r \<in> codes rs"
  by (auto simp: canonical_def codes_def)

lemma mergeRanges_range_ok:
  assumes "\<forall>r \<in> set rs. range_ok r"
  shows "\<forall>r \<in> set (mergeRanges rs). range_ok r"
proof
  fix r assume r: "r \<in> set (mergeRanges rs)"
  have spec: "canonical (mergeRanges rs)" "codes (mergeRanges rs) = codes rs"
    using mergeRanges_spec assms by (auto simp: range_ok_def)
  have "codes rs \<subseteq> {100 .. 599}"
    using assms by (fastforce simp: codes_def range_ok_def)
  then show "range_ok r"
    using canonical_range_mem [OF spec(1) r] spec r by (auto simp: range_ok_def canonical_def)
qed

section \<open>Tokens read back\<close>

lemma narrow_wide [simp]: "map (narrow \<circ> Lat) s = s"
  by (induction s) auto

lemma isNumber_show [simp]: "isNumber (Some (wide (show_nat n)))"
  by (auto simp: isNumber_def list_all_iff dest: show_nat_digits)

lemma parse_int_show [simp]: "parse_int (wide (show_nat n)) = n"
  by (simp add: parse_int_def)

lemma dash_not_digit [simp]: "\<not> is_digit CHR ''-''" "\<not> is_digit CHR '',''"
  by (simp_all add: is_digit_def)

lemma dash_not_in_show [simp]:
  "CHR ''-'' \<notin> set (show_nat n)" "CHR '','' \<notin> set (show_nat n)"
  using show_nat_digits dash_not_digit by blast+

lemma show_range_no_ws: "c \<in> set (show_range r) \<Longrightarrow> \<not> is_ws_cu c"
  by (auto simp: show_range_def is_ws_def split: if_splits dest!: show_nat_digits digit_not_ws)

lemma show_range_no_comma: "Lat CHR '','' \<notin> set (show_range r)"
  by (auto simp: show_range_def split: if_splits)

lemma show_range_neq_Nil [simp]: "show_range r \<noteq> []"
  by (simp add: show_range_def)

lemma show_range_clean [simp]:
  "trim_by is_ws_cu (show_range r) = show_range r"
  "filter (\<lambda>c. \<not> is_ws_cu c) (show_range r) = show_range r"
  by (auto intro: trim_by_none simp: filter_id_conv dest: show_range_no_ws)

lemma split_show_range:
  "rng_start r \<noteq> rng_end r \<Longrightarrow>
     split_on (Lat CHR ''-'') (show_range r) = [wide (show_nat (rng_start r)), wide (show_nat (rng_end r))]"
  by (auto simp: show_range_def split_on_append split_on_none image_iff)

lemma parseToken_show_range:
  assumes "range_ok r"
  shows "parseToken (show_range r) = Some r"
proof (cases "rng_start r = rng_end r")
  case True
  then have "show_range r = wide (show_nat (rng_start r))" by (simp add: show_range_def)
  moreover have "Lat CHR ''-'' \<notin> set (show_range r)"
    using True by (auto simp: show_range_def)
  ultimately show ?thesis
    using assms True show_range_clean [of r] by (auto simp: parseToken_def Let_def isValidCode_def range_ok_def)
next
  case False
  moreover have "Lat CHR ''-'' \<in> set (show_range r)"
    using False by (auto simp: show_range_def)
  ultimately show ?thesis
    using assms by (auto simp: parseToken_def Let_def isValidCode_def range_ok_def split_show_range piece_def)
qed

lemma parseToken_range_ok: "parseToken t = Some r \<Longrightarrow> range_ok r"
  by (auto simp: parseToken_def Let_def isValidCode_def range_ok_def split: if_splits)

section \<open>The loop over the segments\<close>

lemma parse_segments_spec:
  "parse_segments segs rs bad =
     (rs @ List.map_filter parseToken segs, bad @ filter (\<lambda>s. parseToken s = None) segs)"
  by (induction segs rs bad rule: parse_segments.induct)
    (auto simp: map_filter_simps split: option.splits)

lemma map_filter_range_ok: "r \<in> set (List.map_filter parseToken segs) \<Longrightarrow> range_ok r"
  by (auto simp: List.map_filter_def dest: parseToken_range_ok)

lemma segments_of_normal:
  assumes "\<forall>r \<in> set rs. range_ok r"
  shows "segments_of (join [Lat CHR '',''] (map show_range rs)) = map show_range rs"
proof (cases "rs = []")
  case True
  then show ?thesis by (simp add: segments_of_def sanitize_def)
next
  case False
  let ?ts = "map show_range rs"
  have wide_free: "Wide n \<notin> set (show_range r)" for n r
    by (auto simp: show_range_def)
  have "Wide 0xFF0C \<notin> set (join [Lat CHR '',''] ?ts)"
    using set_join [of "[Lat CHR '','']" ?ts] wide_free by auto
  then have "sanitize (join [Lat CHR '',''] ?ts) = join [Lat CHR '',''] ?ts"
    unfolding sanitize_def by (intro map_idI) auto
  moreover have "split_on (Lat CHR '','') (join [Lat CHR '',''] ?ts) = ?ts"
    using False show_range_no_comma by (intro split_on_join) auto
  moreover have "map (trim_by is_ws_cu) ?ts = ?ts" by simp
  moreover have "filter (\<lambda>s. s \<noteq> []) ?ts = ?ts" by (auto simp: filter_id_conv)
  ultimately show ?thesis unfolding segments_of_def by simp
qed

lemma map_filter_show_range:
  "\<forall>r \<in> set rs. range_ok r \<Longrightarrow> List.map_filter parseToken (map show_range rs) = rs"
  by (induction rs) (auto simp: map_filter_simps parseToken_show_range)

lemma join_no_ws:
  "c \<in> set (join [Lat CHR '',''] (map show_range rs)) \<Longrightarrow> \<not> is_ws_cu c"
  using set_join [of "[Lat CHR '','']" "map show_range rs"] show_range_no_ws
  by (fastforce simp: is_ws_def)

lemma join_eq_Nil: "join [c] xs = [] \<longleftrightarrow> xs = [] \<or> xs = [[]]"
  by (induction "[c]" xs rule: join.induct) auto

lemma segments_of_Nil [simp]: "segments_of [] = []"
  by (simp add: segments_of_def sanitize_def)

lemma mergeRanges_Nil [simp]: "mergeRanges [] = []"
  by (simp add: mergeRanges_def)

text \<open>The parser in one equation: the segments decide everything.\<close>

lemma parse_rules_eq:
  "parseHttpStatusCodeRules input =
     (let segs = segments_of (raw_of input);
          bad = filter (\<lambda>s. parseToken s = None) segs;
          merged = mergeRanges (List.map_filter parseToken segs) in
      if bad \<noteq> [] then
        \<lparr>ok = False, ranges = [], tokens = [], normalized = raw_of input, invalidTokens = bad\<rparr>
      else
        \<lparr>ok = True, ranges = merged, tokens = map show_range merged,
         normalized = join [Lat CHR '',''] (map show_range merged), invalidTokens = []\<rparr>)"
  by (auto simp: parseHttpStatusCodeRules_def parse_segments_spec Let_def map_filter_simps)

lemma codes_map_filter:
  "codes (List.map_filter parseToken segs) =
     {c. \<exists>t \<in> set segs. \<exists>r. parseToken t = Some r \<and> rng_start r \<le> c \<and> c \<le> rng_end r}"
  by (induction segs) (auto simp: map_filter_simps split: option.splits)

lemma parsed_ranges:
  assumes "ok (parseHttpStatusCodeRules input)"
  defines "segs \<equiv> segments_of (raw_of input)"
  shows "ranges (parseHttpStatusCodeRules input) = mergeRanges (List.map_filter parseToken segs)"
    and "canonical (ranges (parseHttpStatusCodeRules input))"
    and "\<forall>r \<in> set (ranges (parseHttpStatusCodeRules input)). range_ok r"
    and "codes (ranges (parseHttpStatusCodeRules input)) = codes (List.map_filter parseToken segs)"
proof -
  show eq: "ranges (parseHttpStatusCodeRules input) = mergeRanges (List.map_filter parseToken segs)"
    using assms(1) by (auto simp: parse_rules_eq Let_def segs_def split: if_splits)
  have rok: "\<forall>r \<in> set (List.map_filter parseToken segs). range_ok r"
    by (auto dest: map_filter_range_ok)
  then show "\<forall>r \<in> set (ranges (parseHttpStatusCodeRules input)). range_ok r"
    unfolding eq by (rule mergeRanges_range_ok)
  from rok show "canonical (ranges (parseHttpStatusCodeRules input))"
    and "codes (ranges (parseHttpStatusCodeRules input)) = codes (List.map_filter parseToken segs)"
    using mergeRanges_spec unfolding eq by (auto simp: range_ok_def)
qed

lemma raw_of_normal: "raw_of (Some (join [Lat CHR '',''] (map show_range rs))) =
    join [Lat CHR '',''] (map show_range rs)"
  by (simp add: raw_of_def trim_by_none join_no_ws)

lemma parse_normal:
  assumes "canonical rs" "\<forall>r \<in> set rs. range_ok r"
  shows "parseHttpStatusCodeRules (Some (join [Lat CHR '',''] (map show_range rs))) =
    \<lparr>ok = True, ranges = rs, tokens = map show_range rs,
     normalized = join [Lat CHR '',''] (map show_range rs), invalidTokens = []\<rparr>"
  using assms
  by (auto simp: parse_rules_eq raw_of_normal segments_of_normal map_filter_show_range
      mergeRanges_canonical parseToken_show_range Let_def filter_empty_conv)

lemma parsed_fields:
  assumes "ok (parseHttpStatusCodeRules input)"
  defines "rs \<equiv> ranges (parseHttpStatusCodeRules input)"
  shows "parseHttpStatusCodeRules input =
    \<lparr>ok = True, ranges = rs, tokens = map show_range rs,
     normalized = join [Lat CHR '',''] (map show_range rs), invalidTokens = []\<rparr>"
  using assms(1) unfolding rs_def by (auto simp: parse_rules_eq Let_def split: if_splits)

section \<open>Properties\<close>

text \<open>
  C8. When every segment of the rules parses, the ranges returned are in normal form (proper,
  ascending, non-adjacent), lie within 100 and 599, and cover exactly the status codes that the
  individual segments name.
\<close>

theorem parse_rules_normal_form:
  assumes "ok (parseHttpStatusCodeRules input)"
  shows "canonical (ranges (parseHttpStatusCodeRules input)) \<and>
    (\<forall>r \<in> set (ranges (parseHttpStatusCodeRules input)). range_ok r) \<and>
    codes (ranges (parseHttpStatusCodeRules input)) =
      {c. \<exists>t \<in> set (segments_of (raw_of input)). \<exists>r.
            parseToken t = Some r \<and> rng_start r \<le> c \<and> c \<le> rng_end r}"
  using parsed_ranges [OF assms] by (simp add: codes_map_filter)

text \<open>Two overlapping ranges and a code apart from them, written out of order.\<close>

definition sample_rules :: wstr where
  "sample_rules = wide ''500-505, 401,504-509''"

definition sample_rules2 :: wstr where
  "sample_rules2 = wide ''401,500-509''"

lemma sample_rules_ok: "ok (parseHttpStatusCodeRules (Some sample_rules))"
  by code_simp

theorem parse_rules_normal_form_witness:
  "ok (parseHttpStatusCodeRules (Some sample_rules)) \<and>
   canonical (ranges (parseHttpStatusCodeRules (Some sample_rules)))"
  using parse_rules_normal_form [OF sample_rules_ok] sample_rules_ok by simp

text \<open>
  The normal form is canonical: two accepted inputs that stand for the same status codes
  produce the same result, field by field, however their rules are written.
\<close>

theorem parse_rules_canonical:
  assumes "ok (parseHttpStatusCodeRules x)" and "ok (parseHttpStatusCodeRules y)"
    and "codes (ranges (parseHttpStatusCodeRules x)) = codes (ranges (parseHttpStatusCodeRules y))"
  shows "parseHttpStatusCodeRules x = parseHttpStatusCodeRules y"
proof -
  have "ranges (parseHttpStatusCodeRules x) = ranges (parseHttpStatusCodeRules y)"
    using assms parsed_ranges(2) canonical_unique by blast
  then show ?thesis
    using parsed_fields [OF assms(1)] parsed_fields [OF assms(2)] by simp
qed

lemma sample_rules_ranges:
  "ranges (parseHttpStatusCodeRules (Some sample_rules)) =
    [\<lparr>rng_start = 401, rng_end = 401\<rparr>, \<lparr>rng_start = 500, rng_end = 509\<rparr>]"
  by code_simp

lemma sample_rules2_ranges:
  "ok (parseHttpStatusCodeRules (Some sample_rules2))"
  "ranges (parseHttpStatusCodeRules (Some sample_rules2)) =
    [\<lparr>rng_start = 401, rng_end = 401\<rparr>, \<lparr>rng_start = 500, rng_end = 509\<rparr>]"
  by code_simp+

theorem parse_rules_canonical_witness:
  "parseHttpStatusCodeRules (Some sample_rules) =
    parseHttpStatusCodeRules (Some sample_rules2)"
  by (rule parse_rules_canonical [OF sample_rules_ok sample_rules2_ranges(1)])
    (simp add: sample_rules_ranges sample_rules2_ranges(2))

text \<open>
  Round trip: the normalized text of an accepted input parses, and parsing it gives back the
  same ranges, tokens and normalized text.
\<close>

theorem parse_rules_round_trip:
  assumes "ok (parseHttpStatusCodeRules input)"
  shows "parseHttpStatusCodeRules (Some (normalized (parseHttpStatusCodeRules input))) =
    parseHttpStatusCodeRules input"
proof -
  let ?rs = "ranges (parseHttpStatusCodeRules input)"
  have fields: "parseHttpStatusCodeRules input =
      \<lparr>ok = True, ranges = ?rs, tokens = map show_range ?rs,
       normalized = join [Lat CHR '',''] (map show_range ?rs), invalidTokens = []\<rparr>"
    by (rule parsed_fields [OF assms])
  then have "normalized (parseHttpStatusCodeRules input) = join [Lat CHR '',''] (map show_range ?rs)"
    by (metis ParsedHttpStatusCodeRules.select_convs(4))
  with fields show ?thesis
    using parse_normal [OF parsed_ranges(2,3) [OF assms]] by simp
qed

theorem parse_rules_round_trip_witness:
  "parseHttpStatusCodeRules (Some (normalized (parseHttpStatusCodeRules (Some sample_rules)))) =
    parseHttpStatusCodeRules (Some sample_rules)"
  by (rule parse_rules_round_trip [OF sample_rules_ok])

text \<open>
  Error path: the parser rejects its input exactly when some segment is no code or range; the
  segments it reports are the offending ones, in order; and a rejected input yields no range, no
  token and the trimmed text unchanged.
\<close>

theorem parse_rules_errors:
  "invalidTokens (parseHttpStatusCodeRules input) =
     filter (\<lambda>s. parseToken s = None) (segments_of (raw_of input)) \<and>
   (ok (parseHttpStatusCodeRules input) \<longleftrightarrow> invalidTokens (parseHttpStatusCodeRules input) = []) \<and>
   (ok (parseHttpStatusCodeRules input) \<or>
      ranges (parseHttpStatusCodeRules input) = [] \<and> tokens (parseHttpStatusCodeRules input) = [] \<and>
      normalized (parseHttpStatusCodeRules input) = raw_of input)"
  by (auto simp: parse_rules_eq Let_def)

text \<open>
  A token with more than one dash is accepted, and what follows the second dash is ignored,
  since only the first two pieces of the split are read.
\<close>

lemma parseToken_third_piece_ignored:
  "parseToken (wide ''200-300-400'') = Some \<lparr>rng_start = 200, rng_end = 300\<rparr>"
  by code_simp

end
