(* ===== verification/AuthStore.thy ===== *)
theory AuthStore
  imports Prelude
begin

text \<open>
  The authentication store, \<^verbatim>\<open>src/web/src/stores/auth-store.ts\<close>: its types, its state and its five
  actions, each a function from a state to the next one (the store replaces its state object).
\<close>

text \<open>The fields of a user that the session code checks, and the optional ones it only carries.\<close>

record AuthUser =
  user_id :: jsnum
  username :: string
  role :: jsnum
  user_rest :: "(string \<times> jsval) list"

record LoginSession =
  sid :: string
  current :: bool
  login_method :: string
  ip :: string
  user_agent :: string
  created_at :: jsnum
  last_active_at :: jsnum
  expires_at :: jsnum

record AuthBundle =
  access_token :: string
  token_type :: string
  access_expires_at :: jsnum
  bundle_user :: AuthUser
  bundle_session :: LoginSession

datatype AuthBootstrapState = Idle | Checking | Complete

record AuthState =
  user :: "AuthUser option"
  accessToken :: "string option"
  accessExpiresAt :: "jsnum option"
  session :: "LoginSession option"
  pending2FAFlowToken :: "string option"
  bootstrapState :: AuthBootstrapState

definition initial_auth :: AuthState where
  "initial_auth = \<lparr>user = None, accessToken = None, accessExpiresAt = None, session = None,
     pending2FAFlowToken = None, bootstrapState = Idle\<rparr>"

definition setBundle :: "AuthBundle \<Rightarrow> AuthState \<Rightarrow> AuthState" where
  "setBundle bundle a = a\<lparr>user := Some (bundle_user bundle),
     accessToken := Some (access_token bundle),
     accessExpiresAt := Some (access_expires_at bundle),
     session := Some (bundle_session bundle),
     pending2FAFlowToken := None,
     bootstrapState := Complete\<rparr>"

definition setUser :: "AuthUser option \<Rightarrow> AuthState \<Rightarrow> AuthState" where
  "setUser u a = a\<lparr>user := u\<rparr>"

definition setPending2FAFlowToken :: "string option \<Rightarrow> AuthState \<Rightarrow> AuthState" where
  "setPending2FAFlowToken tok a = a\<lparr>pending2FAFlowToken := tok\<rparr>"

definition setBootstrapState :: "AuthBootstrapState \<Rightarrow> AuthState \<Rightarrow> AuthState" where
  "setBootstrapState b a = a\<lparr>bootstrapState := b\<rparr>"

text \<open>\<^verbatim>\<open>reset\<close> takes its argument to be \<^verbatim>\<open>'complete'\<close> when it is missing.\<close>

definition reset :: "AuthBootstrapState option \<Rightarrow> AuthState \<Rightarrow> AuthState" where
  "reset b a = a\<lparr>user := None, accessToken := None, accessExpiresAt := None, session := None,
     pending2FAFlowToken := None,
     bootstrapState := (case b of None \<Rightarrow> Complete | Some s \<Rightarrow> s)\<rparr>"

lemmas auth_store_defs =
  setBundle_def setUser_def setPending2FAFlowToken_def setBootstrapState_def reset_def

text \<open>
  What the actions keep: the access token, its expiry and the session are set and cleared
  together, and a token in the store is not empty, has a positive finite expiry and belongs to a
  session with an identifier.
\<close>

definition credentials_ok :: "string \<Rightarrow> jsnum \<Rightarrow> LoginSession \<Rightarrow> bool" where
  "credentials_ok tok expiry s \<longleftrightarrow>
     tok \<noteq> [] \<and> (case expiry of Fin r \<Rightarrow> r > 0 | _ \<Rightarrow> False) \<and> sid s \<noteq> []"

definition auth_inv :: "AuthState \<Rightarrow> bool" where
  "auth_inv a \<longleftrightarrow>
     (case (accessToken a, accessExpiresAt a, session a) of
        (None, None, None) \<Rightarrow> True
      | (Some tok, Some expiry, Some s) \<Rightarrow> credentials_ok tok expiry s
      | _ \<Rightarrow> False)"

definition bundle_ok :: "AuthBundle \<Rightarrow> bool" where
  "bundle_ok b \<longleftrightarrow> credentials_ok (access_token b) (access_expires_at b) (bundle_session b)"

lemma auth_inv_initial [simp]: "auth_inv initial_auth"
  by (simp add: auth_inv_def initial_auth_def)

lemma auth_inv_setBundle [simp]: "auth_inv (setBundle b a) = bundle_ok b"
  by (simp add: auth_inv_def setBundle_def bundle_ok_def)

lemma auth_inv_reset [simp]: "auth_inv (reset b a)"
  by (simp add: auth_inv_def reset_def)

lemma auth_inv_frame [simp]:
  "auth_inv (setUser u a) = auth_inv a"
  "auth_inv (setPending2FAFlowToken t a) = auth_inv a"
  "auth_inv (setBootstrapState s a) = auth_inv a"
  by (simp_all add: auth_inv_def auth_store_defs)

end
