(* ===== verification/AuthSync.thy ===== *)
theory AuthSync
  imports Prelude
begin

text \<open>
  Cross-tab session events, \<^verbatim>\<open>src/web/src/lib/auth-session-sync.ts\<close>: what is published, and which of
  the messages on the channel are handed to the listener. The random identifiers of the tab and of
  the event and the clock are arguments. \<^verbatim>\<open>BroadcastChannel\<close> and the storage event carry a message
  to the other tabs of the origin as the same value.
\<close>

datatype SyncKind = SyncAuthenticated | SyncSignedOut

record AuthSessionSyncEvent =
  kind :: SyncKind
  ev_sid :: string
  source :: string
  nonce :: string
  timestamp :: rat

definition kind_name :: "SyncKind \<Rightarrow> string" where
  "kind_name k = (case k of SyncAuthenticated \<Rightarrow> ''authenticated'' | SyncSignedOut \<Rightarrow> ''signed_out'')"

definition kind_of :: "jsval \<Rightarrow> SyncKind option" where
  "kind_of v = (if v = JStr ''authenticated'' then Some SyncAuthenticated
     else if v = JStr ''signed_out'' then Some SyncSignedOut else None)"

definition isAuthSessionSyncEvent :: "jsval \<Rightarrow> bool" where
  "isAuthSessionSyncEvent v \<longleftrightarrow>
     truthy v \<and> is_record v \<and>
     kind_of (jprop v ''kind'') \<noteq> None \<and>
     is_string (jprop v ''sid'') \<and> the_str (jprop v ''sid'') \<noteq> [] \<and>
     is_string (jprop v ''source'') \<and> is_string (jprop v ''nonce'') \<and>
     is_number (jprop v ''timestamp'')"

text \<open>The message that \<^verbatim>\<open>publishAuthSessionEvent\<close> posts, if any.\<close>

definition publishAuthSessionEvent ::
  "string \<Rightarrow> string \<Rightarrow> rat \<Rightarrow> SyncKind \<Rightarrow> string \<Rightarrow> jsval option" where
  "publishAuthSessionEvent authSyncSource nonce' now k sid' =
     (if sid' = [] then None
      else Some (JObj [(''kind'', JStr (kind_name k)), (''sid'', JStr sid'),
        (''source'', JStr authSyncSource), (''nonce'', JStr nonce'),
        (''timestamp'', JNum (Fin now))]))"

text \<open>\<^verbatim>\<open>deliver\<close>: the event the listener receives, if any. The age test reads
  \<^verbatim>\<open>Math.abs(Date.now() - value.timestamp) < 60_000\<close>, false when the timestamp is not finite.\<close>

definition fresh_timestamp :: "rat \<Rightarrow> jsnum \<Rightarrow> bool" where
  "fresh_timestamp now ts = (case ts of Fin r \<Rightarrow> \<bar>now - r\<bar> < 60000 | _ \<Rightarrow> False)"

definition event_of :: "jsval \<Rightarrow> AuthSessionSyncEvent" where
  "event_of v = \<lparr>kind = the (kind_of (jprop v ''kind'')), ev_sid = the_str (jprop v ''sid''),
     source = the_str (jprop v ''source''), nonce = the_str (jprop v ''nonce''),
     timestamp = (case the_num (jprop v ''timestamp'') of Fin r \<Rightarrow> r | _ \<Rightarrow> 0)\<rparr>"

definition deliver :: "string \<Rightarrow> rat \<Rightarrow> jsval \<Rightarrow> AuthSessionSyncEvent option" where
  "deliver authSyncSource now v =
     (if isAuthSessionSyncEvent v \<and> the_str (jprop v ''source'') \<noteq> authSyncSource \<and>
         fresh_timestamp now (the_num (jprop v ''timestamp''))
      then Some (event_of v) else None)"

lemma kind_of_name [simp]: "kind_of (JStr (kind_name k)) = Some k"
  by (cases k) (simp_all add: kind_of_def kind_name_def)

lemma published_event_valid:
  "publishAuthSessionEvent src n t k s = Some v \<Longrightarrow> isAuthSessionSyncEvent v"
  by (auto simp: publishAuthSessionEvent_def isAuthSessionSyncEvent_def split: if_splits)

lemma deliver_published:
  "publishAuthSessionEvent src n t k s = Some v \<Longrightarrow>
     deliver own now v =
       (if src \<noteq> own \<and> \<bar>now - t\<bar> < 60000
        then Some \<lparr>kind = k, ev_sid = s, source = src, nonce = n, timestamp = t\<rparr> else None)"
  using published_event_valid [of src n t k s v]
  by (auto simp: publishAuthSessionEvent_def deliver_def event_of_def fresh_timestamp_def
      split: if_splits)

end
