(* ===== verification/AuthSession.thy ===== *)
theory AuthSession
  imports AuthStore AuthSync
begin

text \<open>
  Authentication sessions, \<^verbatim>\<open>src/web/src/lib/auth-session.ts\<close>: the guards on what the server sends,
  the operations on the store and the epoch counter, the refresh runner with its retries, the
  single refresh in flight, and the headers of a request. Code that runs while the runner awaits
  (another tab's message, a sign-in, a sign-out) is an arbitrary change of the world, one for each
  await; where a property needs it, the change is made of the steps of \<open>other_step\<close>, which include the
  unchecked sign-in of the form for the one-time password. The answer of the server is an argument, \<^verbatim>\<open>axios\<close> and \<^verbatim>\<open>navigator.locks\<close> being outside the
  sources; \<^verbatim>\<open>Date.now()\<close> is an argument in milliseconds.
\<close>

section \<open>What the server sends\<close>

definition isAuthUser :: "jsval \<Rightarrow> bool" where
  "isAuthUser v \<longleftrightarrow> is_record v \<and>
     num_is_integer (jprop v ''id'') \<and> num_gt (the_num (jprop v ''id'')) 0 \<and>
     is_string (jprop v ''username'') \<and> is_number (jprop v ''role'')"

definition isLoginSession :: "jsval \<Rightarrow> bool" where
  "isLoginSession v \<longleftrightarrow> is_record v \<and>
     is_string (jprop v ''sid'') \<and> the_str (jprop v ''sid'') \<noteq> [] \<and>
     is_boolean (jprop v ''current'') \<and> is_string (jprop v ''login_method'') \<and>
     is_string (jprop v ''ip'') \<and> is_string (jprop v ''user_agent'') \<and>
     is_number (jprop v ''created_at'') \<and> is_number (jprop v ''last_active_at'') \<and>
     is_number (jprop v ''expires_at'')"

definition hasValidTokenFields :: "jsval \<Rightarrow> bool" where
  "hasValidTokenFields v \<longleftrightarrow>
     is_string (jprop v ''access_token'') \<and> the_str (jprop v ''access_token'') \<noteq> [] \<and>
     is_string (jprop v ''token_type'') \<and> the_str (jprop v ''token_type'') \<noteq> [] \<and>
     is_number (jprop v ''access_expires_at'') \<and> num_is_finite (jprop v ''access_expires_at'') \<and>
     num_gt (the_num (jprop v ''access_expires_at'')) 0"

definition isAuthBundle :: "jsval \<Rightarrow> bool" where
  "isAuthBundle v \<longleftrightarrow> is_record v \<and> hasValidTokenFields v \<and>
     isAuthUser (jprop v ''user'') \<and> isLoginSession (jprop v ''session'')"

definition isAuthTokenRotation :: "jsval \<Rightarrow> bool" where
  "isAuthTokenRotation v \<longleftrightarrow> is_record v \<and> hasValidTokenFields v \<and>
     jprop v ''token_type'' = JStr ''Bearer'' \<and>
     isLoginSession (jprop v ''session'') \<and> the_bool (jprop (jprop v ''session'') ''current'')"

text \<open>A value that passed its guard, read as the type the guard asserts.\<close>

definition user_of :: "jsval \<Rightarrow> AuthUser" where
  "user_of v = \<lparr>user_id = the_num (jprop v ''id''), username = the_str (jprop v ''username''),
     role = the_num (jprop v ''role''),
     user_rest = (case v of JObj ps \<Rightarrow>
       filter (\<lambda>(k, _). k \<notin> {''id'', ''username'', ''role''}) ps | _ \<Rightarrow> [])\<rparr>"

definition session_of :: "jsval \<Rightarrow> LoginSession" where
  "session_of v = \<lparr>sid = the_str (jprop v ''sid''), current = the_bool (jprop v ''current''),
     login_method = the_str (jprop v ''login_method''), ip = the_str (jprop v ''ip''),
     user_agent = the_str (jprop v ''user_agent''), created_at = the_num (jprop v ''created_at''),
     last_active_at = the_num (jprop v ''last_active_at''),
     expires_at = the_num (jprop v ''expires_at'')\<rparr>"

definition bundle_of :: "jsval \<Rightarrow> AuthBundle" where
  "bundle_of v = \<lparr>access_token = the_str (jprop v ''access_token''),
     token_type = the_str (jprop v ''token_type''),
     access_expires_at = the_num (jprop v ''access_expires_at''),
     bundle_user = user_of (jprop v ''user''), bundle_session = session_of (jprop v ''session'')\<rparr>"

section \<open>The world and the operations on it\<close>

text \<open>
  The store; the module's \<^verbatim>\<open>authEpoch\<close> and \<^verbatim>\<open>refreshPromise\<close>; and what the module has done so far:
  the events it published, the refreshes it started (with the epoch each captured), the session
  identifiers its refresh requests carried, the delays it waited for and how often it emptied the
  query cache.
\<close>

record world =
  auth :: AuthState
  authEpoch :: int
  published :: "(SyncKind \<times> string) list"
  refreshPromise :: "nat option"
  started :: "int list"
  requested :: "string option list"
  waited :: "nat list"
  cacheClears :: nat

definition initial_world :: world where
  "initial_world = \<lparr>auth = initial_auth, authEpoch = 0, published = [], refreshPromise = None,
     started = [], requested = [], waited = [], cacheClears = 0\<rparr>"

definition publish :: "SyncKind \<Rightarrow> string \<Rightarrow> world \<Rightarrow> world" where
  "publish k s w = (if s = [] then w else w\<lparr>published := published w @ [(k, s)]\<rparr>)"

abbreviation session_sid :: "AuthState \<Rightarrow> string option" where
  "session_sid a \<equiv> map_option sid (session a)"

definition applyAuthBundle :: "AuthBundle \<Rightarrow> bool \<Rightarrow> world \<Rightarrow> world" where
  "applyAuthBundle bundle synchronizeTabs w =
     (let previousSID = session_sid (auth w);
          w' = w\<lparr>authEpoch := authEpoch w + 1, auth := setBundle bundle (auth w)\<rparr> in
      if synchronizeTabs \<and> previousSID \<noteq> Some (sid (bundle_session bundle))
      then publish SyncAuthenticated (sid (bundle_session bundle)) w' else w')"

datatype AuthRotationError = InvalidRotation | NoActiveSession | SessionMismatch

definition rotation_bundle :: "jsval \<Rightarrow> AuthUser \<Rightarrow> AuthBundle" where
  "rotation_bundle v u = \<lparr>access_token = the_str (jprop v ''access_token''),
     token_type = the_str (jprop v ''token_type''),
     access_expires_at = the_num (jprop v ''access_expires_at''),
     bundle_user = u, bundle_session = session_of (jprop v ''session'')\<rparr>"

definition applyAuthRotation :: "jsval \<Rightarrow> world \<Rightarrow> AuthRotationError + world" where
  "applyAuthRotation v w =
     (if \<not> isAuthTokenRotation v then Inl InvalidRotation
      else (case (user (auth w), session (auth w)) of
        (Some u, Some s) \<Rightarrow>
          (if sid (session_of (jprop v ''session'')) \<noteq> sid s then Inl SessionMismatch
           else Inr (applyAuthBundle (rotation_bundle v u) False w))
      | _ \<Rightarrow> Inl NoActiveSession))"

definition clearAuthentication :: "bool \<Rightarrow> AuthBootstrapState option \<Rightarrow> world \<Rightarrow> world" where
  "clearAuthentication synchronizeTabs bs w =
     (let previous = session_sid (auth w);
          w' = w\<lparr>authEpoch := authEpoch w + 1,
                 auth := reset (Some (case bs of None \<Rightarrow> Complete | Some b \<Rightarrow> b)) (auth w)\<rparr> in
      (case previous of
         Some s \<Rightarrow> if synchronizeTabs then publish SyncSignedOut s w' else w'
       | None \<Rightarrow> w'))"

definition clearAuthenticatedClientState :: "bool \<Rightarrow> world \<Rightarrow> world" where
  "clearAuthenticatedClientState synchronizeTabs w =
     clearAuthentication synchronizeTabs None (w\<lparr>cacheClears := cacheClears w + 1\<rparr>)"

section \<open>The refresh runner\<close>

record AuthRefreshHTTPResponse =
  status :: int
  rdata :: jsval
  rerror :: jsval

datatype refresh_error = Superseded | Cause jsval

datatype RefreshOutcome =
    Authenticated AuthBundle
  | Anonymous
  | TransientError refresh_error
  | OutOfSync "string option"

record 'w AuthRefreshRuntime =
  rt_request :: "string option \<Rightarrow> 'w \<Rightarrow> 'w"
  getExpectedSID :: "'w \<Rightarrow> string option"
  parseBundle :: "jsval \<Rightarrow> AuthBundle option"
  acceptBundle :: "AuthBundle \<Rightarrow> 'w \<Rightarrow> 'w"
  clear :: "bool \<Rightarrow> AuthBootstrapState option \<Rightarrow> 'w \<Rightarrow> 'w"
  markTransient :: "'w \<Rightarrow> 'w"
  rt_wait :: "nat \<Rightarrow> 'w \<Rightarrow> 'w"
  isCurrent :: "'w \<Rightarrow> bool"

text \<open>One round of the runner as the environment plays it: what other code does to the world while
  the request is pending, the answer, and what other code does during a wait that may follow.\<close>

record 'w turn =
  during_request :: "'w \<Rightarrow> 'w"
  response :: AuthRefreshHTTPResponse
  during_wait :: "'w \<Rightarrow> 'w"

definition refreshRaceDelays :: "nat list" where
  "refreshRaceDelays = [80, 200, 500]"

definition response_data :: "AuthRefreshHTTPResponse \<Rightarrow> jsval" where
  "response_data r = (if is_record (rdata r) then rdata r else JUndefined)"

definition response_code :: "AuthRefreshHTTPResponse \<Rightarrow> string option" where
  "response_code r = (case jprop (response_data r) ''code'' of JStr s \<Rightarrow> Some s | _ \<Rightarrow> None)"

text \<open>\<^verbatim>\<open>response.error ?? response.data\<close>.\<close>

definition response_cause :: "AuthRefreshHTTPResponse \<Rightarrow> jsval" where
  "response_cause r = (if rerror r = JUndefined \<or> rerror r = JNull then rdata r else rerror r)"

text \<open>The runner of \<^verbatim>\<open>createRefreshRunner\<close>. \<open>None\<close>: still awaiting when the turns are used up.\<close>

fun run :: "'w AuthRefreshRuntime \<Rightarrow> nat \<Rightarrow> bool \<Rightarrow> 'w turn list \<Rightarrow> 'w \<Rightarrow>
    (RefreshOutcome \<times> 'w) option" where
  "run rt raceAttempt allowMismatchRetry turns w =
     (if \<not> isCurrent rt w then Some (TransientError Superseded, w)
      else (case turns of
        [] \<Rightarrow> None
      | turn # rest \<Rightarrow>
          (let w = during_request turn (rt_request rt (getExpectedSID rt w) w);
               resp = response turn;
               code = response_code resp;
               bundle = parseBundle rt (jprop (response_data resp) ''data'') in
           if \<not> isCurrent rt w then Some (TransientError Superseded, w)
           else if jprop (response_data resp) ''success'' = JBool True \<and> bundle \<noteq> None then
             Some (Authenticated (the bundle), acceptBundle rt (the bundle) w)
           else if status resp = 409 \<and> code = Some ''AUTH_REFRESH_RACE'' then
             (if raceAttempt < length refreshRaceDelays then
                run rt (raceAttempt + 1) allowMismatchRetry rest
                  (during_wait turn (rt_wait rt (refreshRaceDelays ! raceAttempt) w))
              else Some (OutOfSync code, clear rt False None w))
           else if status resp = 409 \<and> code = Some ''AUTH_SESSION_MISMATCH'' then
             (if allowMismatchRetry then run rt 0 False rest (clear rt False (Some Idle) w)
              else Some (OutOfSync code, clear rt False None w))
           else if status resp = 401 then Some (Anonymous, clear rt True None w)
           else if status resp = 0 \<or> status resp \<ge> 500 \<or> status resp = 429 then
             Some (TransientError (Cause (response_cause resp)), markTransient rt w)
           else Some (OutOfSync (Some (case code of
                 None \<Rightarrow> ''AUTH_INVALID_REFRESH_RESPONSE'' | Some c \<Rightarrow> c)),
               clear rt False None w))))"

declare run.simps [simp del]

definition createRefreshRunner :: "'w AuthRefreshRuntime \<Rightarrow> 'w turn list \<Rightarrow> 'w \<Rightarrow>
    (RefreshOutcome \<times> 'w) option" where
  "createRefreshRunner rt = run rt 0 True"

text \<open>What \<^verbatim>\<open>axios\<close> made of the request, and the response the runner sees.\<close>

datatype axios_result =
    AxiosResponse int jsval
  | AxiosError "(int \<times> jsval) option" jsval
  | OtherError jsval

fun requestRefresh :: "axios_result \<Rightarrow> AuthRefreshHTTPResponse" where
  "requestRefresh (AxiosResponse st d) = \<lparr>status = st, rdata = d, rerror = JUndefined\<rparr>"
| "requestRefresh (AxiosError None e) = \<lparr>status = 0, rdata = JUndefined, rerror = e\<rparr>"
| "requestRefresh (AxiosError (Some (st, d)) e) = \<lparr>status = st, rdata = d, rerror = e\<rparr>"
| "requestRefresh (OtherError e) = \<lparr>status = 0, rdata = JUndefined, rerror = e\<rparr>"

text \<open>The runtime of \<^verbatim>\<open>runRefresh\<close>. The request carries the session identifier in a header when
  there is one that is not empty.\<close>

definition refresh_clear :: "bool \<Rightarrow> AuthBootstrapState option \<Rightarrow> world \<Rightarrow> world" where
  "refresh_clear synchronizeTabs bs w =
     (if \<not> synchronizeTabs \<and> bs = Some Idle then w\<lparr>auth := reset (Some Idle) (auth w)\<rparr>
      else clearAuthentication synchronizeTabs bs w)"

definition refresh_runtime :: "int \<Rightarrow> world AuthRefreshRuntime" where
  "refresh_runtime refreshEpoch = \<lparr>
     rt_request = (\<lambda>expected w. w\<lparr>requested := requested w @
       [case expected of Some [] \<Rightarrow> None | _ \<Rightarrow> expected]\<rparr>),
     getExpectedSID = (\<lambda>w. session_sid (auth w)),
     parseBundle = (\<lambda>v. if isAuthBundle v then Some (bundle_of v) else None),
     acceptBundle = (\<lambda>b. applyAuthBundle b False),
     clear = refresh_clear,
     markTransient = (\<lambda>w. w\<lparr>auth := setBootstrapState Idle (auth w)\<rparr>),
     rt_wait = (\<lambda>d w. w\<lparr>waited := waited w @ [d]\<rparr>),
     isCurrent = (\<lambda>w. authEpoch w = refreshEpoch)\<rparr>"

definition runRefresh :: "int \<Rightarrow> world turn list \<Rightarrow> world \<Rightarrow> (RefreshOutcome \<times> world) option" where
  "runRefresh refreshEpoch = createRefreshRunner (refresh_runtime refreshEpoch)"

text \<open>\<^verbatim>\<open>navigator.locks\<close>: missing, granting the exclusive lock, or throwing.\<close>

datatype browser_locks = NoLocks | ExclusiveLock | LocksThrow jsval

definition performRefreshWithBrowserLock ::
  "browser_locks \<Rightarrow> int \<Rightarrow> world turn list \<Rightarrow> world \<Rightarrow> (RefreshOutcome \<times> world) option" where
  "performRefreshWithBrowserLock locks refreshEpoch turns w =
     (case locks of
        LocksThrow e \<Rightarrow> Some (TransientError (Cause e), w\<lparr>auth := setBootstrapState Idle (auth w)\<rparr>)
      | _ \<Rightarrow> runRefresh refreshEpoch turns w)"

section \<open>One refresh in flight\<close>

text \<open>\<^verbatim>\<open>refreshAuthentication\<close> up to its first await: it returns the promise in flight, by its
  number, or starts a refresh that captures the epoch; \<open>settle_refresh\<close> is the \<^verbatim>\<open>finally\<close> handler.\<close>

definition refreshAuthentication :: "world \<Rightarrow> nat \<times> world" where
  "refreshAuthentication w =
     (case refreshPromise w of
        Some p \<Rightarrow> (p, w)
      | None \<Rightarrow> (length (started w),
          w\<lparr>refreshPromise := Some (length (started w)), started := started w @ [authEpoch w]\<rparr>))"

definition settle_refresh :: "world \<Rightarrow> world" where
  "settle_refresh w = w\<lparr>refreshPromise := None\<rparr>"

section \<open>Bootstrap and headers\<close>

definition now_seconds :: "int \<Rightarrow> int" where
  "now_seconds now = now div 1000"

text \<open>\<^verbatim>\<open>!auth.accessToken\<close> and \<^verbatim>\<open>!auth.accessExpiresAt\<close>: missing, empty, zero or not a number.\<close>

definition present_token :: "AuthState \<Rightarrow> bool" where
  "present_token a = (case accessToken a of None \<Rightarrow> False | Some tok \<Rightarrow> tok \<noteq> [])"

definition expires_after :: "AuthState \<Rightarrow> int \<Rightarrow> bool" where
  "expires_after a bound = (case accessExpiresAt a of
      None \<Rightarrow> False | Some n \<Rightarrow> truthy (JNum n) \<and> num_gt n (of_int bound))"

definition currentValidAuthBundle :: "int \<Rightarrow> world \<Rightarrow> AuthBundle option" where
  "currentValidAuthBundle now w =
     (let a = auth w in
      (case (user a, accessToken a, accessExpiresAt a, session a) of
         (Some u, Some tok, Some expiry, Some s) \<Rightarrow>
           (if \<not> present_token a \<or> \<not> expires_after a (now_seconds now) then None
            else Some \<lparr>access_token = tok, token_type = ''Bearer'', access_expires_at = expiry,
                       bundle_user = u, bundle_session = s\<rparr>)
       | _ \<Rightarrow> None))"

text \<open>\<^verbatim>\<open>bootstrapAuthentication\<close> up to its first await: an outcome, or the promise it awaits.\<close>

definition bootstrapAuthentication :: "int \<Rightarrow> world \<Rightarrow> (RefreshOutcome + nat) \<times> world" where
  "bootstrapAuthentication now w =
     (case currentValidAuthBundle now w of
        Some bundle \<Rightarrow> (Inl (Authenticated bundle), w\<lparr>auth := setBootstrapState Complete (auth w)\<rparr>)
      | None \<Rightarrow>
          (let hasStaleSession = (user (auth w) \<noteq> None \<and> session (auth w) \<noteq> None) in
           if bootstrapState (auth w) = Complete \<and> \<not> hasStaleSession then (Inl Anonymous, w)
           else (let (p, w') = refreshAuthentication (w\<lparr>auth := setBootstrapState Checking (auth w)\<rparr>)
                 in (Inr p, w'))))"

definition getCommonHeaders :: "world \<Rightarrow> (string \<times> string) list" where
  "getCommonHeaders w =
     (''Content-Type'', ''application/json'') #
     (case accessToken (auth w) of
        Some tok \<Rightarrow> if tok = [] then [] else [(''Authorization'', ''Bearer '' @ tok)]
      | None \<Rightarrow> [])"

text \<open>\<^verbatim>\<open>getFreshAuthHeaders\<close> before its await (the headers, or the promise it awaits) and after it
  (an error of the message key it translates, or the headers).\<close>

definition getFreshAuthHeaders :: "int \<Rightarrow> world \<Rightarrow> ((string \<times> string) list + nat) \<times> world" where
  "getFreshAuthHeaders now w =
     (if present_token (auth w) \<and> expires_after (auth w) (now_seconds now + 60)
      then (Inl (getCommonHeaders w), w)
      else (let (p, w') = refreshAuthentication w in (Inr p, w')))"

definition getFreshAuthHeaders_resume ::
  "int \<Rightarrow> RefreshOutcome \<Rightarrow> world \<Rightarrow> string + (string \<times> string) list" where
  "getFreshAuthHeaders_resume now outcome w =
     (case outcome of
        Authenticated _ \<Rightarrow> Inr (getCommonHeaders w)
      | _ \<Rightarrow>
          (if present_token (auth w) \<and> expires_after (auth w) (now_seconds now)
           then Inr (getCommonHeaders w)
           else (case outcome of
             TransientError _ \<Rightarrow> Inl ''Request failed''
           | _ \<Rightarrow> Inl ''Session expired!'')))"

section \<open>Signing in with a second factor\<close>

text \<open>
  The form for the one-time password, \<^verbatim>\<open>features/auth/otp/components/otp-form.tsx\<close>, hands on what the server
  sent after testing only that it is there, while every other way to sign in asks \<^verbatim>\<open>isAuthBundle\<close> first. Its answer
  is taken as the interface declares it, each field of its type or missing: \<open>declared_login\<close>. A missing field
  is \<open>None\<close> in the store. Without a session, reading its \<^verbatim>\<open>sid\<close> throws after the store has been set, and the form
  catches the error.
\<close>

definition missing :: "jsval \<Rightarrow> bool" where
  "missing v \<longleftrightarrow> v = JUndefined \<or> v = JNull"

definition given :: "(jsval \<Rightarrow> 'a) \<Rightarrow> jsval \<Rightarrow> 'a option" where
  "given f v = (if missing v then None else Some (f v))"

definition declared_session :: "jsval \<Rightarrow> bool" where
  "declared_session v \<longleftrightarrow> is_record v \<and>
     is_string (jprop v ''sid'') \<and> is_boolean (jprop v ''current'') \<and> is_string (jprop v ''login_method'') \<and>
     is_string (jprop v ''ip'') \<and> is_string (jprop v ''user_agent'') \<and> is_number (jprop v ''created_at'') \<and>
     is_number (jprop v ''last_active_at'') \<and> is_number (jprop v ''expires_at'')"

definition declared_login :: "jsval \<Rightarrow> bool" where
  "declared_login v \<longleftrightarrow> is_record v \<and>
     (missing (jprop v ''access_token'') \<or> is_string (jprop v ''access_token'')) \<and>
     (missing (jprop v ''access_expires_at'') \<or> is_number (jprop v ''access_expires_at'')) \<and>
     (missing (jprop v ''user'') \<or> is_record (jprop v ''user'') \<and> is_number (jprop (jprop v ''user'') ''id'') \<and>
        is_string (jprop (jprop v ''user'') ''username'') \<and> is_number (jprop (jprop v ''user'') ''role'')) \<and>
     (missing (jprop v ''session'') \<or> declared_session (jprop v ''session''))"

definition otp_sign_in :: "jsval \<Rightarrow> world \<Rightarrow> world" where
  "otp_sign_in v w =
     (if \<not> truthy v then w
      else (let previousSID = session_sid (auth w);
                w' = w\<lparr>authEpoch := authEpoch w + 1,
                  auth := (auth w)\<lparr>user := given user_of (jprop v ''user''),
                    accessToken := given the_str (jprop v ''access_token''),
                    accessExpiresAt := given the_num (jprop v ''access_expires_at''),
                    session := given session_of (jprop v ''session''),
                    pending2FAFlowToken := None, bootstrapState := Complete\<rparr>\<rparr> in
            case session_sid (auth w') of
              None \<Rightarrow> w'
            | Some s \<Rightarrow> if previousSID \<noteq> Some s then publish SyncAuthenticated s w' else w'))"

section \<open>Messages from other tabs\<close>

datatype page_effect = Reload | GoToSignIn

text \<open>The listener of the root route, \<^verbatim>\<open>src/web/src/routes/__root.tsx\<close>.\<close>

definition onAuthSessionEvent :: "AuthSessionSyncEvent \<Rightarrow> world \<Rightarrow> page_effect option \<times> world" where
  "onAuthSessionEvent event w =
     (let currentSID = session_sid (auth w) in
      case kind event of
        SyncAuthenticated \<Rightarrow>
          (if Some (ev_sid event) = currentSID then (None, w)
           else (Some Reload,
             (case currentSID of None \<Rightarrow> w | Some s \<Rightarrow>
                if s = [] then w else clearAuthentication False None w)))
      | SyncSignedOut \<Rightarrow>
          (case currentSID of
             Some s \<Rightarrow> (if s \<noteq> [] \<and> ev_sid event = s
               then (Some GoToSignIn, clearAuthenticatedClientState False w) else (None, w))
           | None \<Rightarrow> (None, w)))"

section \<open>Lemmas on the operations\<close>

lemmas auth_session_defs =
  applyAuthBundle_def clearAuthentication_def refresh_clear_def publish_def

lemma bundle_of_ok: "isAuthBundle v \<Longrightarrow> bundle_ok (bundle_of v)"
  by (auto simp: isAuthBundle_def hasValidTokenFields_def isLoginSession_def bundle_ok_def
      credentials_ok_def bundle_of_def session_of_def num_is_finite_conv)

lemma publish_simps [simp]:
  "auth (publish k s w) = auth w" "authEpoch (publish k s w) = authEpoch w"
  "refreshPromise (publish k s w) = refreshPromise w" "started (publish k s w) = started w"
  by (simp_all add: publish_def)

lemma applyAuthBundle_simps [simp]:
  "auth (applyAuthBundle b sync w) = setBundle b (auth w)"
  "authEpoch (applyAuthBundle b sync w) = authEpoch w + 1"
  "refreshPromise (applyAuthBundle b sync w) = refreshPromise w"
  "started (applyAuthBundle b sync w) = started w"
  by (simp_all add: applyAuthBundle_def Let_def)

lemma applyAuthBundle_quiet [simp]: "published (applyAuthBundle b False w) = published w"
  by (simp add: applyAuthBundle_def Let_def)

lemma clearAuthentication_simps [simp]:
  "auth (clearAuthentication sync bs w) = reset (Some (case bs of None \<Rightarrow> Complete | Some b \<Rightarrow> b)) (auth w)"
  "authEpoch (clearAuthentication sync bs w) = authEpoch w + 1"
  "refreshPromise (clearAuthentication sync bs w) = refreshPromise w"
  "started (clearAuthentication sync bs w) = started w"
  by (simp_all add: clearAuthentication_def Let_def split: option.splits)

lemma clearAuthentication_quiet [simp]: "published (clearAuthentication False bs w) = published w"
  by (simp add: clearAuthentication_def Let_def split: option.splits)

lemma clearAuthentication_published:
  "published (clearAuthentication True bs w) =
     published w @ (case session_sid (auth w) of
       Some s \<Rightarrow> if s = [] then [] else [(SyncSignedOut, s)] | None \<Rightarrow> [])"
  by (simp add: clearAuthentication_def Let_def publish_def split: option.splits)

lemma clearAuthenticatedClientState_simps [simp]:
  "auth (clearAuthenticatedClientState sync w) = reset (Some Complete) (auth w)"
  "authEpoch (clearAuthenticatedClientState sync w) = authEpoch w + 1"
  "refreshPromise (clearAuthenticatedClientState sync w) = refreshPromise w"
  "started (clearAuthenticatedClientState sync w) = started w"
  "published (clearAuthenticatedClientState False w) = published w"
  by (simp_all add: clearAuthenticatedClientState_def)

lemma refresh_clear_simps [simp]:
  "auth (refresh_clear sync bs w) = reset (Some (case bs of None \<Rightarrow> Complete | Some b \<Rightarrow> b)) (auth w)"
  "refreshPromise (refresh_clear sync bs w) = refreshPromise w"
  "started (refresh_clear sync bs w) = started w"
  by (simp_all add: refresh_clear_def)

lemma refresh_runtime_simps [simp]:
  "rt_request (refresh_runtime e) x w =
     w\<lparr>requested := requested w @ [case x of Some [] \<Rightarrow> None | _ \<Rightarrow> x]\<rparr>"
  "getExpectedSID (refresh_runtime e) w = session_sid (auth w)"
  "parseBundle (refresh_runtime e) v = (if isAuthBundle v then Some (bundle_of v) else None)"
  "acceptBundle (refresh_runtime e) b w = applyAuthBundle b False w"
  "clear (refresh_runtime e) = refresh_clear"
  "markTransient (refresh_runtime e) w = w\<lparr>auth := setBootstrapState Idle (auth w)\<rparr>"
  "rt_wait (refresh_runtime e) d w = w\<lparr>waited := waited w @ [d]\<rparr>"
  "isCurrent (refresh_runtime e) w = (authEpoch w = e)"
  by (simp_all add: refresh_runtime_def)

section \<open>The runner returns\<close>

text \<open>The answers a run may still consume: the race attempts left, and four more when a session
  mismatch may still restart it.\<close>

definition answers_needed :: "nat \<Rightarrow> bool \<Rightarrow> nat" where
  "answers_needed raceAttempt allowMismatchRetry =
     (4 - raceAttempt) + (if allowMismatchRetry then 4 else 0)"

lemma run_take:
  "raceAttempt \<le> 3 \<Longrightarrow> answers_needed raceAttempt allow \<le> n \<Longrightarrow>
     run rt raceAttempt allow turns w = run rt raceAttempt allow (take n turns) w"
proof (induction turns arbitrary: raceAttempt allow w n)
  case Nil
  then show ?case by simp
next
  case (Cons t ts)
  obtain m where n: "n = Suc m" using Cons.prems by (cases n) (auto simp: answers_needed_def)
  have race: "run rt (raceAttempt + 1) allow ts v = run rt (raceAttempt + 1) allow (take m ts) v"
    if "raceAttempt < length refreshRaceDelays" for v
    using Cons.prems n that by (intro Cons.IH) (auto simp: answers_needed_def refreshRaceDelays_def)
  have mismatch: "run rt 0 False ts v = run rt 0 False (take m ts) v" if allow for v
    using Cons.prems n that by (intro Cons.IH) (auto simp: answers_needed_def)
  show ?case
    unfolding n take_Suc_Cons run.simps [of rt raceAttempt allow "t # ts" w]
      run.simps [of rt raceAttempt allow "t # take m ts" w]
    by (simp only: Let_def list.case race mismatch cong: if_cong)
qed

lemma run_returns:
  "raceAttempt \<le> 3 \<Longrightarrow> answers_needed raceAttempt allow \<le> length turns \<Longrightarrow>
     run rt raceAttempt allow turns w \<noteq> None"
proof (induction turns arbitrary: raceAttempt allow w)
  case Nil
  then show ?case by (auto simp: answers_needed_def)
next
  case (Cons t ts)
  have race: "run rt (Suc raceAttempt) allow ts v \<noteq> None"
    if "raceAttempt < length refreshRaceDelays" for v
    using Cons.prems that by (intro Cons.IH) (auto simp: answers_needed_def refreshRaceDelays_def)
  have mismatch: "run rt 0 False ts v \<noteq> None" if allow for v
    using Cons.prems that by (intro Cons.IH) (auto simp: answers_needed_def)
  show ?case
    using race mismatch by (simp add: run.simps [of rt raceAttempt allow "t # ts" w] Let_def)
qed

section \<open>The contract of the runtime\<close>

text \<open>
  What the runner relies on: each operation of the runtime keeps the invariant of the world. Then
  a run keeps it, whatever the server answers, as long as the code that runs meanwhile does.
\<close>

locale refresh_contract =
  fixes rt :: "'w AuthRefreshRuntime" and inv :: "'w \<Rightarrow> bool"
  assumes request_inv: "inv w \<Longrightarrow> inv (rt_request rt x w)"
    and accept_inv: "parseBundle rt v = Some b \<Longrightarrow> inv w \<Longrightarrow> inv (acceptBundle rt b w)"
    and clear_inv: "inv w \<Longrightarrow> inv (clear rt sync bs w)"
    and transient_inv: "inv w \<Longrightarrow> inv (markTransient rt w)"
    and wait_inv: "inv w \<Longrightarrow> inv (rt_wait rt d w)"
begin

definition polite :: "'w turn \<Rightarrow> bool" where
  "polite t \<longleftrightarrow> (\<forall>w. inv w \<longrightarrow> inv (during_request t w) \<and> inv (during_wait t w))"

lemma run_inv:
  "(\<And>t. t \<in> set turns \<Longrightarrow> polite t) \<Longrightarrow> inv w \<Longrightarrow>
     run rt raceAttempt allow turns w = Some (out, w') \<Longrightarrow> inv w'"
proof (induction turns arbitrary: raceAttempt allow w)
  case Nil
  then show ?case by (auto simp: run.simps split: if_splits)
next
  case (Cons t ts)
  define v where "v = during_request t (rt_request rt (getExpectedSID rt w) w)"
  have v: "inv v"
    using Cons.prems by (simp add: v_def polite_def request_inv)
  have waited: "inv (during_wait t (rt_wait rt d v))" for d
    using Cons.prems v by (simp add: polite_def wait_inv)
  note step = Cons.IH [OF _ waited] Cons.IH [OF _ clear_inv [OF v]]
  show ?case
    using Cons.prems v step
    by (auto simp: run.simps [of rt raceAttempt allow "t # ts" w] Let_def v_def [symmetric]
        split: if_splits intro: clear_inv transient_inv accept_inv)
qed

end

interpretation session_refresh: refresh_contract "refresh_runtime e" "\<lambda>w. auth_inv (auth w)" for e
  by unfold_locales (auto split: if_splits dest: bundle_of_ok)

section \<open>Reachable worlds\<close>

text \<open>
  Every operation as one step, in any order and with any arguments the callers can give: \<open>other_step\<close> is what
  code outside a refresh does, \<open>op_step\<close> has the actions of a runner between two awaits as well and leaves out
  the settling of the refresh in flight. The argument \<open>otp\<close> is the set of answers the form for the one-time
  password is given.
\<close>

inductive other_step :: "(jsval \<Rightarrow> bool) \<Rightarrow> world \<Rightarrow> world \<Rightarrow> bool" for otp where
  sign_in: "isAuthBundle v \<Longrightarrow> other_step otp w (applyAuthBundle (bundle_of v) sync w)"
| sign_in_otp: "otp v \<Longrightarrow> declared_login v \<Longrightarrow> other_step otp w (otp_sign_in v w)"
| rotate: "applyAuthRotation v w = Inr w' \<Longrightarrow> other_step otp w w'"
| sign_out: "other_step otp w (clearAuthentication sync bs w)"
| sign_out_page: "other_step otp w (clearAuthenticatedClientState sync w)"
| set_user: "other_step otp w (w\<lparr>auth := setUser u (auth w)\<rparr>)"
| set_pending: "other_step otp w (w\<lparr>auth := setPending2FAFlowToken tok (auth w)\<rparr>)"
| refresh: "refreshAuthentication w = (p, w') \<Longrightarrow> other_step otp w w'"
| bootstrap: "bootstrapAuthentication now w = (r, w') \<Longrightarrow> other_step otp w w'"
| headers: "getFreshAuthHeaders now w = (r, w') \<Longrightarrow> other_step otp w w'"
| other_tab: "onAuthSessionEvent ev w = (eff, w') \<Longrightarrow> other_step otp w w'"

inductive op_step :: "(jsval \<Rightarrow> bool) \<Rightarrow> world \<Rightarrow> world \<Rightarrow> bool" for otp where
  other: "other_step otp w w' \<Longrightarrow> op_step otp w w'"
| send: "op_step otp w (rt_request (refresh_runtime e) x w)"
| accept: "parseBundle (refresh_runtime e) v = Some b \<Longrightarrow>
    op_step otp w (acceptBundle (refresh_runtime e) b w)"
| give_up: "op_step otp w (clear (refresh_runtime e) sync bs w)"
| transient: "op_step otp w (markTransient (refresh_runtime e) w)"
| wait: "op_step otp w (rt_wait (refresh_runtime e) d w)"

inductive reachable :: "(jsval \<Rightarrow> bool) \<Rightarrow> world \<Rightarrow> bool" for otp where
  init: "reachable otp initial_world"
| op: "reachable otp w \<Longrightarrow> op_step otp w w' \<Longrightarrow> reachable otp w'"
| settle: "reachable otp w \<Longrightarrow> reachable otp (settle_refresh w)"

text \<open>The fields that a sign-in sets and a sign-out clears together.\<close>

abbreviation credentials :: "AuthState \<Rightarrow> string option \<times> jsnum option \<times> LoginSession option" where
  "credentials a \<equiv> (accessToken a, accessExpiresAt a, session a)"

abbreviation otp_credentials :: "jsval \<Rightarrow> string option \<times> jsnum option \<times> LoginSession option" where
  "otp_credentials v \<equiv> (given the_str (jprop v ''access_token''), given the_num (jprop v ''access_expires_at''),
     given session_of (jprop v ''session''))"

definition promise_inv :: "world \<Rightarrow> bool" where
  "promise_inv w \<longleftrightarrow> (case refreshPromise w of None \<Rightarrow> True | Some p \<Rightarrow> Suc p = length (started w))"

lemma refreshAuthentication_simps:
  assumes "refreshAuthentication w = (p, w')"
  shows "auth w' = auth w" "refreshPromise w' = Some p"
    "promise_inv w \<Longrightarrow> promise_inv w'"
    "refreshPromise w = Some q \<Longrightarrow> w' = w \<and> p = q"
  using assms by (auto simp: refreshAuthentication_def promise_inv_def split: option.splits)

lemma rotation_bundle_ok: "isAuthTokenRotation v \<Longrightarrow> bundle_ok (rotation_bundle v u)"
  by (auto simp: isAuthTokenRotation_def hasValidTokenFields_def isLoginSession_def bundle_ok_def
      credentials_ok_def rotation_bundle_def session_of_def num_is_finite_conv)

lemma applyAuthRotation_Inr:
  "applyAuthRotation v w = Inr w' \<longleftrightarrow>
     isAuthTokenRotation v \<and>
     (\<exists>u s. user (auth w) = Some u \<and> session (auth w) = Some s \<and>
        sid (session_of (jprop v ''session'')) = sid s \<and>
        w' = applyAuthBundle (rotation_bundle v u) False w)"
  by (auto simp: applyAuthRotation_def split: option.splits)

lemma onAuthSessionEvent_cases:
  "onAuthSessionEvent ev w = (eff, w') \<Longrightarrow>
     w' = w \<or> w' = clearAuthentication False None w \<or> w' = clearAuthenticatedClientState False w"
  by (auto simp: onAuthSessionEvent_def Let_def split: SyncKind.splits option.splits if_splits)

lemma bootstrapAuthentication_cases:
  "bootstrapAuthentication now w = (r, w') \<Longrightarrow>
     (\<exists>b. w' = w\<lparr>auth := setBootstrapState b (auth w)\<rparr>) \<or> w' = w \<or>
     (\<exists>b p. refreshAuthentication (w\<lparr>auth := setBootstrapState b (auth w)\<rparr>) = (p, w'))"
  by (auto simp: bootstrapAuthentication_def Let_def split: option.splits if_splits prod.splits)

lemma getFreshAuthHeaders_cases:
  "getFreshAuthHeaders now w = (r, w') \<Longrightarrow> w' = w \<or> (\<exists>p. refreshAuthentication w = (p, w'))"
  by (auto simp: getFreshAuthHeaders_def Let_def split: if_splits prod.splits)

lemma otp_sign_in_simps [simp]:
  "promise_inv (otp_sign_in v w) = promise_inv w" "refreshPromise (otp_sign_in v w) = refreshPromise w"
  "started (otp_sign_in v w) = started w"
  by (simp_all add: otp_sign_in_def Let_def promise_inv_def split: option.split)

lemma otp_sign_in_record:
  assumes "declared_login v"
  shows "credentials (auth (otp_sign_in v w)) = otp_credentials v" "authEpoch (otp_sign_in v w) = authEpoch w + 1"
  using assms by (cases v; simp add: otp_sign_in_def declared_login_def Let_def split: option.split)+

lemma otp_bundle:
  assumes "isAuthBundle v"
  shows "otp_credentials v = credentials (setBundle (bundle_of v) a)"
  using assms by (auto simp: isAuthBundle_def hasValidTokenFields_def isLoginSession_def given_def missing_def
      setBundle_def bundle_of_def)

text \<open>A store is consistent, or holds exactly what an answer that is no bundle put there.\<close>

definition auth_or_otp :: "(jsval \<Rightarrow> bool) \<Rightarrow> AuthState \<Rightarrow> bool" where
  "auth_or_otp otp a \<longleftrightarrow> auth_inv a \<or>
     (\<exists>v. otp v \<and> \<not> isAuthBundle v \<and> credentials a = otp_credentials v)"

lemma auth_or_otp_frame: "credentials a = credentials b \<Longrightarrow> auth_or_otp otp a \<Longrightarrow> auth_or_otp otp b"
  by (auto simp: auth_or_otp_def auth_inv_def)

lemma auth_or_otpI: "auth_inv a \<Longrightarrow> auth_or_otp otp a"
  by (simp add: auth_or_otp_def)

text \<open>A step outside a refresh keeps the credentials, clears them, or sets them from an answer; and it moves
  the epoch when it does not keep them.\<close>

lemma other_step_credentials:
  "other_step otp w w' \<Longrightarrow> authEpoch w' = authEpoch w \<and> credentials (auth w') = credentials (auth w) \<or>
     authEpoch w < authEpoch w' \<and> auth_or_otp otp (auth w')"
proof (induction rule: other_step.induct)
  case (sign_in_otp v w)
  note stored = otp_sign_in_record(1) [OF sign_in_otp(2), of w]
  have "auth_or_otp otp (auth (otp_sign_in v w))"
  proof (cases "isAuthBundle v")
    case True
    then have "auth_or_otp otp (setBundle (bundle_of v) (auth w))" by (simp add: auth_or_otpI bundle_of_ok)
    moreover have "credentials (setBundle (bundle_of v) (auth w)) = credentials (auth (otp_sign_in v w))"
      using stored otp_bundle [OF True, of "auth w"] by simp
    ultimately show ?thesis by (blast intro: auth_or_otp_frame)
  next
    case False
    then show ?thesis using sign_in_otp(1) stored by (auto simp: auth_or_otp_def)
  qed
  then show ?case using sign_in_otp otp_sign_in_record(2) by simp
next
  case (rotate v w w')
  then show ?case by (auto simp: applyAuthRotation_Inr rotation_bundle_ok auth_or_otpI)
next
  case (bootstrap now w r w')
  then show ?case
    by (auto simp: setBootstrapState_def refreshAuthentication_def split: option.splits
        dest!: bootstrapAuthentication_cases)
next
  case (headers now w r w')
  then show ?case
    by (auto simp: refreshAuthentication_def split: option.splits dest!: getFreshAuthHeaders_cases)
next
  case (other_tab ev w eff w')
  then show ?case by (auto simp: auth_or_otpI dest: onAuthSessionEvent_cases)
qed (auto simp: setUser_def setPending2FAFlowToken_def refreshAuthentication_def auth_or_otpI dest: bundle_of_ok
    split: option.splits)

lemma other_steps_credentials:
  assumes "(other_step otp)\<^sup>*\<^sup>* w w'"
  shows "authEpoch w \<le> authEpoch w'" "authEpoch w' = authEpoch w \<Longrightarrow> credentials (auth w') = credentials (auth w)"
proof -
  from assms have "authEpoch w \<le> authEpoch w' \<and>
      (authEpoch w' = authEpoch w \<longrightarrow> credentials (auth w') = credentials (auth w))"
  proof (induction rule: rtranclp_induct)
    case (step u v)
    from other_step_credentials [OF step.hyps(2)] step.IH show ?case by fastforce
  qed simp
  then show "authEpoch w \<le> authEpoch w'"
    "authEpoch w' = authEpoch w \<Longrightarrow> credentials (auth w') = credentials (auth w)" by simp_all
qed

lemma op_step_auth: "op_step otp w w' \<Longrightarrow> auth_or_otp otp (auth w) \<Longrightarrow> auth_or_otp otp (auth w')"
proof (induction rule: op_step.induct)
  case (other w w')
  then show ?case using other_step_credentials auth_or_otp_frame by metis
next
  case (transient w e)
  then show ?case by (auto intro: auth_or_otp_frame [of "auth w"] simp: setBootstrapState_def)
qed (auto simp: auth_or_otpI dest: bundle_of_ok split: if_splits)

lemma other_step_promise:
  "other_step otp w w' \<Longrightarrow> promise_inv w \<Longrightarrow>
     promise_inv w' \<and> (\<forall>p. refreshPromise w = Some p \<longrightarrow>
       refreshPromise w' = Some p \<and> started w' = started w)"
proof (induction rule: other_step.induct)
  case (rotate v w w')
  then show ?case by (auto simp: applyAuthRotation_Inr promise_inv_def split: option.splits)
next
  case (refresh w p w')
  then show ?case
    using refreshAuthentication_simps(3,4) [OF refresh.hyps] by auto
next
  case (bootstrap now w r w')
  from bootstrapAuthentication_cases [OF bootstrap.hyps] show ?case
    using bootstrap.prems
    by (auto simp: promise_inv_def refreshAuthentication_def split: option.splits)
next
  case (headers now w r w')
  from getFreshAuthHeaders_cases [OF headers.hyps] show ?case
    using headers.prems by (auto simp: promise_inv_def refreshAuthentication_def split: option.splits)
next
  case (other_tab ev w eff w')
  then show ?case by (auto simp: promise_inv_def split: option.splits dest: onAuthSessionEvent_cases)
next
  case (sign_in_otp v w)
  then show ?case by simp
qed (auto simp: promise_inv_def split: option.splits)

lemma op_step_promise:
  "op_step otp w w' \<Longrightarrow> promise_inv w \<Longrightarrow>
     promise_inv w' \<and> (\<forall>p. refreshPromise w = Some p \<longrightarrow>
       refreshPromise w' = Some p \<and> started w' = started w)"
proof (induction rule: op_step.induct)
  case (other w w')
  then show ?case by (rule other_step_promise)
qed (auto simp: promise_inv_def split: option.splits)

lemma reachable_inv: "reachable otp w \<Longrightarrow> auth_or_otp otp (auth w) \<and> promise_inv w"
proof (induction rule: reachable.induct)
  case init
  show ?case by (simp add: initial_world_def promise_inv_def auth_or_otpI)
next
  case (op w w')
  then show ?case using op_step_auth op_step_promise by blast
next
  case (settle w)
  then show ?case by (simp add: settle_refresh_def promise_inv_def)
qed

section \<open>A refresh among other code\<close>

text \<open>
  The turns of a refresh as the rest of the program plays them: while the refresh awaits, other code takes steps
  of its own. What the runner writes last, by its outcome.
\<close>

definition played :: "(jsval \<Rightarrow> bool) \<Rightarrow> world turn \<Rightarrow> bool" where
  "played otp turn \<longleftrightarrow>
     (\<forall>v. (other_step otp)\<^sup>*\<^sup>* v (during_request turn v) \<and> (other_step otp)\<^sup>*\<^sup>* v (during_wait turn v))"

fun last_write :: "RefreshOutcome \<Rightarrow> world \<Rightarrow> world" where
  "last_write (Authenticated b) v = applyAuthBundle b False v"
| "last_write Anonymous v = clearAuthentication True None v"
| "last_write (OutOfSync code) v = clearAuthentication False None v"
| "last_write (TransientError err) v = v\<lparr>auth := setBootstrapState Idle (auth v)\<rparr>"

definition untouched :: "int \<Rightarrow> world \<Rightarrow> world \<Rightarrow> bool" where
  "untouched e w v \<longleftrightarrow> authEpoch v = e \<and>
     (credentials (auth v) = credentials (auth w) \<or> credentials (auth v) = (None, None, None))"

definition run_result :: "int \<Rightarrow> world \<Rightarrow> world turn list \<Rightarrow> RefreshOutcome \<Rightarrow> world \<Rightarrow> bool" where
  "run_result e w turns outcome w' \<longleftrightarrow>
     (if outcome = TransientError Superseded
      then e < authEpoch w' \<and> (\<exists>turn \<in> set turns. \<exists>v. untouched e w v \<and>
             (w' = during_request turn v \<or> w' = during_wait turn v))
      else \<exists>v. untouched e w v \<and> w' = last_write outcome v)"

lemma untouched_moved:
  assumes "untouched e w v" "(other_step otp)\<^sup>*\<^sup>* v v'"
  shows "authEpoch v' = e \<Longrightarrow> untouched e w v'" "authEpoch v' \<noteq> e \<Longrightarrow> e < authEpoch v'"
  using assms other_steps_credentials [OF assms(2)] by (auto simp: untouched_def)

lemma run_result_Cons: "run_result e w ts outcome w' \<Longrightarrow> run_result e w (t # ts) outcome w'"
  by (auto simp: run_result_def split: if_splits)

lemma run_round:
  assumes "run rt raceAttempt allow (t # ts) w = Some (outcome, w')" "isCurrent rt w"
    and u: "u = during_request t (rt_request rt (getExpectedSID rt w) w)"
  shows "\<not> isCurrent rt u \<and> outcome = TransientError Superseded \<and> w' = u \<or>
    isCurrent rt u \<and> ((\<exists>b. outcome = Authenticated b \<and> w' = acceptBundle rt b u) \<or>
      outcome = Anonymous \<and> w' = clear rt True None u \<or>
      (\<exists>code. outcome = OutOfSync code \<and> w' = clear rt False None u) \<or>
      (\<exists>err. outcome = TransientError (Cause err) \<and> w' = markTransient rt u) \<or>
      (\<exists>ra d. run rt ra allow ts (during_wait t (rt_wait rt d u)) = Some (outcome, w')) \<or>
      run rt 0 False ts (clear rt False (Some Idle) u) = Some (outcome, w'))"
  using assms(1,2) unfolding run.simps [of rt raceAttempt allow "t # ts" w]
  by (simp add: Let_def u [symmetric] split: if_splits; blast)

lemma run_among_others:
  assumes "\<forall>turn \<in> set turns. played otp turn" "untouched e w v"
    and "run (refresh_runtime e) raceAttempt allow turns v = Some (outcome, w')"
  shows "run_result e w turns outcome w'"
  using assms
proof (induction turns arbitrary: raceAttempt allow v)
  case Nil
  then show ?case by (simp add: run.simps untouched_def)
next
  case (Cons t ts)
  let ?rt = "refresh_runtime e"
  define q where "q = rt_request ?rt (getExpectedSID ?rt v) v"
  define u where "u = during_request t q"
  have q: "untouched e w q" "isCurrent ?rt v" using Cons.prems(2) by (simp_all add: untouched_def q_def)
  have steps: "(other_step otp)\<^sup>*\<^sup>* x (during_request t x)" "(other_step otp)\<^sup>*\<^sup>* x (during_wait t x)" for x
    using Cons.prems(1) by (simp_all add: played_def)
  note moved = untouched_moved [OF q(1) steps(1), folded u_def]
  have again: "run_result e w (t # ts) outcome w'"
    if "run ?rt ra al ts x = Some (outcome, w')" "untouched e w x" for ra al x
    using Cons.IH [OF _ that(2,1)] Cons.prems(1) run_result_Cons by simp
  have waited: "run_result e w (t # ts) outcome w'"
    if r: "run ?rt ra al ts (during_wait t x) = Some (outcome, w')" and x: "untouched e w x" for ra al x
  proof (cases "authEpoch (during_wait t x) = e")
    case True
    then show ?thesis using again [OF r] untouched_moved(1) [OF x steps(2)] by simp
  next
    case False
    then have "outcome = TransientError Superseded" "w' = during_wait t x"
      using r by (simp_all add: run.simps [of _ ra al ts])
    with untouched_moved(2) [OF x steps(2) False] x show ?thesis by (auto simp: run_result_def)
  qed
  from run_round [OF Cons.prems(3) q(2) u_def [unfolded q_def]] show ?case
  proof (elim disjE conjE exE)
    assume "\<not> isCurrent ?rt u" "outcome = TransientError Superseded" "w' = u"
    then show ?thesis using moved(2) q(1) by (auto simp: run_result_def u_def)
  next
    fix ra d assume "isCurrent ?rt u" and again: "run ?rt ra allow ts (during_wait t (rt_wait ?rt d u)) = Some (outcome, w')"
    then have "untouched e w (rt_wait ?rt d u)" using moved(1) by (auto simp: untouched_def)
    with again show ?thesis by (rule waited)
  next
    assume "isCurrent ?rt u" and cleared: "run ?rt 0 False ts (clear ?rt False (Some Idle) u) = Some (outcome, w')"
    then have "untouched e w (clear ?rt False (Some Idle) u)"
      by (auto simp: untouched_def refresh_clear_def reset_def)
    with cleared show ?thesis by (rule again)
  qed (use moved(1) in \<open>auto simp: run_result_def refresh_clear_def\<close>)
qed

section \<open>Properties\<close>

text \<open>
  C24. A refresh always settles: whatever the server answers and whatever other code does to the
  store meanwhile, the runner returns an outcome after at most eight answers, and never looks at a
  ninth (three retries of a refresh race, one restart after a session mismatch).
\<close>

theorem runRefresh_settles:
  "(8 \<le> length turns \<longrightarrow> (\<exists>outcome w'. runRefresh e turns w = Some (outcome, w'))) \<and>
   runRefresh e turns w = runRefresh e (take 8 turns) w"
proof
  show "8 \<le> length turns \<longrightarrow> (\<exists>outcome w'. runRefresh e turns w = Some (outcome, w'))"
    using run_returns [of 0 True turns "refresh_runtime e" w]
    by (auto simp: runRefresh_def createRefreshRunner_def answers_needed_def)
  show "runRefresh e turns w = runRefresh e (take 8 turns) w"
    using run_take [of 0 True 8 "refresh_runtime e" turns w]
    by (simp add: runRefresh_def createRefreshRunner_def answers_needed_def)
qed

definition race_answer :: "world turn" where
  "race_answer = \<lparr>during_request = id,
     response = \<lparr>status = 409, rdata = JObj [(''code'', JStr ''AUTH_REFRESH_RACE'')], rerror = JNull\<rparr>,
     during_wait = id\<rparr>"

theorem runRefresh_settles_witness:
  "\<exists>outcome w'. runRefresh 0 (replicate 8 race_answer) initial_world = Some (outcome, w')"
  using runRefresh_settles [of "replicate 8 race_answer" 0 initial_world] by simp

text \<open>
  C16. A refresh overwrites nothing newer than what it started from. While it awaits, other code signs in, signs
  out, rotates tokens and so on. A refresh that finds the epoch moved before it starts changes nothing. One that
  starts in time either writes once at its end, over the credentials it started from or over none, if it has
  cleared them itself after a session mismatch; or it is superseded, and then what other code left when it moved
  the epoch is the world as it stays. The epoch then is a later one.
\<close>

theorem refresh_overwrites_nothing_newer:
  assumes "\<forall>turn \<in> set turns. \<forall>v. (other_step otp)\<^sup>*\<^sup>* v (during_request turn v) \<and>
      (other_step otp)\<^sup>*\<^sup>* v (during_wait turn v)"
    and "runRefresh e turns w = Some (outcome, w')"
  shows "(authEpoch w \<noteq> e \<longrightarrow> outcome = TransientError Superseded \<and> w' = w) \<and>
    (authEpoch w = e \<and> outcome \<noteq> TransientError Superseded \<longrightarrow>
      (\<exists>v. authEpoch v = e \<and> (credentials (auth v) = credentials (auth w) \<or> credentials (auth v) = (None, None, None)) \<and>
        w' = last_write outcome v)) \<and>
    (authEpoch w = e \<and> outcome = TransientError Superseded \<longrightarrow> e < authEpoch w' \<and>
      (\<exists>turn \<in> set turns. \<exists>v. authEpoch v = e \<and>
        (credentials (auth v) = credentials (auth w) \<or> credentials (auth v) = (None, None, None)) \<and>
        (w' = during_request turn v \<or> w' = during_wait turn v)))"
proof (cases "authEpoch w = e")
  case True
  have "\<forall>turn \<in> set turns. played otp turn" using assms(1) by (simp add: played_def)
  moreover have "untouched e w w" using True by (simp add: untouched_def)
  moreover have "run (refresh_runtime e) 0 True turns w = Some (outcome, w')"
    using assms(2) by (simp add: runRefresh_def createRefreshRunner_def)
  ultimately have "run_result e w turns outcome w'" by (rule run_among_others)
  with True show ?thesis unfolding run_result_def untouched_def by (auto split: if_splits)
next
  case False
  with assms(2) show ?thesis
    by (simp add: runRefresh_def createRefreshRunner_def run.simps [of _ 0 True turns w])
qed

definition sample_session :: jsval where
  "sample_session = JObj [(''sid'', JStr ''s1''), (''current'', JBool True),
     (''login_method'', JStr ''password''), (''ip'', JStr ''127.0.0.1''), (''user_agent'', JStr ''ua''),
     (''created_at'', JNum (Fin 1)), (''last_active_at'', JNum (Fin 1)), (''expires_at'', JNum (Fin 9))]"

definition sample_bundle :: jsval where
  "sample_bundle = JObj [(''access_token'', JStr ''tok''), (''token_type'', JStr ''Bearer''),
     (''access_expires_at'', JNum (Fin 9000)),
     (''user'', JObj [(''id'', JNum (Fin 7)), (''username'', JStr ''ada''), (''role'', JNum (Fin 1))]),
     (''session'', sample_session)]"

lemma sample_bundle_ok: "isAuthBundle sample_bundle"
  by (simp add: isAuthBundle_def hasValidTokenFields_def isAuthUser_def isLoginSession_def
      sample_bundle_def sample_session_def)

definition success_answer :: "(world \<Rightarrow> world) \<Rightarrow> world turn" where
  "success_answer f = \<lparr>during_request = f,
     response = \<lparr>status = 200, rdata = JObj [(''success'', JBool True), (''data'', sample_bundle)],
       rerror = JUndefined\<rparr>,
     during_wait = id\<rparr>"

lemma sample_superseded:
  "runRefresh 0 [success_answer (clearAuthentication True None)] initial_world =
    Some (TransientError Superseded, clearAuthentication True None (initial_world\<lparr>requested := [None]\<rparr>))"
  unfolding runRefresh_def createRefreshRunner_def
    run.simps [of _ 0 True "[success_answer (clearAuthentication True None)]" initial_world]
  by (simp add: success_answer_def initial_world_def initial_auth_def Let_def)

theorem refresh_overwrites_nothing_newer_witness:
  "0 < authEpoch (clearAuthentication True None (initial_world\<lparr>requested := [None]\<rparr>))"
proof -
  have "\<forall>turn \<in> set [success_answer (clearAuthentication True None)]. \<forall>v.
      (other_step (\<lambda>_. True))\<^sup>*\<^sup>* v (during_request turn v) \<and> (other_step (\<lambda>_. True))\<^sup>*\<^sup>* v (during_wait turn v)"
    by (simp add: success_answer_def r_into_rtranclp other_step.sign_out)
  from refresh_overwrites_nothing_newer [OF this sample_superseded] show ?thesis
    by (simp add: initial_world_def)
qed

definition bundle_answer :: "AuthBundle \<Rightarrow> world turn \<Rightarrow> bool" where
  "bundle_answer b turn \<longleftrightarrow>
     jprop (response_data (response turn)) ''success'' = JBool True \<and>
     isAuthBundle (jprop (response_data (response turn)) ''data'') \<and>
     b = bundle_of (jprop (response_data (response turn)) ''data'')"

lemma run_Authenticated:
  "run (refresh_runtime e) raceAttempt allow turns w = Some (Authenticated b, w') \<Longrightarrow>
     (\<exists>turn \<in> set turns. bundle_answer b turn) \<and>
     (\<exists>w1. authEpoch w1 = e \<and> w' = applyAuthBundle b False w1)"
proof (induction turns arbitrary: raceAttempt allow w)
  case Nil
  then show ?case by (auto simp: run.simps split: if_splits)
next
  case (Cons t ts)
  define v where "v = during_request t (rt_request (refresh_runtime e) (session_sid (auth w)) w)"
  have "(bundle_answer b t \<and> authEpoch v = e \<and> w' = applyAuthBundle b False v) \<or>
      (\<exists>ra al u. run (refresh_runtime e) ra al ts u = Some (Authenticated b, w'))"
    using Cons.prems unfolding run.simps [of "refresh_runtime e" raceAttempt allow "t # ts" w]
    by (auto simp: Let_def v_def bundle_answer_def split: if_splits)
  then show ?case
    using Cons.IH by auto
qed

text \<open>
  A refresh that reports success has stored a bundle the server sent in a successful answer and
  that passed validation: token, expiry, user and session of the store are the bundle's, the
  epoch is exactly one above the one the refresh captured: nobody else changed the session in
  between.
\<close>

theorem runRefresh_success:
  assumes "runRefresh e turns w = Some (Authenticated b, w')"
  shows "(\<exists>turn \<in> set turns. isAuthBundle (jprop (response_data (response turn)) ''data'') \<and>
           b = bundle_of (jprop (response_data (response turn)) ''data'')) \<and>
    user (auth w') = Some (bundle_user b) \<and> accessToken (auth w') = Some (access_token b) \<and>
    accessExpiresAt (auth w') = Some (access_expires_at b) \<and>
    session (auth w') = Some (bundle_session b) \<and> bootstrapState (auth w') = Complete \<and>
    bundle_ok b \<and> authEpoch w' = e + 1"
proof -
  have run: "run (refresh_runtime e) 0 True turns w = Some (Authenticated b, w')"
    using assms by (simp add: runRefresh_def createRefreshRunner_def)
  from run_Authenticated [OF run] obtain turn w1 where t: "turn \<in> set turns"
    "isAuthBundle (jprop (response_data (response turn)) ''data'')"
    "b = bundle_of (jprop (response_data (response turn)) ''data'')"
    and w1: "authEpoch w1 = e" "w' = applyAuthBundle b False w1"
    unfolding bundle_answer_def by blast
  from t(2,3) have "bundle_ok b" by (simp add: bundle_of_ok)
  with t w1 show ?thesis by (auto simp: setBundle_def)
qed

lemma sample_refresh:
  "runRefresh 0 [success_answer id] initial_world =
    Some (Authenticated (bundle_of sample_bundle),
      applyAuthBundle (bundle_of sample_bundle) False (initial_world\<lparr>requested := [None]\<rparr>))"
  unfolding runRefresh_def createRefreshRunner_def
    run.simps [of "refresh_runtime 0" 0 True "[success_answer id]" initial_world]
  using sample_bundle_ok
  by (simp add: success_answer_def initial_world_def initial_auth_def Let_def response_data_def)

theorem runRefresh_success_witness:
  "bundle_ok (bundle_of sample_bundle) \<and>
   runRefresh 0 [success_answer id] initial_world =
    Some (Authenticated (bundle_of sample_bundle),
      applyAuthBundle (bundle_of sample_bundle) False (initial_world\<lparr>requested := [None]\<rparr>))"
  using runRefresh_success [OF sample_refresh] sample_refresh by blast

text \<open>
  C6. In every world the operations can reach, in any interleaving, the access token, its expiry and the session
  are present together or absent together; a token present is not empty, its expiry is positive and finite, and
  its session has an identifier. The one exception is an answer that the form for the one-time password was given
  and that is no bundle: the form does not check it, and then the store holds exactly the fields of that answer
  until something else sets or clears them. The refresh in flight, if any, is the last one started.
\<close>

theorem reachable_session_consistent:
  assumes "reachable otp w"
  shows "(auth_inv (auth w) \<or> (\<exists>v. otp v \<and> \<not> isAuthBundle v \<and> credentials (auth w) = otp_credentials v)) \<and>
    promise_inv w"
  using reachable_inv [OF assms] by (simp add: auth_or_otp_def)

theorem reachable_session_consistent_witness:
  "auth_inv (auth (otp_sign_in sample_bundle (applyAuthBundle (bundle_of sample_bundle) True initial_world))) \<and>
   promise_inv (otp_sign_in sample_bundle (applyAuthBundle (bundle_of sample_bundle) True initial_world))"
proof -
  have "declared_login sample_bundle"
    by (simp add: declared_login_def declared_session_def sample_bundle_def sample_session_def)
  then have "op_step isAuthBundle w (otp_sign_in sample_bundle w)" for w
    using sample_bundle_ok by (intro op_step.other other_step.sign_in_otp)
  moreover have "reachable isAuthBundle (applyAuthBundle (bundle_of sample_bundle) True initial_world)"
    by (rule reachable.op [OF reachable.init op_step.other [OF other_step.sign_in [OF sample_bundle_ok]]])
  ultimately have "reachable isAuthBundle (otp_sign_in sample_bundle (applyAuthBundle (bundle_of sample_bundle) True initial_world))"
    by (blast intro: reachable.op)
  from reachable_session_consistent [OF this] show ?thesis by blast
qed

text \<open>The exception is real: an answer without a token leaves a session without one.\<close>

lemma otp_inconsistent:
  "\<not> auth_inv (auth (otp_sign_in (JObj [(''session'', sample_session)]) initial_world))"
  "declared_login (JObj [(''session'', sample_session)])"
  by (simp_all add: otp_sign_in_def given_def missing_def auth_inv_def initial_world_def initial_auth_def Let_def
      declared_login_def declared_session_def sample_session_def publish_def)

text \<open>
  A whole run of the refresh keeps the store consistent, provided the code that runs during its
  awaits does: the runner's own actions never break it, on any branch.
\<close>

theorem runRefresh_keeps_auth_inv:
  assumes "\<And>turn v. turn \<in> set turns \<Longrightarrow> auth_inv (auth v) \<Longrightarrow>
      auth_inv (auth (during_request turn v)) \<and> auth_inv (auth (during_wait turn v))"
    and "auth_inv (auth w)"
    and "runRefresh e turns w = Some (outcome, w')"
  shows "auth_inv (auth w')"
proof -
  have run: "run (refresh_runtime e) 0 True turns w = Some (outcome, w')"
    using assms(3) by (simp add: runRefresh_def createRefreshRunner_def)
  have "session_refresh.polite turn" if "turn \<in> set turns" for turn
    using assms(1) [OF that] by (auto simp: session_refresh.polite_def)
  then show ?thesis
    by (rule session_refresh.run_inv [OF _ assms(2) run])
qed

theorem runRefresh_keeps_auth_inv_witness:
  "auth_inv (auth (applyAuthBundle (bundle_of sample_bundle) False
     (initial_world\<lparr>requested := [None]\<rparr>)))"
  by (rule runRefresh_keeps_auth_inv [OF _ _ sample_refresh])
    (auto simp: success_answer_def initial_world_def)

text \<open>
  A token rotation replaces the credentials of the session it belongs to and nothing else: it
  succeeds only for a valid rotation of the session that is signed in, keeps the user and the
  session identifier, stays silent towards other tabs, and otherwise fails with the error the
  code throws, before any change.
\<close>

theorem applyAuthRotation_correct:
  "applyAuthRotation v w =
     (if \<not> isAuthTokenRotation v then Inl InvalidRotation
      else if user (auth w) = None \<or> session (auth w) = None then Inl NoActiveSession
      else if sid (session_of (jprop v ''session'')) \<noteq> sid (the (session (auth w)))
      then Inl SessionMismatch
      else Inr (applyAuthBundle (rotation_bundle v (the (user (auth w)))) False w)) \<and>
   (\<forall>w'. applyAuthRotation v w = Inr w' \<longrightarrow>
      user (auth w') = user (auth w) \<and> session_sid (auth w') = session_sid (auth w) \<and>
      accessToken (auth w') = Some (the_str (jprop v ''access_token'')) \<and>
      published w' = published w \<and> authEpoch w' = authEpoch w + 1)"
proof
  show "applyAuthRotation v w =
     (if \<not> isAuthTokenRotation v then Inl InvalidRotation
      else if user (auth w) = None \<or> session (auth w) = None then Inl NoActiveSession
      else if sid (session_of (jprop v ''session'')) \<noteq> sid (the (session (auth w)))
      then Inl SessionMismatch
      else Inr (applyAuthBundle (rotation_bundle v (the (user (auth w)))) False w))"
    by (auto simp: applyAuthRotation_def split: option.splits)
  show "\<forall>w'. applyAuthRotation v w = Inr w' \<longrightarrow>
      user (auth w') = user (auth w) \<and> session_sid (auth w') = session_sid (auth w) \<and>
      accessToken (auth w') = Some (the_str (jprop v ''access_token'')) \<and>
      published w' = published w \<and> authEpoch w' = authEpoch w + 1"
    by (auto simp: applyAuthRotation_Inr setBundle_def rotation_bundle_def)
qed

definition signed_in :: world where
  "signed_in = applyAuthBundle (bundle_of sample_bundle) True initial_world"

lemma sample_rotation:
  "applyAuthRotation sample_bundle signed_in =
    Inr (applyAuthBundle (rotation_bundle sample_bundle (bundle_user (bundle_of sample_bundle))) False signed_in)"
  using sample_bundle_ok
  by (simp add: applyAuthRotation_Inr signed_in_def setBundle_def isAuthTokenRotation_def
      isAuthBundle_def, simp add: bundle_of_def session_of_def sample_bundle_def sample_session_def)

theorem applyAuthRotation_correct_witness:
  "user (auth (applyAuthBundle (rotation_bundle sample_bundle (bundle_user (bundle_of sample_bundle)))
      False signed_in)) = user (auth signed_in)"
  using applyAuthRotation_correct [of sample_bundle signed_in] sample_rotation by blast

text \<open>
  C19. One refresh in flight: once a caller has been given a refresh, every later caller is given the
  same one and starts none, whatever operations happen in between, until it settles.
\<close>

theorem refresh_single_flight:
  assumes "promise_inv w" and "refreshAuthentication w = (p, w1)" and "(op_step otp)\<^sup>*\<^sup>* w1 w2"
  shows "refreshAuthentication w2 = (p, w2) \<and> started w2 = started w1"
proof -
  have p1: "refreshPromise w1 = Some p" "promise_inv w1"
    using assms(1,2) refreshAuthentication_simps by auto
  from assms(3) have "refreshPromise w2 = Some p \<and> promise_inv w2 \<and> started w2 = started w1"
  proof (induction rule: rtranclp_induct)
    case base
    show ?case using p1 by simp
  next
    case (step y z)
    then show ?case using op_step_promise by fastforce
  qed
  then show ?thesis by (simp add: refreshAuthentication_def)
qed

theorem refresh_single_flight_witness:
  "refreshAuthentication (clearAuthentication True None (snd (refreshAuthentication initial_world))) =
    (0, clearAuthentication True None (snd (refreshAuthentication initial_world)))"
proof -
  have "promise_inv initial_world" by (simp add: promise_inv_def initial_world_def)
  moreover have "refreshAuthentication initial_world = (0, snd (refreshAuthentication initial_world))"
    by (simp add: refreshAuthentication_def initial_world_def)
  moreover have "(op_step (\<lambda>_. True))\<^sup>*\<^sup>* (snd (refreshAuthentication initial_world))
      (clearAuthentication True None (snd (refreshAuthentication initial_world)))"
    by (rule r_into_rtranclp) (rule op_step.other [OF other_step.sign_out])
  ultimately show ?thesis using refresh_single_flight by blast
qed

text \<open>
  C26. Signing out reaches the other tabs once: the tab that signs out announces its session, a tab
  on the same session that hears of it within a minute signs out as well, and that tab announces
  nothing in turn; the announcing tab ignores its own message.
\<close>

theorem sign_out_propagates:
  assumes "session_sid (auth wa) = Some s" and "session_sid (auth wb) = Some s" and "s \<noteq> []"
    and "srcA \<noteq> srcB" and "\<bar>now - t\<bar> < 60000"
  shows "\<exists>v ev wb'. published (clearAuthentication True None wa) = published wa @ [(SyncSignedOut, s)] \<and>
    publishAuthSessionEvent srcA n t SyncSignedOut s = Some v \<and>
    deliver srcA now v = None \<and> deliver srcB now v = Some ev \<and>
    onAuthSessionEvent ev wb = (Some GoToSignIn, wb') \<and>
    user (auth wb') = None \<and> accessToken (auth wb') = None \<and> session (auth wb') = None \<and>
    published wb' = published wb"
proof -
  obtain v where v: "publishAuthSessionEvent srcA n t SyncSignedOut s = Some v"
    using assms(3) by (simp add: publishAuthSessionEvent_def)
  let ?ev = "\<lparr>kind = SyncSignedOut, ev_sid = s, source = srcA, nonce = n, timestamp = t\<rparr>"
  have "deliver srcA now v = None" "deliver srcB now v = Some ?ev"
    using deliver_published [OF v] assms(4,5) by auto
  moreover have "onAuthSessionEvent ?ev wb = (Some GoToSignIn, clearAuthenticatedClientState False wb)"
    using assms(2,3) by (auto simp: onAuthSessionEvent_def Let_def)
  moreover have "published (clearAuthentication True None wa) = published wa @ [(SyncSignedOut, s)]"
    using assms(1,3) by (auto simp: clearAuthentication_published)
  moreover have "user (auth (clearAuthenticatedClientState False wb)) = None"
    "accessToken (auth (clearAuthenticatedClientState False wb)) = None"
    "session (auth (clearAuthenticatedClientState False wb)) = None"
    "published (clearAuthenticatedClientState False wb) = published wb"
    by (simp_all add: reset_def)
  ultimately show ?thesis using v by blast
qed

theorem sign_out_propagates_witness:
  "\<exists>ev wb'. deliver ''tab-b'' 5 (the (publishAuthSessionEvent ''tab-a'' ''n'' 0 SyncSignedOut ''s1'')) = Some ev \<and>
    onAuthSessionEvent ev signed_in = (Some GoToSignIn, wb') \<and> session (auth wb') = None"
proof -
  have s: "session_sid (auth signed_in) = Some ''s1''"
    by (simp add: signed_in_def setBundle_def bundle_of_def session_of_def sample_bundle_def
        sample_session_def)
  obtain v ev wb' where "publishAuthSessionEvent ''tab-a'' ''n'' 0 SyncSignedOut ''s1'' = Some v"
    "deliver ''tab-b'' 5 v = Some ev" "onAuthSessionEvent ev signed_in = (Some GoToSignIn, wb')"
    "session (auth wb') = None"
    using sign_out_propagates [OF s s, of "''tab-a''" "''tab-b''" 5 0 "''n''"] by auto
  then show ?thesis by auto
qed

definition bearer :: "string \<Rightarrow> (string \<times> string) list" where
  "bearer tok = [(''Content-Type'', ''application/json''), (''Authorization'', ''Bearer '' @ tok)]"

definition unexpired :: "AuthState \<Rightarrow> string \<Rightarrow> int \<Rightarrow> bool" where
  "unexpired a tok seconds \<longleftrightarrow> accessToken a = Some tok \<and> tok \<noteq> [] \<and>
     (\<exists>expiry. accessExpiresAt a = Some expiry \<and> expiry \<noteq> Fin 0 \<and> num_gt expiry (of_int seconds))"

lemma headers_bearer: "accessToken (auth w) = Some tok \<Longrightarrow> tok \<noteq> [] \<Longrightarrow> getCommonHeaders w = bearer tok"
  by (simp add: getCommonHeaders_def bearer_def)

lemma unexpired_iff: "present_token a \<and> expires_after a n \<longleftrightarrow> (\<exists>tok. unexpired a tok n)"
  by (auto simp: present_token_def expires_after_def unexpired_def split: option.splits)

text \<open>
  C27. What the headers of a request carry. Without a refresh: the stored token, which stays valid for more than a
  minute. After a refresh, whatever other code did between its end and the resumption: when it was authenticated
  and the epoch has not moved since, the token of a bundle that a successful answer brought and that passed the
  check (its expiry is not compared with the clock); when it was not, a stored token that has not expired, and
  if there is none an error, for a transient failure another one than for a lost session.
\<close>

theorem fresh_headers_valid:
  assumes "runRefresh e turns w2 = Some (outcome, w3)" "(other_step otp)\<^sup>*\<^sup>* w3 w4"
  shows "(\<forall>headers. fst (getFreshAuthHeaders now w) = Inl headers \<longrightarrow>
      (\<exists>tok. unexpired (auth w) tok (now_seconds now + 60) \<and> headers = bearer tok)) \<and>
    (case outcome of
       Authenticated b \<Rightarrow> authEpoch w4 = authEpoch w3 \<longrightarrow>
         getFreshAuthHeaders_resume now' outcome w4 = Inr (bearer (access_token b)) \<and>
         (\<exists>turn \<in> set turns. jprop (response_data (response turn)) ''success'' = JBool True \<and>
            isAuthBundle (jprop (response_data (response turn)) ''data'') \<and>
            b = bundle_of (jprop (response_data (response turn)) ''data''))
     | _ \<Rightarrow>
         (\<forall>tok. unexpired (auth w4) tok (now_seconds now') \<longrightarrow>
            getFreshAuthHeaders_resume now' outcome w4 = Inr (bearer tok)) \<and>
         ((\<nexists>tok. unexpired (auth w4) tok (now_seconds now')) \<longrightarrow>
            getFreshAuthHeaders_resume now' outcome w4 =
              Inl (if \<exists>err. outcome = TransientError err then ''Request failed'' else ''Session expired!'')))"
proof -
  have "\<exists>tok. unexpired (auth w) tok (now_seconds now + 60) \<and> headers = bearer tok"
    if "fst (getFreshAuthHeaders now w) = Inl headers" for headers
  proof -
    from that have "present_token (auth w) \<and> expires_after (auth w) (now_seconds now + 60)" "headers = getCommonHeaders w"
      by (auto simp: getFreshAuthHeaders_def split: if_splits prod.splits)
    then obtain tok where "unexpired (auth w) tok (now_seconds now + 60)" by (auto simp: unexpired_iff)
    with \<open>headers = _\<close> show ?thesis by (auto simp: unexpired_def headers_bearer)
  qed
  moreover have found: "getFreshAuthHeaders_resume now' outcome w4 = Inr (bearer tok)"
    if "\<nexists>b. outcome = Authenticated b" "unexpired (auth w4) tok (now_seconds now')" for tok
    using that unexpired_iff [of "auth w4" "now_seconds now'"] headers_bearer [of w4 tok]
    by (cases outcome) (auto simp: getFreshAuthHeaders_resume_def unexpired_def)
  moreover have "getFreshAuthHeaders_resume now' outcome w4 =
      Inl (if \<exists>err. outcome = TransientError err then ''Request failed'' else ''Session expired!'')"
    if "\<nexists>b. outcome = Authenticated b" "\<nexists>tok. unexpired (auth w4) tok (now_seconds now')"
    using that unexpired_iff [of "auth w4" "now_seconds now'"]
    by (cases outcome) (auto simp: getFreshAuthHeaders_resume_def)
  moreover have "getFreshAuthHeaders_resume now' outcome w4 = Inr (bearer (access_token b)) \<and>
      (\<exists>turn \<in> set turns. bundle_answer b turn)"
    if b: "outcome = Authenticated b" "authEpoch w4 = authEpoch w3" for b
  proof -
    have "run (refresh_runtime e) 0 True turns w2 = Some (Authenticated b, w3)"
      using assms(1) b(1) by (simp add: runRefresh_def createRefreshRunner_def)
    from run_Authenticated [OF this] obtain w1 turn
      where turn: "turn \<in> set turns" "bundle_answer b turn" and w3: "w3 = applyAuthBundle b False w1" by blast
    have "access_token b \<noteq> []"
      using turn(2) bundle_of_ok by (auto simp: bundle_answer_def bundle_ok_def credentials_ok_def)
    moreover have "accessToken (auth w4) = Some (access_token b)"
      using other_steps_credentials(2) [OF assms(2) b(2)] by (simp add: w3 setBundle_def)
    ultimately show ?thesis using turn b(1) by (auto simp: getFreshAuthHeaders_resume_def headers_bearer)
  qed
  ultimately show ?thesis by (cases outcome) (simp_all add: bundle_answer_def)
qed

theorem fresh_headers_valid_witness:
  "getFreshAuthHeaders_resume 0 (Authenticated (bundle_of sample_bundle))
     (applyAuthBundle (bundle_of sample_bundle) False (initial_world\<lparr>requested := [None]\<rparr>)) = Inr (bearer ''tok'') \<and>
   (\<exists>tok. unexpired (auth signed_in) tok 61)"
proof -
  have "fst (getFreshAuthHeaders 1000 signed_in) = Inl (getCommonHeaders signed_in)"
    by (simp add: getFreshAuthHeaders_def present_token_def expires_after_def now_seconds_def
        signed_in_def setBundle_def bundle_of_def sample_bundle_def)
  moreover have "access_token (bundle_of sample_bundle) = ''tok''" by (simp add: bundle_of_def sample_bundle_def)
  ultimately show ?thesis
    using fresh_headers_valid [OF sample_refresh rtranclp.rtrancl_refl, of 1000 signed_in 0]
    by (auto simp: now_seconds_def)
qed

end
