(* ===== verification/HttpClient.thy ===== *)
theory HttpClient
  imports AuthSession
begin

text \<open>
  The HTTP client, \<^verbatim>\<open>src/web/src/lib/http-client.ts\<close>, with the table of server error codes,
  \<^verbatim>\<open>src/web/src/lib/server-error-message.ts\<close>: sharing of identical GET requests, the headers put on every
  request, and the two response interceptors with the refresh of the session and the single retry
  after a 401. It runs over the world of the session model. \<^verbatim>\<open>axios\<close> is outside the sources: what it
  answers is an argument, as are \<^verbatim>\<open>JSON.stringify\<close>, the translation function and the texts of the
  error table. Code that runs while a request or a refresh is awaited is an arbitrary change.
\<close>

section \<open>Error codes of the server\<close>

definition serverErrorCodes :: "string list" where
  "serverErrorCodes = [''AUTH_SESSION_LIMIT'', ''AUTH_SESSION_ISSUANCE_LIMIT'', ''TELEGRAM_BIND_DISABLED'',
     ''TELEGRAM_BIND_INVALID_REQUEST'', ''TELEGRAM_BIND_FLOW_INVALID'', ''TELEGRAM_BIND_SESSION_INVALID'',
     ''TELEGRAM_BIND_ALREADY_BOUND'', ''TELEGRAM_BIND_USER_DELETED'', ''TELEGRAM_BIND_USER_DISABLED'',
     ''TELEGRAM_BIND_INTERNAL_ERROR'']"

definition serverErrorPayload :: "jsval \<Rightarrow> jsval option" where
  "serverErrorPayload v =
     (if \<not> is_record v then None
      else if is_record (jprop v ''response'') \<and> is_record (jprop (jprop v ''response'') ''data'')
      then Some (jprop (jprop v ''response'') ''data'') else Some v)"

text \<open>The key of a message is given by the code whose text it is. A member every object inherits is
  found in the table as well, and is then not a text.\<close>

datatype message_key = TextOf string | InheritedMember string

definition getServerErrorMessageKey :: "jsval \<Rightarrow> message_key option" where
  "getServerErrorMessageKey v =
     (case serverErrorPayload v of
        None \<Rightarrow> None
      | Some payload \<Rightarrow>
          (case jprop payload ''code'' of
             JStr code \<Rightarrow>
               (if code \<in> set serverErrorCodes then Some (TextOf code)
                else if code \<in> set object_prototype_keys then Some (InheritedMember code) else None)
           | _ \<Rightarrow> None))"

section \<open>Requests and the client\<close>

record ApiRequestConfig =
  rc_params :: jsval
  rc_headers :: "(string \<times> string) list"
  skipBusinessError :: bool
  skipErrorHandler :: bool
  disableDuplicate :: bool
  skipAuthRefresh :: bool
  authRetry :: bool
  acceptAuthRotation :: bool

text \<open>
  The platform and the translations: \<open>pf_text\<close> translates a message key, \<open>pf_t\<close> the other texts.
\<close>

record platform =
  pf_stringify :: "jsval \<Rightarrow> string"
  pf_text :: "message_key \<Rightarrow> string"
  pf_t :: "string \<Rightarrow> string"
  pf_locale :: "string option"

text \<open>
  The session world; the map of GET requests in flight, by key, to the number of the request; how many
  requests were started that way; the toasts shown; the path of the page and the places it was sent
  to; and the headers of every request put on the wire.
\<close>

record client =
  cl_world :: world
  cl_inFlight :: "(string \<times> nat) list"
  cl_started :: nat
  cl_toasts :: "jsval list"
  cl_pathname :: string
  cl_replaced :: "string list"
  cl_sent :: "(string \<times> string) list list"

section \<open>Sharing GET requests\<close>

definition session_name :: "world \<Rightarrow> string" where
  "session_name w = (case session_sid (auth w) of
      None \<Rightarrow> ''anonymous'' | Some s \<Rightarrow> if s = [] then ''anonymous'' else s)"

definition request_key :: "platform \<Rightarrow> string \<Rightarrow> ApiRequestConfig \<Rightarrow> world \<Rightarrow> string" where
  "request_key pf url config w =
     session_name w @ '':'' @ url @ ''?'' @
       (if truthy (rc_params config) then pf_stringify pf (rc_params config) else ''{}'')"

text \<open>\<^verbatim>\<open>api.get\<close>: the number of the request whose promise is returned, and whether it is a new one.\<close>

definition api_get :: "platform \<Rightarrow> string \<Rightarrow> ApiRequestConfig \<Rightarrow> client \<Rightarrow> (nat \<times> bool) \<times> client" where
  "api_get pf url config c =
     (if disableDuplicate config then ((cl_started c, True), c\<lparr>cl_started := cl_started c + 1\<rparr>)
      else (let key = request_key pf url config (cl_world c) in
            case map_of (cl_inFlight c) key of
              Some n \<Rightarrow> ((n, False), c)
            | None \<Rightarrow> ((cl_started c, True),
                c\<lparr>cl_started := cl_started c + 1,
                  cl_inFlight := AList.update key (cl_started c) (cl_inFlight c)\<rparr>)))"

text \<open>The \<^verbatim>\<open>finally\<close> handler of a shared request.\<close>

definition get_settled :: "string \<Rightarrow> client \<Rightarrow> client" where
  "get_settled key c = c\<lparr>cl_inFlight := AList.delete key (cl_inFlight c)\<rparr>"

section \<open>Interceptors\<close>

definition redirectToSignIn :: "client \<Rightarrow> client" where
  "redirectToSignIn c =
     (if cl_pathname c \<noteq> ''/sign-in'' then c\<lparr>cl_replaced := cl_replaced c @ [''/sign-in'']\<rparr> else c)"

definition toast :: "jsval \<Rightarrow> client \<Rightarrow> client" where
  "toast message c = c\<lparr>cl_toasts := cl_toasts c @ [message]\<rparr>"

definition had_session :: "client \<Rightarrow> bool" where
  "had_session c \<longleftrightarrow> user (auth (cl_world c)) \<noteq> None"

text \<open>The first of some values that is truthy, else the last: \<^verbatim>\<open>a || b || c\<close>.\<close>

fun first_truthy :: "jsval list \<Rightarrow> jsval \<Rightarrow> jsval" where
  "first_truthy [] d = d"
| "first_truthy (v # vs) d = (if truthy v then v else first_truthy vs d)"

definition on_response ::
  "platform \<Rightarrow> ApiRequestConfig \<Rightarrow> jsval \<Rightarrow> client \<Rightarrow> AuthRotationError option \<times> client" where
  "on_response pf config data c =
     (let rotated = (if acceptAuthRotation config \<and> jprop data ''success'' = JBool True
            then applyAuthRotation (jprop data ''data'') (cl_world c) else Inr (cl_world c)) in
      case rotated of
        Inl e \<Rightarrow> (Some e, c)
      | Inr w \<Rightarrow>
          (let c = c\<lparr>cl_world := w\<rparr> in
           if \<not> skipBusinessError config \<and> jprop data ''success'' = JBool False
           then (None, toast (case getServerErrorMessageKey data of
                   Some key \<Rightarrow> JStr (pf_text pf key)
                 | None \<Rightarrow> first_truthy [jprop data ''message''] (JStr (pf_t pf ''Request failed''))) c)
           else (None, c)))"

record http_error =
  he_config :: "ApiRequestConfig option"
  he_response :: "(int \<times> jsval) option"
  he_message :: jsval
  he_code :: jsval

text \<open>The properties of the error object that the table of codes looks at.\<close>

definition error_value :: "http_error \<Rightarrow> jsval" where
  "error_value err = JObj ([(''message'', he_message err), (''code'', he_code err)] @
     (case he_response err of
        None \<Rightarrow> []
      | Some (st, data) \<Rightarrow> [(''response'', JObj [(''status'', JNum (Fin (of_int st))), (''data'', data)])]))"

text \<open>The error interceptor up to its await: it awaits the refresh of the given number and goes on with
  the configuration, now marked as retried, or it throws.\<close>

datatype error_step = Awaiting nat ApiRequestConfig | Rethrown

definition announce_expiry :: "platform \<Rightarrow> ApiRequestConfig option \<Rightarrow> bool \<Rightarrow> client \<Rightarrow> client" where
  "announce_expiry pf config redirect c =
     (let hadSession = had_session c; skip = (case config of None \<Rightarrow> False | Some cfg \<Rightarrow> skipErrorHandler cfg);
          c = (if \<not> skip \<and> hadSession then toast (JStr (pf_t pf ''Session expired!'')) c else c) in
      if redirect \<and> hadSession then redirectToSignIn c else c)"

definition clear_and_announce :: "platform \<Rightarrow> ApiRequestConfig \<Rightarrow> client \<Rightarrow> client" where
  "clear_and_announce pf config c =
     (let hadSession = had_session c;
          c = c\<lparr>cl_world := clearAuthentication False None (cl_world c)\<rparr>;
          c = (if \<not> skipErrorHandler config \<and> hadSession
               then toast (JStr (pf_t pf ''Session expired!'')) c else c) in
      if hadSession then redirectToSignIn c else c)"

definition error_text :: "platform \<Rightarrow> http_error \<Rightarrow> jsval" where
  "error_text pf err =
     (case getServerErrorMessageKey (error_value err) of
        Some key \<Rightarrow> JStr (pf_text pf key)
      | None \<Rightarrow> first_truthy
          [case he_response err of None \<Rightarrow> JUndefined | Some (_, data) \<Rightarrow> jprop data ''message'', he_message err]
          (JStr (pf_t pf ''Request failed'')))"

definition on_response_error :: "platform \<Rightarrow> http_error \<Rightarrow> client \<Rightarrow> error_step \<times> client" where
  "on_response_error pf err c =
     (let config = he_config err; skip = (case config of None \<Rightarrow> False | Some cfg \<Rightarrow> skipErrorHandler cfg) in
      if map_option fst (he_response err) = Some 401
      then (case config of
              Some cfg \<Rightarrow>
                (if \<not> skipAuthRefresh cfg \<and> \<not> authRetry cfg
                 then (let (p, w) = refreshAuthentication (cl_world c) in
                       (Awaiting p (cfg\<lparr>authRetry := True\<rparr>), c\<lparr>cl_world := w\<rparr>))
                 else if authRetry cfg then (Rethrown, clear_and_announce pf cfg c)
                 else if \<not> skip then (Rethrown, announce_expiry pf config False c)
                 else (Rethrown, c))
            | None \<Rightarrow> (Rethrown, announce_expiry pf None False c))
      else if \<not> skip then (Rethrown, toast (error_text pf err) c)
      else (Rethrown, c))"

text \<open>After the await: the configuration to send again, or nothing and the error is thrown.\<close>

definition on_refreshed ::
  "platform \<Rightarrow> RefreshOutcome \<Rightarrow> ApiRequestConfig \<Rightarrow> client \<Rightarrow> ApiRequestConfig option \<times> client" where
  "on_refreshed pf outcome config c =
     (case outcome of
        Authenticated b \<Rightarrow>
          (Some (case accessToken (auth (cl_world c)) of
             Some tok \<Rightarrow> (if tok = [] then config
               else config\<lparr>rc_headers := AList.update ''Authorization'' (''Bearer '' @ tok) (rc_headers config)\<rparr>)
           | None \<Rightarrow> config), c)
      | TransientError e \<Rightarrow> (None, c)
      | _ \<Rightarrow> (None, announce_expiry pf (Some config) True c))"

text \<open>The request interceptor.\<close>

definition on_request :: "platform \<Rightarrow> ApiRequestConfig \<Rightarrow> world \<Rightarrow> ApiRequestConfig" where
  "on_request pf config w =
     (let headers = rc_headers config;
          headers = (case accessToken (auth w) of
             Some tok \<Rightarrow> (if tok = [] then headers
               else AList.update ''Authorization'' (''Bearer '' @ tok) headers)
           | None \<Rightarrow> headers);
          headers = (case pf_locale pf of
             Some l \<Rightarrow> (if l = [] then headers else AList.update ''Accept-Language'' l headers)
           | None \<Rightarrow> headers) in
      config\<lparr>rc_headers := headers\<rparr>)"

section \<open>A whole request\<close>

text \<open>One attempt as the environment plays it: what other code does while the request is pending, the
  answer, and, if the interceptor awaits a refresh, what the refresh and other code do and how the
  refresh ends.\<close>

datatype answer = Response jsval | Failure "(int \<times> jsval) option" jsval jsval

record attempt =
  at_pending :: "client \<Rightarrow> client"
  at_answer :: answer
  at_refresh :: "client \<Rightarrow> client"
  at_outcome :: RefreshOutcome

datatype request_result = Resolved jsval | RotationFailed AuthRotationError | Rejected

text \<open>\<^verbatim>\<open>api.request\<close>; \<open>None\<close>: still waiting when the attempts are used up.\<close>

fun api_request :: "platform \<Rightarrow> attempt list \<Rightarrow> ApiRequestConfig \<Rightarrow> client \<Rightarrow> (request_result \<times> client) option" where
  "api_request pf [] config c = None"
| "api_request pf (a # rest) config c =
     (let sent = on_request pf config (cl_world c);
          c = at_pending a (c\<lparr>cl_sent := cl_sent c @ [rc_headers sent]\<rparr>) in
      case at_answer a of
        Response data \<Rightarrow>
          (case on_response pf sent data c of
             (Some e, c) \<Rightarrow> Some (RotationFailed e, c)
           | (None, c) \<Rightarrow> Some (Resolved data, c))
      | Failure resp message code \<Rightarrow>
          (case on_response_error pf \<lparr>he_config = Some sent, he_response = resp, he_message = message, he_code = code\<rparr> c of
             (Rethrown, c) \<Rightarrow> Some (Rejected, c)
           | (Awaiting p config', c) \<Rightarrow>
               (case on_refreshed pf (at_outcome a) config' (at_refresh a c) of
                  (Some config'', c) \<Rightarrow> api_request pf rest config'' c
                | (None, c) \<Rightarrow> Some (Rejected, c))))"

section \<open>A request is sent at most twice\<close>

lemma on_error_retried: "authRetry config \<Longrightarrow> he_config err = Some config \<Longrightarrow> fst (on_response_error pf err c) = Rethrown"
  by (simp add: on_response_error_def Let_def)

lemma on_request_flags [simp]:
  "authRetry (on_request pf config w) = authRetry config"
  "skipAuthRefresh (on_request pf config w) = skipAuthRefresh config"
  "skipErrorHandler (on_request pf config w) = skipErrorHandler config"
  by (simp_all add: on_request_def Let_def)

lemma on_error_awaiting:
  "on_response_error pf err c = (Awaiting p config, c') \<Longrightarrow>
     \<exists>cfg. he_config err = Some cfg \<and> \<not> authRetry cfg \<and> \<not> skipAuthRefresh cfg \<and> config = cfg\<lparr>authRetry := True\<rparr> \<and>
       map_option fst (he_response err) = Some 401 \<and> (p, cl_world c') = refreshAuthentication (cl_world c)"
  by (auto simp: on_response_error_def Let_def split: if_splits option.splits prod.splits)

lemma on_refreshed_retry:
  "on_refreshed pf outcome config c = (Some config', c') \<Longrightarrow>
     authRetry config' = authRetry config \<and> c' = c \<and> (\<exists>b. outcome = Authenticated b)"
  by (auto simp: on_refreshed_def split: RefreshOutcome.splits option.splits if_splits)

lemma retried_request:
  assumes "authRetry config"
  shows "api_request pf (a # rest) config c = api_request pf [a] config c \<and> api_request pf [a] config c \<noteq> None"
proof (cases "at_answer a")
  case (Response data)
  then show ?thesis by (simp add: Let_def split: prod.split option.split)
next
  case (Failure resp message code)
  define d where "d = at_pending a (c\<lparr>cl_sent := cl_sent c @ [rc_headers (on_request pf config (cl_world c))]\<rparr>)"
  obtain x where "on_response_error pf \<lparr>he_config = Some (on_request pf config (cl_world c)), he_response = resp,
      he_message = message, he_code = code\<rparr> d = (Rethrown, x)"
    using on_error_retried [of "on_request pf config (cl_world c)"] assms by (metis http_error.select_convs(1)
        on_request_flags(1) prod.collapse)
  with Failure show ?thesis by (simp add: Let_def d_def)
qed

text \<open>C15. A request settles after at most two answers: it is sent again at most once, after a refresh, and
  whatever the server, the refresh and other code do, the second answer settles it.\<close>

theorem request_settles:
  assumes "2 \<le> length attempts"
  shows "\<exists>result c'. api_request pf attempts config c = Some (result, c') \<and>
    api_request pf (take 2 attempts) config c = Some (result, c')"
proof -
  obtain a b rest where attempts: "attempts = a # b # rest"
    using assms by (cases attempts; cases "tl attempts") auto
  have again: "api_request pf (b # rest) config' d = api_request pf [b] config' d \<and>
      api_request pf [b] config' d \<noteq> None"
    if "on_response_error pf err x = (Awaiting p cfg, x')" "on_refreshed pf outcome cfg y = (Some config', d)"
    for config' d err x p cfg x' outcome y
    using on_error_awaiting [OF that(1)] on_refreshed_retry [OF that(2)] by (intro retried_request) auto
  have "api_request pf (a # b # rest) config c = api_request pf [a, b] config c \<and>
      api_request pf [a, b] config c \<noteq> None"
    by (auto simp: api_request.simps(2) [of pf a] Let_def simp del: api_request.simps dest: again
        split: answer.split prod.split option.split error_step.split)
  then show ?thesis by (auto simp: attempts numeral_2_eq_2)
qed

section \<open>Refreshing and retrying\<close>

lemma run_signed_out:
  assumes "run (refresh_runtime e) raceAttempt allow turns w = Some (outcome, w')"
    "outcome = Anonymous \<or> (\<exists>code. outcome = OutOfSync code)"
  shows "user (auth w') = None \<and> session (auth w') = None \<and> accessToken (auth w') = None"
  using assms
proof (induction turns arbitrary: raceAttempt allow w)
  case Nil
  then show ?case by (auto simp: run.simps split: if_splits)
next
  case (Cons t ts)
  have "user (auth w') = None \<and> session (auth w') = None \<and> accessToken (auth w') = None \<or>
      (\<exists>ra al u. run (refresh_runtime e) ra al ts u = Some (outcome, w'))"
    using Cons.prems unfolding run.simps [of "refresh_runtime e" raceAttempt allow "t # ts" w]
    by (auto simp: Let_def reset_def split: if_splits)
  then show ?case
    using Cons.IH Cons.prems(2) by blast
qed

text \<open>C28. A request answered with 401 that is retried carries the new token: once the refresh the
  interceptor awaited has succeeded, the request is sent again, marked so that it is not retried
  a second time, and its Authorization header is the token of the bundle the refresh stored.\<close>

theorem retry_uses_fresh_token:
  assumes "on_response_error pf err c = (Awaiting p config, c1)"
    "runRefresh e turns w = Some (Authenticated b, cl_world c2)"
  shows "\<exists>config'. on_refreshed pf (Authenticated b) config c2 = (Some config', c2) \<and> authRetry config' \<and>
    map_of (rc_headers (on_request pf config' (cl_world c2))) ''Authorization'' = Some (''Bearer '' @ access_token b)"
proof -
  obtain w1 turn where w1: "cl_world c2 = applyAuthBundle b False w1" "bundle_answer b turn"
    using run_Authenticated assms(2) unfolding runRefresh_def createRefreshRunner_def by blast
  then have tok: "accessToken (auth (cl_world c2)) = Some (access_token b)" "access_token b \<noteq> []"
    using bundle_of_ok by (auto simp: setBundle_def bundle_answer_def bundle_ok_def credentials_ok_def)
  show ?thesis
    using on_error_awaiting [OF assms(1)] tok
    by (auto simp: on_refreshed_def on_request_def Let_def update_conv' split: option.split)
qed

text \<open>C30. A session that turns out to be over is not announced: when the refresh that a 401 triggered ends
  without a session, the refresh itself has already cleared the user the interceptor looks at, so it
  shows no message and does not go to the sign-in page.\<close>

theorem expired_session_unannounced:
  assumes "runRefresh e turns w = Some (outcome, cl_world c)"
    "outcome = Anonymous \<or> (\<exists>code. outcome = OutOfSync code)"
  shows "\<not> had_session c \<and> on_refreshed pf outcome config c = (None, c)"
proof -
  have "user (auth (cl_world c)) = None"
    using run_signed_out assms unfolding runRefresh_def createRefreshRunner_def by blast
  then show ?thesis
    using assms(2) by (auto simp: had_session_def on_refreshed_def announce_expiry_def Let_def)
qed

section \<open>Sharing stays within a session\<close>

text \<open>The uses of \<^verbatim>\<open>api.get\<close> over time, with the requests they started, each with the name of the session it
  was started in.\<close>

inductive gets :: "platform \<Rightarrow> client \<Rightarrow> (nat \<times> string) list \<Rightarrow> bool" for pf where
  GetsNone: "cl_inFlight c = [] \<Longrightarrow> gets pf c []"
| GetsNew: "gets pf c begun \<Longrightarrow> api_get pf url config c = ((n, True), c') \<Longrightarrow>
    gets pf c' ((n, session_name (cl_world c)) # begun)"
| GetsShared: "gets pf c begun \<Longrightarrow> api_get pf url config c = ((n, False), c') \<Longrightarrow> gets pf c' begun"
| GetsSettled: "gets pf c begun \<Longrightarrow> gets pf (get_settled key c) begun"
| GetsOther: "gets pf c begun \<Longrightarrow> cl_inFlight c' = cl_inFlight c \<Longrightarrow> cl_started c' = cl_started c \<Longrightarrow> gets pf c' begun"

definition gets_inv :: "client \<Rightarrow> (nat \<times> string) list \<Rightarrow> bool" where
  "gets_inv c begun \<longleftrightarrow> (\<forall>key n. map_of (cl_inFlight c) key = Some n \<longrightarrow>
     n < cl_started c \<and> (\<exists>s. map_of begun n = Some s \<and> prefix (s @ '':'') key))"

lemma request_key_prefix: "prefix (session_name w @ '':'') (request_key pf url config w)"
  by (simp add: request_key_def)

lemma api_get_new:
  "api_get pf url config c = ((n, True), c') \<Longrightarrow> n = cl_started c \<and> cl_started c' = Suc n \<and>
     (cl_inFlight c' = cl_inFlight c \<or>
      cl_inFlight c' = AList.update (request_key pf url config (cl_world c)) n (cl_inFlight c))"
  by (auto simp: api_get_def Let_def split: if_splits option.splits)

lemma api_get_shared:
  "api_get pf url config c = ((n, False), c') \<Longrightarrow>
     c' = c \<and> map_of (cl_inFlight c) (request_key pf url config (cl_world c)) = Some n"
  by (auto simp: api_get_def Let_def split: if_splits option.splits)

lemma gets_inv: "gets pf c begun \<Longrightarrow> gets_inv c begun"
proof (induction rule: gets.induct)
  case (GetsNew c begun url config n c')
  from api_get_new [OF GetsNew(2)] GetsNew(3) request_key_prefix [of "cl_world c" pf url config] show ?case
    by (fastforce simp: gets_inv_def update_conv' split: if_splits)
next
  case (GetsSettled c begun key)
  then show ?case by (auto simp: gets_inv_def get_settled_def delete_conv' restrict_map_def split: if_splits)
qed (auto simp: gets_inv_def dest: api_get_shared)

text \<open>C29. A GET request is shared only within one session: whenever \<^verbatim>\<open>api.get\<close> returns the promise of a
  request in flight, that request was started under the session that is current now, whatever
  sign-ins and sign-outs happened in between; session identifiers are UUIDs and contain no colon.\<close>

theorem get_shared_within_session:
  assumes "gets pf c begun" "api_get pf url config c = ((n, False), c')"
    "\<forall>(m, s) \<in> set begun. CHR '':'' \<notin> set s" "CHR '':'' \<notin> set (session_name (cl_world c))"
  shows "map_of begun n = Some (session_name (cl_world c))"
proof -
  obtain s where s: "map_of begun n = Some s" "prefix (s @ '':'') (request_key pf url config (cl_world c))"
    using gets_inv [OF assms(1)] api_get_shared [OF assms(2)] by (auto simp: gets_inv_def)
  have "CHR '':'' \<notin> set s" using assms(3) map_of_SomeD [OF s(1)] by auto
  with prefix_before_unique [OF s(2) request_key_prefix] assms(4) s(1) show ?thesis by simp
qed

section \<open>Examples\<close>

definition sample_platform :: platform where
  "sample_platform = \<lparr>pf_stringify = \<lambda>_. ''{}'', pf_text = \<lambda>_. ''text'', pf_t = id, pf_locale = None\<rparr>"

definition sample_config :: ApiRequestConfig where
  "sample_config = \<lparr>rc_params = JUndefined, rc_headers = [], skipBusinessError = False, skipErrorHandler = False,
     disableDuplicate = False, skipAuthRefresh = False, authRetry = False, acceptAuthRotation = False\<rparr>"

definition sample_client :: "world \<Rightarrow> client" where
  "sample_client w = \<lparr>cl_world = w, cl_inFlight = [], cl_started = 0, cl_toasts = [], cl_pathname = ''/'',
     cl_replaced = [], cl_sent = []\<rparr>"

definition unauthorized :: attempt where
  "unauthorized = \<lparr>at_pending = id, at_answer = Failure (Some (401, JNull)) JUndefined JUndefined, at_refresh = id,
     at_outcome = Authenticated (bundle_of sample_bundle)\<rparr>"

theorem request_settles_witness:
  "\<exists>result c'. api_request sample_platform [unauthorized, unauthorized] sample_config (sample_client initial_world) =
     Some (result, c')"
  using request_settles [of "[unauthorized, unauthorized]" sample_platform sample_config "sample_client initial_world"]
  by auto

definition sample_error :: http_error where
  "sample_error = \<lparr>he_config = Some sample_config, he_response = Some (401, JNull), he_message = JUndefined,
     he_code = JUndefined\<rparr>"

theorem retry_uses_fresh_token_witness:
  "\<exists>config'. on_refreshed sample_platform (Authenticated (bundle_of sample_bundle)) (sample_config\<lparr>authRetry := True\<rparr>)
       (sample_client (snd (the (runRefresh 0 [success_answer id] initial_world)))) =
     (Some config', sample_client (snd (the (runRefresh 0 [success_answer id] initial_world)))) \<and> authRetry config' \<and>
   map_of (rc_headers (on_request sample_platform config'
       (snd (the (runRefresh 0 [success_answer id] initial_world))))) ''Authorization'' =
     Some (''Bearer '' @ access_token (bundle_of sample_bundle))"
proof -
  let ?w = "snd (the (runRefresh 0 [success_answer id] initial_world))"
  have "runRefresh 0 [success_answer id] initial_world =
      Some (Authenticated (bundle_of sample_bundle), cl_world (sample_client ?w))"
    by (simp add: sample_refresh sample_client_def)
  moreover obtain p c1 where "on_response_error sample_platform sample_error (sample_client initial_world) =
      (Awaiting p (sample_config\<lparr>authRetry := True\<rparr>), c1)"
    by (simp add: on_response_error_def sample_error_def sample_config_def sample_client_def refreshAuthentication_def
        initial_world_def Let_def)
  ultimately show ?thesis
    using retry_uses_fresh_token [of sample_platform sample_error "sample_client initial_world" p
        "sample_config\<lparr>authRetry := True\<rparr>" c1 0 "[success_answer id]" initial_world
        "bundle_of sample_bundle" "sample_client ?w"]
    by (simp add: sample_client_def)
qed

definition refused :: "world turn" where
  "refused = \<lparr>during_request = id, response = \<lparr>status = 401, rdata = JNull, rerror = JUndefined\<rparr>, during_wait = id\<rparr>"

definition signed_in :: world where
  "signed_in = applyAuthBundle (bundle_of sample_bundle) False initial_world"

theorem expired_session_unannounced_witness:
  "had_session (sample_client signed_in) \<and>
   (\<exists>w'. runRefresh 1 [refused] signed_in = Some (Anonymous, w') \<and>
      on_refreshed sample_platform Anonymous sample_config (sample_client w') = (None, sample_client w'))"
proof -
  have had: "had_session (sample_client signed_in)"
    by (simp add: had_session_def sample_client_def signed_in_def setBundle_def)
  obtain w' where run: "runRefresh 1 [refused] signed_in = Some (Anonymous, w')"
    by (simp add: runRefresh_def createRefreshRunner_def run.simps refused_def signed_in_def Let_def
        response_data_def response_code_def initial_world_def)
  then have "runRefresh 1 [refused] signed_in = Some (Anonymous, cl_world (sample_client w'))"
    by (simp add: sample_client_def)
  from expired_session_unannounced [OF this] had run show ?thesis by blast
qed

theorem get_shared_within_session_witness:
  "map_of [(0, ''anonymous'')] (fst (fst (api_get sample_platform ''/u'' sample_config
     (snd (api_get sample_platform ''/u'' sample_config (sample_client initial_world)))))) = Some ''anonymous''"
proof -
  let ?c = "snd (api_get sample_platform ''/u'' sample_config (sample_client initial_world))"
  have first: "api_get sample_platform ''/u'' sample_config (sample_client initial_world) = ((0, True), ?c)"
    and second: "api_get sample_platform ''/u'' sample_config ?c = ((0, False), ?c)"
    by (simp_all add: api_get_def sample_config_def sample_client_def Let_def)
  have name: "session_name (cl_world ?c) = ''anonymous''"
      "session_name (cl_world (sample_client initial_world)) = ''anonymous''"
    by (simp_all add: api_get_def sample_config_def sample_client_def Let_def session_name_def initial_world_def
        initial_auth_def)
  have "gets sample_platform ?c [(0, ''anonymous'')]"
    using GetsNew [OF GetsNone first] name(2) by (simp add: sample_client_def)
  from get_shared_within_session [OF this second] show ?thesis by (simp add: name second)
qed
end
