(* ===== verification/RatioSync.thy ===== *)
theory RatioSync
  imports Prelude
begin

text \<open>
  Choosing upstream prices, \<^verbatim>\<open>src/web/src/features/system-settings/models/upstream-ratio-sync-helpers.ts\<close>:
  which fields of a model are offered, and how selecting and removing fields changes the map of
  resolutions. A plain object is the association list of its properties in insertion order; the
  statements look keys up, so the special place JavaScript gives to integer-like keys is immaterial.
  Prices are \<^typ>\<open>jsval\<close> numbers or strings.
\<close>

type_synonym 'a obj = "(string \<times> 'a) list"

record RatioDifferenceEntry =
  diff_current :: jsval
  upstreams :: "jsval obj"
  confidence :: "bool obj"

type_synonym RatioTypes = "RatioDifferenceEntry obj"
type_synonym Differences = "RatioTypes obj"
type_synonym ResolutionsMap = "jsval obj obj"

record ResolutionSelection =
  sel_model :: string
  sel_type :: string
  sel_value :: jsval
  sel_source :: string

record ResolutionRemoval =
  rem_model :: string
  rem_type :: string

type_synonym ResolutionRemovalPlan = "string list obj"

section \<open>Fields\<close>

definition RATIO_SYNC_FIELDS :: "string list" where
  "RATIO_SYNC_FIELDS = [''model_ratio'', ''completion_ratio'', ''cache_ratio'',
     ''create_cache_ratio'', ''image_ratio'', ''audio_ratio'', ''audio_completion_ratio'']"

definition SYNC_FIELD_ORDER :: "string list" where
  "SYNC_FIELD_ORDER = RATIO_SYNC_FIELDS @ [''model_price'', ''billing_mode'', ''billing_expr'']"

definition NUMERIC_SYNC_FIELDS :: "string list" where
  "NUMERIC_SYNC_FIELDS = RATIO_SYNC_FIELDS @ [''model_price'']"

definition RATIO_TYPE_OPTIONS :: "string obj" where
  "RATIO_TYPE_OPTIONS = [
     (''model_ratio'', ''Model ratio''), (''completion_ratio'', ''Completion ratio''),
     (''cache_ratio'', ''Cache ratio''), (''create_cache_ratio'', ''Create cache ratio''),
     (''image_ratio'', ''Image ratio''), (''audio_ratio'', ''Audio ratio''),
     (''audio_completion_ratio'', ''Audio completion ratio''), (''model_price'', ''Fixed price''),
     (''billing_expr'', ''Expression billing'')]"

definition getSyncFieldLabel :: "string \<Rightarrow> (string \<Rightarrow> string) \<Rightarrow> string" where
  "getSyncFieldLabel ratioType t =
     (case map_of RATIO_TYPE_OPTIONS ratioType of Some label \<Rightarrow> t label | None \<Rightarrow> ratioType)"

text \<open>\<^verbatim>\<open>ratioTypes[field]?.upstreams?.[sourceName]\<close>.\<close>

definition upstream_value :: "RatioTypes \<Rightarrow> string \<Rightarrow> string \<Rightarrow> jsval" where
  "upstream_value ratioTypes field sourceName =
     (case map_of ratioTypes field of
        None \<Rightarrow> JUndefined
      | Some e \<Rightarrow> (case map_of (upstreams e) sourceName of None \<Rightarrow> JUndefined | Some v \<Rightarrow> v))"

definition isSelectableUpstreamValue :: "jsval \<Rightarrow> bool" where
  "isSelectableUpstreamValue v \<longleftrightarrow> v \<noteq> JNull \<and> v \<noteq> JUndefined \<and> v \<noteq> JStr ''same''"

definition getOrderedRatioTypes :: "RatioTypes \<Rightarrow> string option \<Rightarrow> string list" where
  "getOrderedRatioTypes ratioTypes flt =
     (let keys = map fst ratioTypes;
          ordered = filter (\<lambda>f. f \<in> set keys) SYNC_FIELD_ORDER @
                    filter (\<lambda>f. f \<notin> set SYNC_FIELD_ORDER) keys in
      case flt of
        None \<Rightarrow> ordered
      | Some f \<Rightarrow> (if f = [] \<or> f = ''__all__'' then ordered else filter (\<lambda>g. g = f) ordered))"

definition getPreferredSyncField :: "RatioTypes \<Rightarrow> string \<Rightarrow> string \<Rightarrow> string" where
  "getPreferredSyncField ratioTypes ratioType sourceName =
     (let exprValue = upstream_value ratioTypes ''billing_expr'' sourceName in
      if ratioType \<noteq> ''billing_expr'' \<and> exprValue \<noteq> JNull \<and> exprValue \<noteq> JUndefined \<and>
         exprValue \<noteq> JStr ''same'' then ''billing_expr''
      else ratioType)"

definition getVisibleRatioTypesForSource :: "RatioTypes \<Rightarrow> string \<Rightarrow> string option \<Rightarrow> string list" where
  "getVisibleRatioTypesForSource ratioTypes sourceName flt =
     filter (\<lambda>rt. getPreferredSyncField ratioTypes rt sourceName = rt)
       (getOrderedRatioTypes ratioTypes flt)"

definition getAlignedRatioTypes :: "RatioTypes \<Rightarrow> string list \<Rightarrow> string option \<Rightarrow> string list" where
  "getAlignedRatioTypes ratioTypes sourceNames flt =
     (let ordered = getOrderedRatioTypes ratioTypes flt in
      if sourceNames = [] then ordered
      else (let visible = unique (concat (map
              (\<lambda>s. getVisibleRatioTypesForSource ratioTypes s flt) sourceNames)) in
            filter (\<lambda>rt. rt \<in> set visible) ordered))"

datatype category = Price | Ratio | Tiered

definition getBillingCategory :: "string \<Rightarrow> category" where
  "getBillingCategory ratioType =
     (if ratioType = ''model_price'' then Price
      else if ratioType = ''billing_mode'' \<or> ratioType = ''billing_expr'' then Tiered
      else Ratio)"

text \<open>\<^verbatim>\<open>Number(v)\<close> of a price: a number is itself; of a string only the ones the server sends are
  read, so the conversion of strings is an argument.\<close>

definition number_of :: "(string \<Rightarrow> jsnum) \<Rightarrow> jsval \<Rightarrow> jsnum" where
  "number_of to_number v = (case v of JNum n \<Rightarrow> n | JStr s \<Rightarrow> to_number s | JNull \<Rightarrow> Fin 0 | _ \<Rightarrow> NaN)"

definition isSelectedResolutionValue ::
  "(string \<Rightarrow> jsnum) \<Rightarrow> ResolutionsMap \<Rightarrow> string \<Rightarrow> string \<Rightarrow> jsval \<Rightarrow> bool" where
  "isSelectedResolutionValue to_number resolutions model ratioType upstreamValue =
     (if \<not> isSelectableUpstreamValue upstreamValue then False
      else (case map_of resolutions model of
        None \<Rightarrow> False
      | Some r \<Rightarrow>
          (case map_of r ratioType of
             None \<Rightarrow> False
           | Some selectedValue \<Rightarrow>
               (if ratioType \<in> set NUMERIC_SYNC_FIELDS then
                  (case (number_of to_number selectedValue, number_of to_number upstreamValue) of
                     (Fin a, Fin b) \<Rightarrow> a = b | _ \<Rightarrow> False)
                else selectedValue = upstreamValue \<and> selectedValue \<noteq> JNum NaN))))"

section \<open>Selecting\<close>

text \<open>\<^verbatim>\<open>modelDiffs || {}\<close>.\<close>

definition model_diffs :: "Differences \<Rightarrow> string \<Rightarrow> RatioTypes" where
  "model_diffs differences model = (case map_of differences model of None \<Rightarrow> [] | Some d \<Rightarrow> d)"

definition resolveResolutionSelection ::
  "Differences \<Rightarrow> ResolutionSelection \<Rightarrow> ResolutionSelection" where
  "resolveResolutionSelection differences s =
     (let diffs = model_diffs differences (sel_model s);
          preferredType = getPreferredSyncField diffs (sel_type s) (sel_source s);
          upstream = upstream_value diffs preferredType (sel_source s);
          preferredValue = (if preferredType = sel_type s then sel_value s
            else if upstream = JNull \<or> upstream = JUndefined then sel_value s else upstream) in
      s\<lparr>sel_type := preferredType, sel_value := preferredValue\<rparr>)"

definition getDraftModelResolution ::
  "ResolutionsMap \<Rightarrow> ResolutionsMap \<Rightarrow> string \<Rightarrow> jsval obj \<times> ResolutionsMap" where
  "getDraftModelResolution drafts resolutions model =
     (case map_of drafts model of
        Some d \<Rightarrow> (d, drafts)
      | None \<Rightarrow>
          (let draft = (case map_of resolutions model of Some r \<Rightarrow> r | None \<Rightarrow> []) in
           (draft, AList.update model draft drafts)))"

text \<open>The changes to one draft: fields of the other billing category go, the field is set, and a
  tiered selection brings its mode and its expression along.\<close>

definition drop_other_category :: "category \<Rightarrow> jsval obj \<Rightarrow> jsval obj" where
  "drop_other_category category res =
     filter (\<lambda>(rt, _). \<not> (category \<noteq> Tiered \<and> getBillingCategory rt \<noteq> Tiered \<and>
                          getBillingCategory rt \<noteq> category)) res"

definition set_tiered_fields ::
  "Differences \<Rightarrow> ResolutionSelection \<Rightarrow> string \<Rightarrow> jsval obj \<Rightarrow> jsval obj" where
  "set_tiered_fields differences s finalType res =
     (if getBillingCategory finalType = Tiered \<and> map_of differences (sel_model s) \<noteq> None then
        (let diffs = model_diffs differences (sel_model s);
             modeVal = upstream_value diffs ''billing_mode'' (sel_source s);
             exprVal = upstream_value diffs ''billing_expr'' (sel_source s);
             res = (if modeVal \<noteq> JUndefined \<and> modeVal \<noteq> JNull \<and> modeVal \<noteq> JStr ''same''
                    then AList.update ''billing_mode'' modeVal res
                    else if finalType = ''billing_expr''
                    then AList.update ''billing_mode'' (JStr ''tiered_expr'') res
                    else res) in
         if exprVal \<noteq> JUndefined \<and> exprVal \<noteq> JNull \<and> exprVal \<noteq> JStr ''same''
         then AList.update ''billing_expr'' exprVal res else res)
      else res)"

definition select_in_draft :: "Differences \<Rightarrow> ResolutionSelection \<Rightarrow> jsval obj \<Rightarrow> jsval obj" where
  "select_in_draft differences s draft =
     (let r = resolveResolutionSelection differences s in
      set_tiered_fields differences s (sel_type r)
        (AList.update (sel_type r) (sel_value r)
          (drop_other_category (getBillingCategory (sel_type r)) draft)))"

definition applyResolutionSelectionToDraft ::
  "ResolutionsMap \<Rightarrow> ResolutionsMap \<Rightarrow> Differences \<Rightarrow> ResolutionSelection \<Rightarrow> ResolutionsMap" where
  "applyResolutionSelectionToDraft drafts resolutions differences s =
     (let (draft, drafts') = getDraftModelResolution drafts resolutions (sel_model s) in
      AList.update (sel_model s) (select_in_draft differences s draft) drafts')"

text \<open>Writing the drafts back: a model left without any field is removed.\<close>

definition write_draft :: "ResolutionsMap \<Rightarrow> string \<times> jsval obj \<Rightarrow> ResolutionsMap" where
  "write_draft next' = (\<lambda>(model, draft).
     if draft = [] then AList.delete model next' else AList.update model draft next')"

definition applyResolutionSelections ::
  "ResolutionsMap \<Rightarrow> Differences \<Rightarrow> ResolutionSelection list \<Rightarrow> ResolutionsMap" where
  "applyResolutionSelections resolutions differences selections =
     (if selections = [] then resolutions
      else (let drafts = foldl (\<lambda>d s. applyResolutionSelectionToDraft d resolutions differences s)
              [] selections in
            foldl write_draft resolutions drafts))"

definition applyResolutionSelection ::
  "ResolutionsMap \<Rightarrow> Differences \<Rightarrow> ResolutionSelection \<Rightarrow> ResolutionsMap" where
  "applyResolutionSelection resolutions differences s =
     applyResolutionSelections resolutions differences [s]"

text \<open>The selections of a bulk choice that survive: a field of one category evicts those of the
  other category chosen before it, and a field chosen again keeps its place with the new value.\<close>

definition selection_key :: "ResolutionSelection \<Rightarrow> string" where
  "selection_key s = sel_model s @ [CHR 0x00] @ sel_type s"

definition add_effective ::
  "Differences \<Rightarrow> ResolutionSelection obj \<Rightarrow> ResolutionSelection \<Rightarrow> ResolutionSelection obj" where
  "add_effective differences effectiveByKey s =
     (let resolved = resolveResolutionSelection differences s;
          category = getBillingCategory (sel_type resolved);
          kept = (if category \<noteq> Tiered then
              filter (\<lambda>(_, ex). \<not> (sel_model ex = sel_model resolved \<and>
                getBillingCategory (sel_type ex) \<noteq> Tiered \<and>
                getBillingCategory (sel_type ex) \<noteq> category)) effectiveByKey
            else effectiveByKey) in
      AList.update (selection_key resolved) resolved kept)"

definition getEffectiveResolutionSelections ::
  "Differences \<Rightarrow> ResolutionSelection list \<Rightarrow> ResolutionSelection list" where
  "getEffectiveResolutionSelections differences selections =
     map snd (foldl (add_effective differences) [] selections)"

section \<open>Removing\<close>

definition remove_field :: "jsval obj \<Rightarrow> string \<Rightarrow> jsval obj" where
  "remove_field draft ratioType =
     (let draft = AList.delete ratioType draft;
          draft = (if ratioType = ''billing_expr'' then AList.delete ''billing_mode'' draft else draft) in
      if ratioType = ''billing_mode'' then AList.delete ''billing_expr'' draft else draft)"

definition applyResolutionRemovalPlan ::
  "ResolutionsMap \<Rightarrow> ResolutionRemovalPlan \<Rightarrow> ResolutionsMap" where
  "applyResolutionRemovalPlan resolutions plan =
     (if plan = [] then resolutions
      else foldl (\<lambda>next' (model, ratioTypes).
        (case map_of resolutions model of
           None \<Rightarrow> next'
         | Some current \<Rightarrow> write_draft next' (model, foldl remove_field current ratioTypes)))
        resolutions plan)"

definition add_removal :: "ResolutionRemovalPlan \<Rightarrow> ResolutionRemoval \<Rightarrow> ResolutionRemovalPlan" where
  "add_removal plan r =
     (case map_of plan (rem_model r) of
        Some ratioTypes \<Rightarrow> AList.update (rem_model r) (set_add (rem_type r) ratioTypes) plan
      | None \<Rightarrow> AList.update (rem_model r) [rem_type r] plan)"

definition applyResolutionRemovals ::
  "ResolutionsMap \<Rightarrow> ResolutionRemoval list \<Rightarrow> ResolutionsMap" where
  "applyResolutionRemovals resolutions removals =
     (if removals = [] then resolutions
      else applyResolutionRemovalPlan resolutions (foldl add_removal [] removals))"

definition deleteResolutionField :: "ResolutionsMap \<Rightarrow> string \<Rightarrow> string \<Rightarrow> ResolutionsMap" where
  "deleteResolutionField resolutions model ratioType =
     applyResolutionRemovals resolutions [\<lparr>rem_model = model, rem_type = ratioType\<rparr>]"


section \<open>Looking fields up\<close>

text \<open>What a resolution map says about a field of a model.\<close>

definition field :: "ResolutionsMap \<Rightarrow> string \<Rightarrow> string \<Rightarrow> jsval option" where
  "field res m k = (case map_of res m of None \<Rightarrow> None | Some r \<Rightarrow> map_of r k)"

definition model_fields :: "ResolutionsMap \<Rightarrow> string \<Rightarrow> jsval obj" where
  "model_fields res m = (case map_of res m of None \<Rightarrow> [] | Some r \<Rightarrow> r)"

lemma field_model_fields: "field res m k = map_of (model_fields res m) k"
  by (simp add: field_def model_fields_def split: option.split)

lemma map_of_write_draft:
  "map_of (write_draft next' (m, d)) k =
     (if k = m then (if d = [] then None else Some d) else map_of next' k)"
  by (auto simp: write_draft_def update_conv' delete_conv')

lemma map_of_write_drafts:
  "distinct (map fst drafts) \<Longrightarrow>
     map_of (foldl write_draft next' drafts) k =
       (case map_of drafts k of None \<Rightarrow> map_of next' k
        | Some d \<Rightarrow> (if d = [] then None else Some d))"
proof (induction drafts arbitrary: next')
  case (Cons p drafts)
  obtain m d where p: "p = (m, d)" by (cases p)
  have "m \<notin> dom (map_of drafts)"
    using Cons.prems p by (simp add: dom_map_of_conv_image_fst)
  then show ?case
    using Cons p by (auto simp: map_of_write_draft domIff split: option.splits)
qed simp

lemma distinct_write_draft:
  "distinct (map fst next') \<Longrightarrow> distinct (map fst (write_draft next' p))"
  by (cases p) (simp add: write_draft_def distinct_update distinct_delete)

lemma distinct_write_drafts:
  "distinct (map fst next') \<Longrightarrow> distinct (map fst (foldl write_draft next' drafts))"
  by (induction drafts arbitrary: next') (simp_all add: distinct_write_draft)

section \<open>A batch of selections\<close>

lemma map_of_draft_step:
  "map_of (applyResolutionSelectionToDraft drafts res dfs s) m =
     (if m = sel_model s
      then Some (select_in_draft dfs s
             (case map_of drafts m of Some d \<Rightarrow> d | None \<Rightarrow> model_fields res m))
      else map_of drafts m)"
  by (auto simp: applyResolutionSelectionToDraft_def getDraftModelResolution_def model_fields_def
      update_conv' split: option.splits)

lemma distinct_draft_step:
  "distinct (map fst drafts) \<Longrightarrow>
     distinct (map fst (applyResolutionSelectionToDraft drafts res dfs s))"
  by (simp add: applyResolutionSelectionToDraft_def getDraftModelResolution_def distinct_update
      split: option.splits)

abbreviation selections_of :: "string \<Rightarrow> ResolutionSelection list \<Rightarrow> ResolutionSelection list" where
  "selections_of m \<equiv> filter (\<lambda>s. sel_model s = m)"

abbreviation select_all :: "Differences \<Rightarrow> jsval obj \<Rightarrow> ResolutionSelection list \<Rightarrow> jsval obj" where
  "select_all dfs \<equiv> foldl (\<lambda>d s. select_in_draft dfs s d)"

lemma map_of_drafts:
  "map_of (foldl (\<lambda>d s. applyResolutionSelectionToDraft d res dfs s) drafts ss) m =
     (if selections_of m ss = [] then map_of drafts m
      else Some (select_all dfs
             (case map_of drafts m of Some d \<Rightarrow> d | None \<Rightarrow> model_fields res m)
             (selections_of m ss)))"
  by (induction ss arbitrary: drafts) (auto simp: map_of_draft_step)

lemma distinct_drafts:
  "distinct (map fst drafts) \<Longrightarrow>
     distinct (map fst (foldl (\<lambda>d s. applyResolutionSelectionToDraft d res dfs s) drafts ss))"
  by (induction ss arbitrary: drafts) (simp_all add: distinct_draft_step)

lemma update_not_Nil [simp]: "AList.update k v xs \<noteq> []"
  by (cases xs) (auto split: if_splits)

lemma select_in_draft_not_Nil: "select_in_draft dfs s d \<noteq> []"
  by (simp add: select_in_draft_def set_tiered_fields_def Let_def)

lemma select_all_not_Nil: "ss \<noteq> [] \<Longrightarrow> select_all dfs d ss \<noteq> []"
  by (cases ss rule: rev_cases) (simp_all add: select_in_draft_not_Nil)

lemma map_of_applyResolutionSelections:
  "map_of (applyResolutionSelections res dfs ss) m =
     (if selections_of m ss = [] then map_of res m
      else Some (select_all dfs (model_fields res m) (selections_of m ss)))"
  by (simp add: applyResolutionSelections_def map_of_write_drafts distinct_drafts map_of_drafts
      select_all_not_Nil)

lemma model_fields_applyResolutionSelections:
  "model_fields (applyResolutionSelections res dfs ss) m =
     select_all dfs (model_fields res m) (selections_of m ss)"
  by (simp add: model_fields_def [of "applyResolutionSelections res dfs ss"]
      map_of_applyResolutionSelections) (simp add: model_fields_def)

lemma map_of_sequential:
  "map_of (foldl (\<lambda>r s. applyResolutionSelection r dfs s) res ss) m =
     map_of (applyResolutionSelections res dfs ss) m"
proof (induction ss arbitrary: res)
  case (Cons s ss)
  show ?case
    using Cons [of "applyResolutionSelection res dfs s"]
    by (simp add: applyResolutionSelection_def map_of_applyResolutionSelections
        model_fields_applyResolutionSelections)
qed (simp add: applyResolutionSelections_def)

text \<open>C35. Applying a batch of selections at once, through the shared drafts, gives for every model
  what applying the selections one after another gives.\<close>

theorem batch_is_sequential:
  "map_of (applyResolutionSelections res dfs ss) =
   map_of (foldl (\<lambda>r s. applyResolutionSelection r dfs s) res ss)"
  by (rule ext) (simp add: map_of_sequential)

section \<open>One selection\<close>

lemma map_of_filter_key:
  "map_of (filter (\<lambda>(k, _). P k) xs) k = (if P k then map_of xs k else None)"
  by (induction xs) auto

lemma map_of_drop_other_category:
  "map_of (drop_other_category c r) k =
     (if c = Tiered \<or> getBillingCategory k \<in> {Tiered, c} then map_of r k else None)"
  unfolding drop_other_category_def by (subst map_of_filter_key) auto

text \<open>The value a resolved selection leaves in its own field: tiered fields prefer what the upstream
  itself offers.\<close>

definition chosen_value :: "Differences \<Rightarrow> ResolutionSelection \<Rightarrow> ResolutionSelection \<Rightarrow> jsval" where
  "chosen_value dfs s r =
     (let u = upstream_value (model_diffs dfs (sel_model s)) (sel_type r) (sel_source s) in
      if getBillingCategory (sel_type r) = Tiered \<and> isSelectableUpstreamValue u then u
      else sel_value r)"

definition chosen_mode :: "Differences \<Rightarrow> ResolutionSelection \<Rightarrow> jsval" where
  "chosen_mode dfs s =
     (let u = upstream_value (model_diffs dfs (sel_model s)) ''billing_mode'' (sel_source s) in
      if isSelectableUpstreamValue u then u else JStr ''tiered_expr'')"

definition selected_field ::
  "Differences \<Rightarrow> ResolutionSelection \<Rightarrow> (string \<Rightarrow> jsval option) \<Rightarrow> string \<Rightarrow> jsval option" where
  "selected_field dfs s old k =
     (let r = resolveResolutionSelection dfs s; c = getBillingCategory (sel_type r) in
      if k = sel_type r then Some (chosen_value dfs s r)
      else if c \<noteq> Tiered then (if getBillingCategory k \<in> {Tiered, c} then old k else None)
      else if k = ''billing_mode'' \<and> map_of dfs (sel_model s) \<noteq> None
      then Some (chosen_mode dfs s)
      else old k)"

lemma preferred_type:
  "getPreferredSyncField rts rt src =
     (if isSelectableUpstreamValue (upstream_value rts ''billing_expr'' src) then ''billing_expr'' else rt)"
  by (auto simp: getPreferredSyncField_def isSelectableUpstreamValue_def Let_def)

lemma resolved_type:
  "sel_type (resolveResolutionSelection dfs s) =
     getPreferredSyncField (model_diffs dfs (sel_model s)) (sel_type s) (sel_source s)"
  by (simp add: resolveResolutionSelection_def Let_def)

lemma resolved_model [simp]: "sel_model (resolveResolutionSelection dfs s) = sel_model s"
  by (simp add: resolveResolutionSelection_def Let_def)

lemma no_diffs_no_value: "map_of dfs m = None \<Longrightarrow> upstream_value (model_diffs dfs m) k src = JUndefined"
  by (simp add: model_diffs_def upstream_value_def)

lemma tiered_iff: "getBillingCategory k = Tiered \<longleftrightarrow> k = ''billing_mode'' \<or> k = ''billing_expr''"
  by (simp add: getBillingCategory_def)

lemma selectable_conv:
  "(v \<noteq> JUndefined \<and> v \<noteq> JNull \<and> v \<noteq> JStr ''same'') = isSelectableUpstreamValue v"
  by (auto simp: isSelectableUpstreamValue_def)

lemma set_tiered_fields_eq:
  "set_tiered_fields dfs s ft res =
     (if getBillingCategory ft = Tiered \<and> map_of dfs (sel_model s) \<noteq> None then
        (let v = upstream_value (model_diffs dfs (sel_model s));
             res = (if isSelectableUpstreamValue (v ''billing_mode'' (sel_source s))
                    then AList.update ''billing_mode'' (v ''billing_mode'' (sel_source s)) res
                    else if ft = ''billing_expr''
                    then AList.update ''billing_mode'' (JStr ''tiered_expr'') res else res) in
         if isSelectableUpstreamValue (v ''billing_expr'' (sel_source s))
         then AList.update ''billing_expr'' (v ''billing_expr'' (sel_source s)) res else res)
      else res)"
  unfolding set_tiered_fields_def Let_def selectable_conv by (rule refl)

lemma map_of_select_in_draft:
  "map_of (select_in_draft dfs s d) k = selected_field dfs s (map_of d) k"
proof -
  define r where "r = resolveResolutionSelection dfs s"
  define v where "v = upstream_value (model_diffs dfs (sel_model s))"
  have pref: "isSelectableUpstreamValue (v ''billing_expr'' (sel_source s)) \<Longrightarrow> sel_type r = ''billing_expr''"
    by (simp add: r_def v_def resolved_type preferred_type)
  have none: "map_of dfs (sel_model s) = None \<Longrightarrow> \<not> isSelectableUpstreamValue (v f src)" for f src
    by (simp add: v_def no_diffs_no_value isSelectableUpstreamValue_def)
  show ?thesis
    using pref none
    unfolding select_in_draft_def selected_field_def set_tiered_fields_eq chosen_value_def
      chosen_mode_def Let_def r_def [symmetric] v_def [symmetric] tiered_iff
    by (auto simp: update_conv' map_of_drop_other_category tiered_iff)
qed

text \<open>Selecting one field: the field the selection resolves to holds the chosen value, the fields
  of the competing category are gone, a tiered choice also sets the billing mode, and nothing else
  of the model and nothing of any other model changes.\<close>

theorem selection_behaviour:
  "field (applyResolutionSelection res dfs s) m k =
     (if m = sel_model s then selected_field dfs s (field res m) k else field res m k)"
proof -
  have "field (applyResolutionSelection res dfs s) m k =
      map_of (select_all dfs (model_fields res m) (selections_of m [s])) k"
    by (simp add: field_model_fields model_fields_applyResolutionSelections
        applyResolutionSelection_def)
  moreover have "field res m = map_of (model_fields res m)"
    by (rule ext) (rule field_model_fields)
  ultimately show ?thesis
    by (auto simp: map_of_select_in_draft)
qed

section \<open>Removals\<close>

lemma remove_field_filter:
  "remove_field d rt = filter (\<lambda>(k, _). \<not> (k = rt \<or>
     getBillingCategory k = Tiered \<and> getBillingCategory rt = Tiered)) d"
  by (auto simp: remove_field_def AList.delete_eq tiered_iff Let_def intro!: filter_cong)

lemma remove_fields_filter:
  "foldl remove_field d rts = filter (\<lambda>(k, _). \<not> (\<exists>rt \<in> set rts. k = rt \<or>
     getBillingCategory k = Tiered \<and> getBillingCategory rt = Tiered)) d"
  by (induction rts arbitrary: d) (auto simp: remove_field_filter intro!: filter_cong)

definition planned :: "ResolutionRemovalPlan \<Rightarrow> string \<Rightarrow> string set" where
  "planned plan m = (case map_of plan m of None \<Rightarrow> {} | Some rts \<Rightarrow> set rts)"

lemma planned_add_removal:
  "planned (add_removal plan r) m = planned plan m \<union> (if rem_model r = m then {rem_type r} else {})"
  by (auto simp: planned_def add_removal_def update_conv' split: option.splits)

lemma planned_removals:
  "planned (foldl add_removal plan rs) m =
     planned plan m \<union> rem_type ` {r \<in> set rs. rem_model r = m}"
  by (induction rs arbitrary: plan) (auto simp: planned_add_removal)

lemma distinct_plan:
  "distinct (map fst plan) \<Longrightarrow> distinct (map fst (foldl add_removal plan rs))"
  by (induction rs arbitrary: plan)
    (simp_all add: add_removal_def distinct_update split: option.split)

text \<open>The plan writes one draft for every planned model the resolutions know.\<close>

definition plan_drafts :: "ResolutionsMap \<Rightarrow> ResolutionRemovalPlan \<Rightarrow> ResolutionsMap" where
  "plan_drafts res plan = map (\<lambda>(m, rts). (m, foldl remove_field (model_fields res m) rts))
     (filter (\<lambda>(m, _). map_of res m \<noteq> None) plan)"

lemma applyResolutionRemovalPlan_drafts:
  "applyResolutionRemovalPlan res plan = foldl write_draft res (plan_drafts res plan)"
proof -
  have "foldl (\<lambda>next' (model, ratioTypes). (case map_of res model of None \<Rightarrow> next'
          | Some current \<Rightarrow> write_draft next' (model, foldl remove_field current ratioTypes))) nx plan =
        foldl write_draft nx (plan_drafts res plan)" for nx
    by (induction plan arbitrary: nx) (auto simp: plan_drafts_def model_fields_def)
  then show ?thesis
    by (auto simp: applyResolutionRemovalPlan_def plan_drafts_def)
qed

lemma map_of_plan_drafts:
  "map_of (plan_drafts res plan) m =
     (case map_of plan m of None \<Rightarrow> None
      | Some rts \<Rightarrow> (if map_of res m = None then None
                    else Some (foldl remove_field (model_fields res m) rts)))"
  by (induction plan) (auto simp: plan_drafts_def split: option.splits if_splits)

lemma distinct_plan_drafts:
  "distinct (map fst plan) \<Longrightarrow> distinct (map fst (plan_drafts res plan))"
proof (induction plan)
  case (Cons p plan)
  have "fst ` set (plan_drafts res plan) \<subseteq> fst ` set plan"
    by (force simp: plan_drafts_def)
  with Cons show ?case
    by (cases p) (auto simp: plan_drafts_def)
qed (simp add: plan_drafts_def)

definition removed :: "ResolutionRemoval list \<Rightarrow> string \<Rightarrow> string \<Rightarrow> bool" where
  "removed rs m k \<longleftrightarrow> list_ex (\<lambda>r. rem_model r = m \<and> (rem_type r = k \<or>
     getBillingCategory k = Tiered \<and> getBillingCategory (rem_type r) = Tiered)) rs"

lemma removed_planned:
  "removed rs m k \<longleftrightarrow> (\<exists>rt \<in> planned (foldl add_removal [] rs) m. k = rt \<or>
     getBillingCategory k = Tiered \<and> getBillingCategory rt = Tiered)"
  by (auto simp: removed_def planned_removals planned_def [of "[]"] list_ex_iff)

lemma model_fields_removals:
  "model_fields (applyResolutionRemovals res rs) m =
     filter (\<lambda>(k, _). \<not> removed rs m k) (model_fields res m)"
proof (cases "rs = []")
  case True
  then show ?thesis by (simp add: applyResolutionRemovals_def removed_def)
next
  case False
  let ?plan = "foldl add_removal [] rs"
  have "map_of (applyResolutionRemovals res rs) m =
     (case map_of (plan_drafts res ?plan) m of None \<Rightarrow> map_of res m
      | Some d \<Rightarrow> (if d = [] then None else Some d))"
    using False by (simp add: applyResolutionRemovals_def applyResolutionRemovalPlan_drafts
        map_of_write_drafts distinct_plan_drafts distinct_plan)
  then show ?thesis
    unfolding removed_planned
    by (auto simp: map_of_plan_drafts remove_fields_filter model_fields_def planned_def
        split: option.splits if_splits)
qed

text \<open>Removing fields: a field is gone exactly when it was named, or when it is one of the billing
  mode and the billing expression and the other one was named; every other field keeps its value.\<close>

theorem removals_behaviour:
  "field (applyResolutionRemovals res rs) m k = (if removed rs m k then None else field res m k)"
  by (simp add: field_model_fields model_fields_removals map_of_filter_key [of "\<lambda>k. \<not> removed rs m k"])

section \<open>The invariant of the resolutions\<close>

definition exclusive :: "jsval obj \<Rightarrow> bool" where
  "exclusive r \<longleftrightarrow> \<not> (list_ex (\<lambda>(k, _). getBillingCategory k = Price) r \<and>
                      list_ex (\<lambda>(k, _). getBillingCategory k = Ratio) r)"

definition has_mode :: "jsval obj \<Rightarrow> bool" where
  "has_mode r \<longleftrightarrow> (''billing_expr'' \<in> fst ` set r \<longrightarrow> ''billing_mode'' \<in> fst ` set r)"

definition fields_ok :: "jsval obj \<Rightarrow> bool" where
  "fields_ok r \<longleftrightarrow> r \<noteq> [] \<and> distinct (map fst r) \<and> exclusive r \<and> has_mode r"

definition resolutions_ok :: "ResolutionsMap \<Rightarrow> bool" where
  "resolutions_ok res \<longleftrightarrow> distinct (map fst res) \<and> list_all (\<lambda>(_, r). fields_ok r) res"

lemma resolutions_okI:
  assumes "distinct (map fst res)" and "\<And>m r. map_of res m = Some r \<Longrightarrow> fields_ok r"
  shows "resolutions_ok res"
  using assms by (auto simp: resolutions_ok_def list_all_iff)

lemma resolutions_okD: "resolutions_ok res \<Longrightarrow> map_of res m = Some r \<Longrightarrow> fields_ok r"
  by (auto simp: resolutions_ok_def list_all_iff dest: map_of_SomeD)

lemma exclusive_lookup:
  "exclusive r \<longleftrightarrow> (\<forall>k k'. map_of r k \<noteq> None \<longrightarrow> map_of r k' \<noteq> None \<longrightarrow>
     \<not> (getBillingCategory k = Price \<and> getBillingCategory k' = Ratio))"
  unfolding exclusive_def list_ex_iff map_of_eq_None_iff by (auto simp: image_iff) force+

lemma has_mode_lookup:
  "has_mode r \<longleftrightarrow> (map_of r ''billing_expr'' \<noteq> None \<longrightarrow> map_of r ''billing_mode'' \<noteq> None)"
  by (simp add: has_mode_def map_of_eq_None_iff)

lemma category_mode [simp]: "getBillingCategory ''billing_mode'' = Tiered"
  by (simp add: getBillingCategory_def)

lemma exclusive_selected: "exclusive d \<Longrightarrow> exclusive (select_in_draft dfs s d)"
  unfolding exclusive_lookup map_of_select_in_draft selected_field_def Let_def
  by (auto split: if_splits)

lemma has_mode_selected:
  "has_mode d \<Longrightarrow> map_of dfs (sel_model s) \<noteq> None \<Longrightarrow> has_mode (select_in_draft dfs s d)"
  unfolding has_mode_lookup map_of_select_in_draft selected_field_def Let_def
  by (auto simp: tiered_iff getBillingCategory_def split: if_splits)

lemma distinct_selected:
  "distinct (map fst d) \<Longrightarrow> distinct (map fst (select_in_draft dfs s d))"
  by (auto simp: select_in_draft_def set_tiered_fields_def drop_other_category_def Let_def
      distinct_map_filter intro!: distinct_update)

lemma fields_ok_selected:
  assumes "distinct (map fst d)" "exclusive d" "has_mode d" "map_of dfs (sel_model s) \<noteq> None"
  shows "fields_ok (select_in_draft dfs s d)"
  using assms by (simp add: fields_ok_def select_in_draft_not_Nil distinct_selected
      exclusive_selected has_mode_selected)

lemma fields_ok_select_all:
  assumes "distinct (map fst d) \<and> exclusive d \<and> has_mode d"
    and "ss \<noteq> []" and "\<forall>s \<in> set ss. map_of dfs (sel_model s) \<noteq> None"
  shows "fields_ok (select_all dfs d ss)"
  using assms
proof (induction ss arbitrary: d)
  case (Cons s ss)
  then have step: "fields_ok (select_in_draft dfs s d)"
    by (simp add: fields_ok_selected)
  show ?case
  proof (cases "ss = []")
    case False
    with step Cons show ?thesis by (simp add: fields_ok_def)
  qed (use step in simp)
qed simp

lemma model_fields_ok:
  "resolutions_ok res \<Longrightarrow>
     distinct (map fst (model_fields res m)) \<and> exclusive (model_fields res m) \<and> has_mode (model_fields res m)"
  using resolutions_okD [of res m]
  by (cases "map_of res m") (simp_all add: model_fields_def fields_ok_def exclusive_def has_mode_def)

lemma selections_keep_ok:
  assumes ok: "resolutions_ok res" and known: "\<forall>s \<in> set ss. map_of dfs (sel_model s) \<noteq> None"
  shows "resolutions_ok (applyResolutionSelections res dfs ss)"
proof (rule resolutions_okI)
  show "distinct (map fst (applyResolutionSelections res dfs ss))"
    using ok by (simp add: applyResolutionSelections_def resolutions_ok_def distinct_write_drafts)
next
  fix m r assume "map_of (applyResolutionSelections res dfs ss) m = Some r"
  then show "fields_ok r"
    using ok known fields_ok_select_all [OF model_fields_ok [OF ok], of "selections_of m ss" dfs m]
    by (auto simp: map_of_applyResolutionSelections dest: resolutions_okD split: if_splits)
qed

lemma removals_keep_ok:
  assumes ok: "resolutions_ok res"
  shows "resolutions_ok (applyResolutionRemovals res rs)"
proof (rule resolutions_okI)
  show "distinct (map fst (applyResolutionRemovals res rs))"
    using ok by (simp add: applyResolutionRemovals_def applyResolutionRemovalPlan_drafts
        resolutions_ok_def distinct_write_drafts)
next
  fix m r assume r: "map_of (applyResolutionRemovals res rs) m = Some r"
  then have eq: "r = filter (\<lambda>(k, _). \<not> removed rs m k) (model_fields res m)"
    using model_fields_removals [of res rs m] by (simp add: model_fields_def)
  have ne: "r \<noteq> []"
    using r ok by (auto simp: applyResolutionRemovals_def applyResolutionRemovalPlan_drafts
        map_of_write_drafts distinct_plan_drafts distinct_plan fields_ok_def
        dest: resolutions_okD split: option.splits if_splits)
  have pair: "removed rs m ''billing_mode'' = removed rs m ''billing_expr''"
    by (auto simp: removed_def list_ex_iff getBillingCategory_def)
  show "fields_ok r"
    using model_fields_ok [OF ok, of m] ne pair
    unfolding fields_ok_def exclusive_lookup has_mode_lookup eq
      map_of_filter_key [of "\<lambda>k. \<not> removed rs m k"]
    by (auto simp: distinct_map_filter split: if_splits)
qed

text \<open>C7. No operation lets a fixed price and a ratio stand side by side for a model: choosing
  fields of models that have differences, and removing any fields, keep every model of the
  resolutions non-empty, free of repeated fields, with a price or ratios but not both, and with a
  billing mode beside every billing expression.\<close>

theorem resolutions_stay_ok:
  assumes "resolutions_ok res" and "\<forall>s \<in> set ss. map_of dfs (sel_model s) \<noteq> None"
  shows "resolutions_ok (applyResolutionSelections res dfs ss) \<and>
         resolutions_ok (applyResolutionRemovals res rs)"
  using selections_keep_ok [OF assms] removals_keep_ok [OF assms(1)] by blast

definition sample_diffs :: Differences where
  "sample_diffs = [(''m'', [
     (''model_price'', \<lparr>diff_current = JNull, upstreams = [(''a'', JNum (Fin 2))], confidence = []\<rparr>),
     (''model_ratio'', \<lparr>diff_current = JNull, upstreams = [(''b'', JNum (Fin 3))], confidence = []\<rparr>)])]"

definition sample_selection :: "string \<Rightarrow> rat \<Rightarrow> string \<Rightarrow> ResolutionSelection" where
  "sample_selection k v src =
     \<lparr>sel_model = ''m'', sel_type = k, sel_value = JNum (Fin v), sel_source = src\<rparr>"

theorem resolutions_stay_ok_witness:
  "resolutions_ok (applyResolutionSelections [(''m'', [(''model_price'', JNum (Fin 1))])] sample_diffs
       [sample_selection ''model_ratio'' 3 ''b'', sample_selection ''model_price'' 2 ''a'']) \<and>
   resolutions_ok (applyResolutionRemovals [(''m'', [(''model_price'', JNum (Fin 1))])]
       [\<lparr>rem_model = ''m'', rem_type = ''model_price''\<rparr>])"
  by (rule resolutions_stay_ok)
    (simp_all add: resolutions_ok_def fields_ok_def exclusive_def has_mode_def sample_diffs_def
      sample_selection_def getBillingCategory_def)

section \<open>Effective selections\<close>

text \<open>A later selection supersedes an earlier one of the same model when it names the same field, or
  when one is a price and the other a ratio.\<close>

definition supersedes :: "ResolutionSelection \<Rightarrow> ResolutionSelection \<Rightarrow> bool" where
  "supersedes t s \<longleftrightarrow> sel_model t = sel_model s \<and>
     (sel_type t = sel_type s \<or>
      getBillingCategory (sel_type t) \<noteq> Tiered \<and> getBillingCategory (sel_type s) \<noteq> Tiered \<and>
      getBillingCategory (sel_type s) \<noteq> getBillingCategory (sel_type t))"

fun surviving :: "ResolutionSelection list \<Rightarrow> ResolutionSelection list" where
  "surviving [] = []"
| "surviving (s # ss) = (if list_ex (\<lambda>t. supersedes t s) ss then surviving ss else s # surviving ss)"

lemma set_surviving_subset: "set (surviving ss) \<subseteq> set ss"
  by (induction ss) auto

lemma surviving_snoc:
  "surviving (ss @ [t]) = filter (\<lambda>s. \<not> supersedes t s) (surviving ss) @ [t]"
  by (induction ss) auto

lemma surviving_pairwise:
  "sorted_wrt (\<lambda>s t. \<not> supersedes t s) (surviving ss)"
  by (induction ss) (use set_surviving_subset in \<open>auto simp: list_ex_iff\<close>)

definition plain_type :: "ResolutionSelection \<Rightarrow> bool" where
  "plain_type s \<longleftrightarrow> CHR 0x00 \<notin> set (sel_type s)"

lemma last_separator:
  "a @ [c] @ b = a' @ [c] @ b' \<Longrightarrow> c \<notin> set b \<Longrightarrow> c \<notin> set b' \<Longrightarrow> a = a' \<and> b = b'"
  by (auto simp: append_eq_append_conv2 append_eq_Cons_conv Cons_eq_append_conv)

lemma selection_key_inj:
  "plain_type s \<Longrightarrow> plain_type t \<Longrightarrow>
     selection_key s = selection_key t \<longleftrightarrow> sel_model s = sel_model t \<and> sel_type s = sel_type t"
  using last_separator [of "sel_model s" "CHR 0x00" "sel_type s" "sel_model t" "sel_type t"]
  by (auto simp: selection_key_def plain_type_def)

lemma plain_resolved: "plain_type s \<Longrightarrow> plain_type (resolveResolutionSelection dfs s)"
  by (simp add: plain_type_def resolved_type preferred_type)

definition keyed :: "ResolutionSelection obj \<Rightarrow> bool" where
  "keyed eff \<longleftrightarrow> distinct (map fst eff) \<and> (\<forall>p \<in> set eff. fst p = selection_key (snd p) \<and> plain_type (snd p))"

lemma set_update_distinct:
  "distinct (map fst xs) \<Longrightarrow> set (AList.update k v xs) = insert (k, v) {p \<in> set xs. fst p \<noteq> k}"
  by (induction xs) (auto simp: rev_image_eqI)

lemma add_effective_step:
  fixes s dfs
  defines "r \<equiv> resolveResolutionSelection dfs s"
  assumes "keyed eff" and "plain_type s"
  shows "keyed (add_effective dfs eff s) \<and>
    snd ` set (add_effective dfs eff s) = insert r {e \<in> snd ` set eff. \<not> supersedes r e}"
proof -
  define kept where "kept = (if getBillingCategory (sel_type r) \<noteq> Tiered then
      filter (\<lambda>(_, ex). \<not> (sel_model ex = sel_model r \<and> getBillingCategory (sel_type ex) \<noteq> Tiered \<and>
        getBillingCategory (sel_type ex) \<noteq> getBillingCategory (sel_type r))) eff else eff)"
  have eff: "add_effective dfs eff s = AList.update (selection_key r) r kept"
    by (simp add: add_effective_def Let_def r_def [symmetric] kept_def)
  have d: "distinct (map fst kept)"
    using assms(2) by (simp add: keyed_def kept_def distinct_map_filter)
  have plain: "plain_type r"
    using assms(3) by (simp add: r_def plain_resolved)
  have sub: "set kept \<subseteq> set eff"
    by (auto simp: kept_def)
  have set: "set (add_effective dfs eff s) =
      insert (selection_key r, r) {p \<in> set kept. fst p \<noteq> selection_key r}"
    by (simp add: eff set_update_distinct [OF d])
  have eff_key: "k = selection_key e" "plain_type e" if "(k, e) \<in> set eff" for k e
    using assms(2) that by (force simp: keyed_def)+
  have "distinct (map fst (add_effective dfs eff s))"
    unfolding eff by (rule distinct_update [OF d])
  moreover have "\<forall>p \<in> set (add_effective dfs eff s). fst p = selection_key (snd p) \<and> plain_type (snd p)"
    using assms(2) plain sub unfolding set keyed_def by (simp del: split_paired_All add: subset_iff)
  ultimately have keyed: "keyed (add_effective dfs eff s)"
    unfolding keyed_def by (rule conjI)
  have "{p \<in> set kept. fst p \<noteq> selection_key r} = {p \<in> set eff. \<not> supersedes r (snd p)}"
  proof -
    have "(k, e) \<in> set kept \<and> k \<noteq> selection_key r \<longleftrightarrow> \<not> supersedes r e" if "(k, e) \<in> set eff" for k e
    proof -
      have "k = selection_key r \<longleftrightarrow> sel_model e = sel_model r \<and> sel_type e = sel_type r"
        unfolding eff_key(1) [OF that] by (rule selection_key_inj [OF eff_key(2) [OF that] plain])
      moreover have "(k, e) \<in> set kept \<longleftrightarrow> \<not> (getBillingCategory (sel_type r) \<noteq> Tiered \<and>
          sel_model e = sel_model r \<and> getBillingCategory (sel_type e) \<noteq> Tiered \<and>
          getBillingCategory (sel_type e) \<noteq> getBillingCategory (sel_type r))"
        using that by (simp add: kept_def)
      ultimately show ?thesis
        unfolding supersedes_def by metis
    qed
    then have "p \<in> set kept \<and> fst p \<noteq> selection_key r \<longleftrightarrow> \<not> supersedes r (snd p)"
      if "p \<in> set eff" for p using that by (cases p) simp
    with sub show ?thesis by blast
  qed
  then have "snd ` set (add_effective dfs eff s) = insert r (snd ` {p \<in> set eff. \<not> supersedes r (snd p)})"
    unfolding set by simp
  moreover have "snd ` {p \<in> set eff. \<not> supersedes r (snd p)} = {e \<in> snd ` set eff. \<not> supersedes r e}"
    by blast
  ultimately show ?thesis using keyed by simp
qed

lemma effective_fold:
  "\<forall>s \<in> set ss. plain_type s \<Longrightarrow>
     keyed (foldl (add_effective dfs) [] ss) \<and>
     snd ` set (foldl (add_effective dfs) [] ss) = set (surviving (map (resolveResolutionSelection dfs) ss))"
proof (induction ss rule: rev_induct)
  case (snoc s ss)
  then show ?case
    using add_effective_step [of "foldl (add_effective dfs) [] ss" s dfs]
    by (auto simp: surviving_snoc)
qed (simp add: keyed_def)

text \<open>The effective selections of a bulk choice are exactly the resolved selections that no later
  one supersedes; no field of a model occurs twice, and a model has no price beside a ratio.\<close>

theorem effective_selections:
  assumes "\<forall>s \<in> set ss. sel_type s \<in> set SYNC_FIELD_ORDER"
  shows "set (getEffectiveResolutionSelections dfs ss) =
           set (surviving (map (resolveResolutionSelection dfs) ss)) \<and>
         distinct (map (\<lambda>s. (sel_model s, sel_type s)) (getEffectiveResolutionSelections dfs ss)) \<and>
         (\<forall>s t. s \<in> set (getEffectiveResolutionSelections dfs ss) \<longrightarrow>
                t \<in> set (getEffectiveResolutionSelections dfs ss) \<longrightarrow> s \<noteq> t \<longrightarrow> \<not> supersedes s t)"
proof -
  have plain: "\<forall>s \<in> set ss. plain_type s"
    using assms by (auto simp: plain_type_def SYNC_FIELD_ORDER_def RATIO_SYNC_FIELDS_def)
  let ?eff = "foldl (add_effective dfs) [] ss" and ?rs = "map (resolveResolutionSelection dfs) ss"
  note fold = effective_fold [OF plain, of dfs]
  have keys: "map fst ?eff = map (selection_key \<circ> snd) ?eff"
    using fold by (auto simp: keyed_def)
  have "distinct (map (selection_key \<circ> snd) ?eff)"
    using fold unfolding keyed_def keys [symmetric] by blast
  then have "distinct (map (\<lambda>s. (sel_model s, sel_type s)) (map snd ?eff))"
    by (auto simp: distinct_map selection_key_def inj_on_def)
  moreover have "\<not> supersedes s t" if "s \<in> set (surviving ?rs)" "t \<in> set (surviving ?rs)" "s \<noteq> t" for s t
    using surviving_pairwise [of ?rs] that
    by (auto simp: sorted_wrt_iff_nth_less in_set_conv_nth supersedes_def) (metis linorder_neqE_nat)+
  ultimately show ?thesis
    using fold by (simp add: getEffectiveResolutionSelections_def)
qed

theorem effective_selections_witness:
  "set (getEffectiveResolutionSelections sample_diffs
     [sample_selection ''model_ratio'' 3 ''b'', sample_selection ''model_price'' 2 ''a'']) =
   {sample_selection ''model_price'' 2 ''a''}"
  using effective_selections [of "[sample_selection ''model_ratio'' 3 ''b'',
      sample_selection ''model_price'' 2 ''a'']" sample_diffs]
  by (simp add: sample_selection_def sample_diffs_def SYNC_FIELD_ORDER_def RATIO_SYNC_FIELDS_def
      resolveResolutionSelection_def getPreferredSyncField_def model_diffs_def upstream_value_def
      supersedes_def getBillingCategory_def)
end
