(* ===== verification/Messages.thy ===== *)
theory Messages
  imports Prelude
begin

text \<open>
  The messages of the playground: the types of \<^verbatim>\<open>src/web/src/features/playground/types.ts\<close> and the
  functions of its \<^verbatim>\<open>lib/message\<close> modules on one message and on a conversation. Fresh identifiers
  (\<^verbatim>\<open>nanoid()\<close>) and the clock (\<^verbatim>\<open>Date.now()\<close>, whole milliseconds) are arguments. An optional flag that
  the code only tests for truth is a \<^typ>\<open>bool\<close>, and \<^verbatim>\<open>null\<close> and a missing field are both \<^term>\<open>None\<close>
  where the code does not tell them apart.
\<close>

section \<open>Types\<close>

datatype MessageRole = User | Assistant | System

datatype MessageStatus = Loading | Streaming | Completed | Failed

record MessageVersion =
  ver_id :: string
  ver_content :: string

record MessageAttachment =
  att_url :: string
  att_mediaType :: "string option"
  att_filename :: "string option"

datatype PlanStepStatus = Pending | InProgress | StepCompleted

record PlanStep =
  step_id :: string
  step_title :: string
  step_status :: PlanStepStatus

datatype ToolEventStatus = Running | Done | ToolError

record ToolEvent =
  te_id :: string
  te_name :: string
  te_status :: ToolEventStatus
  te_summary :: "string option"
  te_error :: "string option"
  te_startedAt :: "int option"
  te_completedAt :: "int option"
  te_anchor :: "int option"
  te_arguments :: "string option"
  te_result :: "string option"
  te_plan :: "PlanStep list option"

record ThoughtBlock =
  th_id :: string
  th_content :: string
  th_anchor :: int
  th_startedAt :: "int option"
  th_completedAt :: "int option"

record Source =
  href :: string
  source_title :: string

record Reasoning =
  rs_content :: string
  rs_duration :: int
  rs_startedAt :: "int option"
  rs_completedAt :: "int option"
  rs_durationMs :: "int option"

record Message =
  key :: string
  from_role :: MessageRole
  versions :: "MessageVersion list"
  attachments :: "MessageAttachment list option"
  createdAt :: "int option"
  startedAt :: "int option"
  completedAt :: "int option"
  durationMs :: "int option"
  sources :: "Source list option"
  toolEvents :: "ToolEvent list option"
  thoughts :: "ThoughtBlock list option"
  plan :: "PlanStep list option"
  activeTool :: "string option"
  reasoning :: "Reasoning option"
  isReasoningStreaming :: bool
  isReasoningComplete :: bool
  isContentComplete :: bool
  status :: "MessageStatus option"
  errorCode :: "string option"

text \<open>The text of \<^verbatim>\<open>constants.ts\<close> that the messages contain.\<close>

definition API_REQUEST_ERROR :: string where "API_REQUEST_ERROR = ''Request error occurred''"
definition PARSE_ERROR :: string where "PARSE_ERROR = ''Error parsing response data''"
definition STREAM_START_ERROR :: string where "STREAM_START_ERROR = ''Error establishing connection''"
definition CONNECTION_CLOSED :: string where "CONNECTION_CLOSED = ''Connection closed''"
definition INTERRUPTED :: string where "INTERRUPTED = ''Generation was interrupted''"

section \<open>One message\<close>

definition createMessageVersion :: "string \<Rightarrow> string \<Rightarrow> MessageVersion" where
  "createMessageVersion fresh content = \<lparr>ver_id = fresh, ver_content = content\<rparr>"

definition getCurrentVersion :: "Message \<Rightarrow> MessageVersion" where
  "getCurrentVersion message = (case versions message of v # _ \<Rightarrow> v
     | [] \<Rightarrow> \<lparr>ver_id = ''default'', ver_content = []\<rparr>)"

definition getMessageContent :: "Message \<Rightarrow> string" where
  "getMessageContent message = ver_content (getCurrentVersion message)"

definition hasMessageContent :: "Message \<Rightarrow> bool" where
  "hasMessageContent message \<longleftrightarrow> trim (getMessageContent message) \<noteq> []"

definition updateCurrentVersionContent :: "Message \<Rightarrow> string \<Rightarrow> Message" where
  "updateCurrentVersionContent message content =
     message\<lparr>versions := [(getCurrentVersion message)\<lparr>ver_content := content\<rparr>]\<rparr>"

definition empty_message :: Message where
  "empty_message = \<lparr>key = [], from_role = User, versions = [], attachments = None, createdAt = None,
     startedAt = None, completedAt = None, durationMs = None, sources = None, toolEvents = None,
     thoughts = None, plan = None, activeTool = None, reasoning = None,
     isReasoningStreaming = False, isReasoningComplete = False, isContentComplete = False,
     status = None, errorCode = None\<rparr>"

definition createUserMessage ::
  "string \<times> string \<Rightarrow> string \<Rightarrow> int \<Rightarrow> MessageAttachment list \<Rightarrow> Message" where
  "createUserMessage ids content stamp atts =
     empty_message\<lparr>key := fst ids, from_role := User,
       versions := [createMessageVersion (snd ids) content],
       attachments := (if atts \<noteq> [] then Some atts else None), createdAt := Some stamp\<rparr>"

definition createLoadingAssistantMessage :: "string \<times> string \<Rightarrow> int \<Rightarrow> Message" where
  "createLoadingAssistantMessage ids stamp =
     empty_message\<lparr>key := fst ids, from_role := Assistant,
       versions := [createMessageVersion (snd ids) []],
       createdAt := Some stamp, startedAt := Some stamp, reasoning := None, isReasoningComplete := False,
       isContentComplete := False, isReasoningStreaming := False, status := Some Loading\<rparr>"

datatype ContentPart = TextPart string | ImagePart string

datatype MessageBody = PlainText string | Parts "ContentPart list"

definition buildMessageContent :: "string \<Rightarrow> string list \<Rightarrow> MessageBody" where
  "buildMessageContent txt imageUrls =
     (let validImages = filter (\<lambda>url. trim url \<noteq> []) imageUrls in
      if validImages = [] then PlainText txt
      else Parts (TextPart txt # map (\<lambda>url. ImagePart (trim url)) validImages))"

fun find_text :: "ContentPart list \<Rightarrow> string" where
  "find_text [] = []"
| "find_text (TextPart s # _) = s"
| "find_text (ImagePart _ # ps) = find_text ps"

fun getTextContent :: "MessageBody \<Rightarrow> string" where
  "getTextContent (PlainText s) = s"
| "getTextContent (Parts ps) = find_text ps"

definition getImageAttachmentUrls :: "Message \<Rightarrow> string list" where
  "getImageAttachmentUrls message =
     map att_url (filter (\<lambda>a. (case att_mediaType a of None \<Rightarrow> True
         | Some t \<Rightarrow> t = [] \<or> prefix ''image/'' t)) (or_empty (attachments message)))"

definition formatMessageForAPI :: "Message \<Rightarrow> MessageRole \<times> MessageBody" where
  "formatMessageForAPI message =
     (from_role message,
      buildMessageContent (getMessageContent message)
        (if from_role message = User then getImageAttachmentUrls message else []))"

definition isValidMessage :: "Message \<Rightarrow> bool" where
  "isValidMessage message =
     (if versions message = [] then False
      else if from_role message = Assistant \<and> \<not> hasMessageContent message then False
      else if from_role message = User \<and> \<not> hasMessageContent message \<and>
              or_empty (attachments message) = [] then False
      else True)"

section \<open>Timing\<close>

definition completeAssistantTiming :: "int \<Rightarrow> Message \<Rightarrow> Message" where
  "completeAssistantTiming now message =
     (if from_role message \<noteq> Assistant then message
      else (let start = or_value (or_else (startedAt message) (createdAt message)) now in
            message\<lparr>startedAt := Some start, completedAt := Some now,
              durationMs := Some (max 0 (now - start))\<rparr>))"

definition startReasoningTiming :: "int \<Rightarrow> Message \<Rightarrow> Reasoning" where
  "startReasoningTiming now message =
     (case reasoning message of
        None \<Rightarrow> \<lparr>rs_content = [], rs_duration = 0, rs_startedAt = Some now, rs_completedAt = None,
                 rs_durationMs = None\<rparr>
      | Some r \<Rightarrow> \<lparr>rs_content = rs_content r, rs_duration = rs_duration r,
                 rs_startedAt = or_else (rs_startedAt r) (Some now),
                 rs_completedAt = rs_completedAt r, rs_durationMs = rs_durationMs r\<rparr>)"

text \<open>\<^verbatim>\<open>Math.ceil(ms / 1000)\<close> of a whole number of milliseconds.\<close>

definition ceil_seconds :: "int \<Rightarrow> int" where
  "ceil_seconds ms = (ms + 999) div 1000"

definition completeReasoningTiming :: "int \<Rightarrow> Message \<Rightarrow> Message" where
  "completeReasoningTiming now message =
     (case reasoning message of
        None \<Rightarrow> message
      | Some r \<Rightarrow>
          (if rs_durationMs r \<noteq> None then message
           else (let start = or_value (or_else (rs_startedAt r) (startedAt message)) now;
                     d = max 0 (now - start) in
                 message\<lparr>reasoning := Some (r\<lparr>rs_startedAt := Some start, rs_completedAt := Some now,
                   rs_durationMs := Some d, rs_duration := ceil_seconds d\<rparr>)\<rparr>)))"

section \<open>Thinking inside the content\<close>

text \<open>\<^verbatim>\<open>indexOf\<close> from a position, as the text before the first occurrence and the text after it.\<close>

fun find_sub :: "string \<Rightarrow> string \<Rightarrow> (string \<times> string) option" where
  "find_sub pat [] = (if pat = [] then Some ([], []) else None)"
| "find_sub pat (c # cs) =
     (if prefix pat (c # cs) then Some ([], drop (length pat) (c # cs))
      else map_option (\<lambda>(before, after). (c # before, after)) (find_sub pat cs))"

definition open_tag :: string where "open_tag = ''<think>''"
definition close_tag :: string where "close_tag = ''</think>''"

lemma tags_not_Nil [simp]: "open_tag \<noteq> []" "close_tag \<noteq> []"
  by (simp_all add: open_tag_def close_tag_def)

lemma find_sub_Some: "find_sub pat s = Some (before, after) \<Longrightarrow> s = before @ pat @ after"
proof (induction pat s arbitrary: before rule: find_sub.induct)
  case (2 pat c cs)
  then show ?case by (auto simp: prefix_def split: if_splits)
qed (auto split: if_splits)

lemma find_sub_shorter:
  "find_sub pat s = Some (before, after) \<Longrightarrow> pat \<noteq> [] \<Longrightarrow> length after < length s"
  by (auto dest: find_sub_Some)

record ParsedThinkTags =
  visibleContent :: string
  tag_reasoning :: string
  hasUnclosedTag :: bool

text \<open>The loop over the content: the argument is the content from \<^verbatim>\<open>currentPos\<close> on.\<close>

function think_loop ::
  "string \<Rightarrow> string list \<Rightarrow> string list \<Rightarrow> string list \<times> string list \<times> bool" where
  "think_loop rest visibleParts reasoningParts =
     (case find_sub open_tag rest of
        None \<Rightarrow> (if rest \<noteq> [] then visibleParts @ [rest] else visibleParts, reasoningParts, False)
      | Some (before, after) \<Rightarrow>
          (let visibleParts = (if before \<noteq> [] then visibleParts @ [before] else visibleParts) in
           case find_sub close_tag after of
             None \<Rightarrow> (visibleParts, reasoningParts @ [after], True)
           | Some (inner, rest') \<Rightarrow> think_loop rest' visibleParts (reasoningParts @ [inner])))"
  by pat_completeness auto

termination
  by (relation "measure (\<lambda>(rest, _, _). length rest)")
    (auto dest!: find_sub_Some)

declare think_loop.simps [simp del]

definition parseThinkTags :: "string \<Rightarrow> ParsedThinkTags" where
  "parseThinkTags content =
     (if \<not> str_includes content open_tag
      then \<lparr>visibleContent = content, tag_reasoning = [], hasUnclosedTag = False\<rparr>
      else (let (vis, reas, unclosed) = think_loop content [] [] in
            \<lparr>visibleContent = trim (concat vis),
             tag_reasoning = trim (join [CHR 0x0A, CHR 0x0A] reas), hasUnclosedTag = unclosed\<rparr>))"

section \<open>Conversations\<close>

definition updateLastAssistantMessage ::
  "Message list \<Rightarrow> (Message \<Rightarrow> Message) \<Rightarrow> Message list" where
  "updateLastAssistantMessage messages updater =
     (if messages = [] then messages
      else if from_role (last messages) \<noteq> Assistant then messages
      else messages[length messages - 1 := updater (last messages)])"

definition updateAssistantMessageWithError ::
  "int \<Rightarrow> Message list \<Rightarrow> string \<Rightarrow> string option \<Rightarrow> string option \<Rightarrow> Message list" where
  "updateAssistantMessageWithError now messages errorMessage code title =
     updateLastAssistantMessage messages (\<lambda>message.
       completeAssistantTiming now
         ((updateCurrentVersionContent message
            (or_value title API_REQUEST_ERROR @ '': '' @ errorMessage))
          \<lparr>status := Some Failed, isReasoningStreaming := False, activeTool := None,
           errorCode := (if code = Some [] then None else code)\<rparr>))"

definition appendUserMessagePair ::
  "(string \<times> string) \<times> (string \<times> string) \<Rightarrow> int \<Rightarrow> Message list \<Rightarrow> string \<Rightarrow>
     MessageAttachment list \<Rightarrow> Message list" where
  "appendUserMessagePair ids now messages content atts =
     messages @ [createUserMessage (fst ids) content now atts,
                 createLoadingAssistantMessage (snd ids) now]"

text \<open>\<^verbatim>\<open>findIndex\<close>, with \<^term>\<open>None\<close> for -1.\<close>

fun find_index :: "('a \<Rightarrow> bool) \<Rightarrow> 'a list \<Rightarrow> nat option" where
  "find_index P [] = None"
| "find_index P (x # xs) = (if P x then Some 0 else map_option Suc (find_index P xs))"

definition createRegeneratedMessages ::
  "string \<times> string \<Rightarrow> int \<Rightarrow> Message list \<Rightarrow> string \<Rightarrow> Message list option" where
  "createRegeneratedMessages ids now messages messageKey =
     (case find_index (\<lambda>m. key m = messageKey) messages of
        None \<Rightarrow> None
      | Some i \<Rightarrow>
          (if from_role (messages ! i) = User
           then Some (take (i + 1) messages @ [createLoadingAssistantMessage ids now])
           else Some (take i messages @ [createLoadingAssistantMessage ids now])))"

definition removeMessageByKey :: "Message list \<Rightarrow> string \<Rightarrow> Message list" where
  "removeMessageByKey messages messageKey = filter (\<lambda>m. key m \<noteq> messageKey) messages"

fun getPreviousUserMessage :: "Message list \<Rightarrow> nat \<Rightarrow> Message option" where
  "getPreviousUserMessage messages 0 = None"
| "getPreviousUserMessage messages (Suc i) =
     (if from_role (messages ! i) = User then Some (messages ! i)
      else getPreviousUserMessage messages i)"

record ApplyMessageEditResult =
  edit_messages :: "Message list"
  shouldSend :: bool

definition applyMessageEdit ::
  "string \<times> string \<Rightarrow> int \<Rightarrow> Message list \<Rightarrow> string \<Rightarrow> string \<Rightarrow> bool \<Rightarrow>
     ApplyMessageEditResult option" where
  "applyMessageEdit ids now messages messageKey content shouldSubmit =
     (case find_index (\<lambda>m. key m = messageKey) messages of
        None \<Rightarrow> None
      | Some i \<Rightarrow>
          (let updated = map (\<lambda>m. if key m = messageKey
               then (updateCurrentVersionContent m content)
                 \<lparr>createdAt := (if shouldSubmit then Some now else createdAt m)\<rparr>
               else m) messages in
           if \<not> shouldSubmit \<or> from_role (updated ! i) \<noteq> User
           then Some \<lparr>edit_messages = updated, shouldSend = False\<rparr>
           else Some \<lparr>edit_messages = take (i + 1) updated @ [createLoadingAssistantMessage ids now],
                      shouldSend = True\<rparr>))"

definition getEditingMessageContent :: "Message list \<Rightarrow> string option \<Rightarrow> string" where
  "getEditingMessageContent messages editingKey =
     (case editingKey of None \<Rightarrow> []
      | Some k \<Rightarrow> (if k = [] then []
          else (case find (\<lambda>m. key m = k) messages of None \<Rightarrow> [] | Some m \<Rightarrow> getMessageContent m)))"

record ChatMessageRenderState =
  alwaysShowActions :: bool
  rst_content :: string
  isEditing :: bool

definition getChatMessageRenderState ::
  "Message list \<Rightarrow> Message \<Rightarrow> nat \<Rightarrow> string option \<Rightarrow> ChatMessageRenderState" where
  "getChatMessageRenderState messages message messageIndex editingKey =
     \<lparr>alwaysShowActions = (int messageIndex = int (length messages) - 1 \<and> from_role message = Assistant),
      rst_content = getMessageContent message, isEditing = (editingKey = Some (key message))\<rparr>"

section \<open>What is shown of a message\<close>

record MessageContentState =
  displayContent :: string
  hasSources :: bool
  isAssistant :: bool
  showLoader :: bool
  showMessageContent :: bool
  shown_sources :: "Source list"
  reasoningContent :: "string option"

definition shouldShowMessageLoader :: "Message \<Rightarrow> bool \<Rightarrow> string \<Rightarrow> bool" where
  "shouldShowMessageLoader message is_assistant versionContent \<longleftrightarrow>
     is_assistant \<and> \<not> isReasoningStreaming message \<and>
     (status message = Some Loading \<or> status message = Some Streaming \<and> versionContent = [])"

definition shouldShowMessageContent :: "Message \<Rightarrow> string \<Rightarrow> bool" where
  "shouldShowMessageContent message versionContent \<longleftrightarrow>
     (from_role message = User \<or> \<not> isReasoningStreaming message) \<and> 0 < length versionContent"

definition getDisplayContent :: "Message \<Rightarrow> string \<Rightarrow> string" where
  "getDisplayContent message versionContent =
     (if from_role message \<noteq> Assistant then versionContent
      else if \<not> str_includes versionContent open_tag then versionContent
      else visibleContent (parseThinkTags versionContent))"

definition getMessageContentState :: "Message \<Rightarrow> string \<Rightarrow> MessageContentState" where
  "getMessageContentState message versionContent =
     (let is_assistant = (from_role message = Assistant);
          srcs = or_empty (sources message);
          reas = (if is_assistant then map_option rs_content (reasoning message) else None) in
      \<lparr>displayContent = getDisplayContent message versionContent, hasSources = (0 < length srcs),
       isAssistant = is_assistant,
       showLoader = shouldShowMessageLoader message is_assistant versionContent,
       showMessageContent = shouldShowMessageContent message versionContent, shown_sources = srcs,
       reasoningContent = (if reas = Some [] then None else reas)\<rparr>)"

record MessageErrorState =
  err_content :: string
  modelPrice :: bool
  showSettingsLink :: bool

definition isErrorMessage :: "Message \<Rightarrow> bool" where
  "isErrorMessage message \<longleftrightarrow> status message = Some Failed"

definition getMessageErrorState :: "Message \<Rightarrow> bool \<Rightarrow> MessageErrorState option" where
  "getMessageErrorState message isAdmin =
     (if \<not> isErrorMessage message then None
      else (let priceError = (errorCode message = Some ''model_price_error'') in
            Some \<lparr>err_content = (if getMessageContent message = [] then ''An unknown error occurred''
                    else getMessageContent message),
                  modelPrice = priceError, showSettingsLink = (priceError \<and> isAdmin)\<rparr>))"

record MessageEditorState =
  canSave :: bool
  hasChanged :: bool
  showSaveAndSubmit :: bool

definition getMessageEditorState :: "Message \<Rightarrow> string \<Rightarrow> string \<Rightarrow> MessageEditorState" where
  "getMessageEditorState message editText originalText =
     \<lparr>canSave = (0 < length (trim editText) \<and> editText \<noteq> originalText),
      hasChanged = (editText \<noteq> originalText), showSaveAndSubmit = (from_role message = User)\<rparr>"


section \<open>The grammar of thinking tags\<close>

text \<open>Content as visible text and thoughts in turn, and how it ends: with visible text, or inside a
  thought whose tag is not closed.\<close>

datatype ending = Tail string | Unclosed string string

fun write_ending :: "ending \<Rightarrow> string" where
  "write_ending (Tail v) = v"
| "write_ending (Unclosed v t) = v @ open_tag @ t"

fun write_content :: "(string \<times> string) list \<Rightarrow> ending \<Rightarrow> string" where
  "write_content [] e = write_ending e"
| "write_content ((v, t) # ps) e = v @ open_tag @ t @ close_tag @ write_content ps e"

fun ending_ok :: "ending \<Rightarrow> bool" where
  "ending_ok (Tail v) = (\<not> str_includes v open_tag)"
| "ending_ok (Unclosed v t) = (\<not> str_includes v open_tag \<and> \<not> str_includes t close_tag)"

definition content_ok :: "(string \<times> string) list \<Rightarrow> ending \<Rightarrow> bool" where
  "content_ok ps e \<longleftrightarrow>
     list_all (\<lambda>(v, t). \<not> str_includes v open_tag \<and> \<not> str_includes t close_tag) ps \<and> ending_ok e"

fun ending_visible :: "ending \<Rightarrow> string" where
  "ending_visible (Tail v) = v"
| "ending_visible (Unclosed v t) = v"

fun ending_thoughts :: "ending \<Rightarrow> string list" where
  "ending_thoughts (Tail v) = []"
| "ending_thoughts (Unclosed v t) = [t]"

definition expected_parse :: "(string \<times> string) list \<Rightarrow> ending \<Rightarrow> ParsedThinkTags" where
  "expected_parse ps e =
     (let vis = concat (map fst ps) @ ending_visible e;
          thoughts = map snd ps @ ending_thoughts e in
      if thoughts = [] then \<lparr>visibleContent = vis, tag_reasoning = [], hasUnclosedTag = False\<rparr>
      else \<lparr>visibleContent = trim vis, tag_reasoning = trim (join [CHR 0x0A, CHR 0x0A] thoughts),
            hasUnclosedTag = (ending_thoughts e \<noteq> [])\<rparr>)"

lemma find_sub_None: "pat \<noteq> [] \<Longrightarrow> find_sub pat s = None \<longleftrightarrow> \<not> str_includes s pat"
  by (induction s) auto

text \<open>A tag starts with a character it does not repeat, so an occurrence cannot straddle the end of
  a text that does not contain the tag.\<close>

lemma no_straddling:
  assumes "c \<notin> set cs" and "\<not> str_includes v (c # cs)" and "v \<noteq> []"
  shows "\<not> prefix (c # cs) (v @ (c # cs) @ rest)"
proof
  assume "prefix (c # cs) (v @ (c # cs) @ rest)"
  then consider "prefix (c # cs) v" | us where "c # cs = v @ us" "us \<noteq> []" "prefix us ((c # cs) @ rest)"
    by (metis prefix_append append_Nil2 prefix_order.order_refl)
  then show False
  proof cases
    case 1
    with assms(2) show False
      by (auto simp: str_includes_iff_sublist)
  next
    case (2 us)
    from 2(2,3) have "hd us = c" by (cases us) auto
    moreover have "hd us \<in> set cs"
      using 2(1,2) assms(3) by (cases v) auto
    ultimately show False using assms(1) by simp
  qed
qed

lemma find_sub_append:
  assumes "c \<notin> set cs" and "\<not> str_includes v (c # cs)"
  shows "find_sub (c # cs) (v @ (c # cs) @ rest) = Some (v, rest)"
  using assms(2)
proof (induction v)
  case Nil
  show ?case by simp
next
  case (Cons x v)
  have "\<not> prefix (c # cs) ((x # v) @ (c # cs) @ rest)"
    by (rule no_straddling [OF assms(1) Cons.prems]) simp
  moreover have "find_sub (c # cs) (v @ (c # cs) @ rest) = Some (v, rest)"
    using Cons by simp
  ultimately show ?case by simp
qed

lemma find_open_tag: "\<not> str_includes v open_tag \<Longrightarrow> find_sub open_tag (v @ open_tag @ rest) = Some (v, rest)"
  unfolding open_tag_def by (rule find_sub_append) simp_all

lemma find_close_tag: "\<not> str_includes t close_tag \<Longrightarrow> find_sub close_tag (t @ close_tag @ rest) = Some (t, rest)"
  unfolding close_tag_def by (rule find_sub_append) simp_all

lemma think_loop_ending:
  assumes "ending_ok e"
  shows "\<exists>vis'. think_loop (write_ending e) vis reas =
      (vis', reas @ ending_thoughts e, ending_thoughts e \<noteq> []) \<and>
    concat vis' = concat vis @ ending_visible e"
proof (cases e)
  case (Tail v)
  with assms have "find_sub open_tag v = None" by (simp add: find_sub_None)
  with Tail show ?thesis by (simp add: think_loop.simps [of v])
next
  case (Unclosed v t)
  with assms have "find_sub open_tag (v @ open_tag @ t) = Some (v, t)" "find_sub close_tag t = None"
    by (simp_all add: find_open_tag find_sub_None)
  with Unclosed show ?thesis by (simp add: think_loop.simps [of "v @ open_tag @ t"])
qed

lemma think_loop_content:
  assumes "content_ok ps e"
  shows "\<exists>vis'. think_loop (write_content ps e) vis reas =
      (vis', reas @ map snd ps @ ending_thoughts e, ending_thoughts e \<noteq> []) \<and>
    concat vis' = concat vis @ concat (map fst ps) @ ending_visible e"
  using assms
proof (induction ps arbitrary: vis reas)
  case Nil
  then show ?case using think_loop_ending by (simp add: content_ok_def)
next
  case (Cons p ps)
  obtain v t where p: "p = (v, t)" by (cases p)
  with Cons.prems have ok: "\<not> str_includes v open_tag" "\<not> str_includes t close_tag" "content_ok ps e"
    by (simp_all add: content_ok_def)
  let ?rest = "write_content ps e" and ?vis = "if v \<noteq> [] then vis @ [v] else vis"
  have "think_loop (write_content (p # ps) e) vis reas = think_loop ?rest ?vis (reas @ [t])"
    using find_open_tag [OF ok(1), of "t @ close_tag @ ?rest"] find_close_tag [OF ok(2), of ?rest]
    by (simp add: p think_loop.simps [of "v @ open_tag @ t @ close_tag @ ?rest"]
        think_loop.simps [of "open_tag @ t @ close_tag @ ?rest"])
  then show ?case
    using Cons.IH [OF ok(3), of ?vis "reas @ [t]"] p by (auto split: if_splits)
qed

lemma write_content_open:
  "map snd ps @ ending_thoughts e \<noteq> [] \<Longrightarrow> str_includes (write_content ps e) open_tag"
proof (cases ps)
  case Nil
  assume "map snd ps @ ending_thoughts e \<noteq> []"
  with Nil obtain v t where "e = Unclosed v t" by (cases e) auto
  with Nil show ?thesis
    by (simp add: str_includes_iff_sublist sublist_appendI)
next
  case (Cons p ps')
  then show ?thesis
    unfolding str_includes_iff_sublist by (cases p) (metis write_content.simps(2) sublist_appendI)
qed

lemma parse_write_content: "content_ok ps e \<Longrightarrow> parseThinkTags (write_content ps e) = expected_parse ps e"
proof (cases "map snd ps @ ending_thoughts e = []")
  case True
  moreover assume "content_ok ps e"
  ultimately show ?thesis
    by (cases e) (simp_all add: parseThinkTags_def expected_parse_def content_ok_def)
next
  case False
  assume "content_ok ps e"
  from think_loop_content [OF this, of "[]" "[]"] obtain vis where
    "think_loop (write_content ps e) [] [] = (vis, map snd ps @ ending_thoughts e, ending_thoughts e \<noteq> [])"
    "concat vis = concat (map fst ps) @ ending_visible e"
    by auto
  with False write_content_open [OF False] show ?thesis
    by (simp add: parseThinkTags_def expected_parse_def del: append_is_Nil_conv)
qed

lemma find_sub_first: "find_sub pat s = Some (b, a) \<Longrightarrow> pat \<noteq> [] \<Longrightarrow> \<not> str_includes b pat"
proof (induction s arbitrary: b)
  case (Cons c cs)
  show ?case
  proof (cases "prefix pat (c # cs)")
    case False
    with Cons.prems obtain b' where b: "b = c # b'" "find_sub pat cs = Some (b', a)"
      by (auto split: if_splits)
    then have "cs = b' @ pat @ a" by (simp add: find_sub_Some)
    with False have "\<not> prefix pat (c # b')" by (metis append_Cons prefix_prefix)
    with b Cons show ?thesis by auto
  qed (use Cons.prems in auto)
qed auto

lemma content_decomposition: "\<exists>ps e. content_ok ps e \<and> s = write_content ps e"
proof (induction s rule: length_induct)
  case (1 s)
  show ?case
  proof (cases "find_sub open_tag s")
    case None
    then have "content_ok [] (Tail s) \<and> s = write_content [] (Tail s)"
      by (simp add: content_ok_def find_sub_None)
    then show ?thesis by blast
  next
    case (Some va)
    obtain v after where va: "va = (v, after)" by (cases va)
    note opened = find_sub_Some [OF Some [unfolded va]] find_sub_first [OF Some [unfolded va]]
    show ?thesis
    proof (cases "find_sub close_tag after")
      case None
      with opened have "content_ok [] (Unclosed v after) \<and> s = write_content [] (Unclosed v after)"
        by (simp add: content_ok_def find_sub_None)
      then show ?thesis by blast
    next
      case (Some tr)
      obtain t rest where tr: "tr = (t, rest)" by (cases tr)
      note closed = find_sub_Some [OF Some [unfolded tr]] find_sub_first [OF Some [unfolded tr]]
      have "length rest < length s" using opened(1) closed(1) by simp
      with 1 obtain ps e where "content_ok ps e" "rest = write_content ps e" by blast
      with opened closed have "content_ok ((v, t) # ps) e \<and> s = write_content ((v, t) # ps) e"
        by (simp add: content_ok_def)
      then show ?thesis by blast
    qed
  qed
qed

text \<open>C37. The thinking tags are parsed as written: content made of visible texts and thoughts in
  turn, closed or left open at the end, is separated into exactly the visible text and the thoughts,
  and every content is made that way.\<close>

theorem think_tags_round_trip:
  "(content_ok ps e \<longrightarrow> parseThinkTags (write_content ps e) = expected_parse ps e) \<and>
   (\<exists>ps e. content_ok ps e \<and> content = write_content ps e)"
  using parse_write_content content_decomposition by blast

theorem think_tags_round_trip_witness:
  "parseThinkTags ''Hi <think>a < b</think>there<think>so'' =
     \<lparr>visibleContent = ''Hi there'', tag_reasoning = ''a < b'' @ [CHR 0x0A, CHR 0x0A] @ ''so'',
      hasUnclosedTag = True\<rparr>"
  using think_tags_round_trip [of "[(''Hi '', ''a < b'')]" "Unclosed ''there'' ''so''" "[]"]
  by (simp add: content_ok_def expected_parse_def trim_by_def is_ws_def open_tag_def close_tag_def)
end
