(* ===== verification/ToolCalls.thy ===== *)
theory ToolCalls
  imports Messages
begin

text \<open>
  Tool calls of the playground (\<^verbatim>\<open>src/web/src/features/playground/lib/tools\<close> and
  \<^verbatim>\<open>lib/model-capabilities.ts\<close>): merging streamed fragments, reading arguments, normalising plans,
  choosing the tools to offer and executing them. The JSON reader and writer of the platform are
  arguments (\<open>json\<close>, \<open>stringify\<close>), and so is the image service.
\<close>

section \<open>Merging streamed fragments\<close>

record ToolCall =
  tc_id :: string
  tc_name :: string
  tc_arguments :: string

text \<open>A fragment: \<open>d_name\<close> and \<open>d_arguments\<close> are the fields of its optional \<^verbatim>\<open>function\<close>. The index is
  a natural number, as the protocol has it.\<close>

record ToolCallDelta =
  d_index :: nat
  d_id :: "string option"
  d_name :: "string option"
  d_arguments :: "string option"

text \<open>Arrays with holes: reading and writing at any index.\<close>

type_synonym 'a sparse = "'a option list"

definition slot :: "'a sparse \<Rightarrow> nat \<Rightarrow> 'a option" where
  "slot xs i = (if i < length xs then xs ! i else None)"

definition set_slot :: "'a sparse \<Rightarrow> nat \<Rightarrow> 'a \<Rightarrow> 'a sparse" where
  "set_slot xs i v =
     (if i < length xs then xs[i := Some v]
      else xs @ replicate (i - length xs) None @ [Some v])"

lemma slot_Nil [simp]: "slot [] i = None"
  by (simp add: slot_def)

lemma slot_set_slot [simp]: "slot (set_slot xs i v) j = (if j = i then Some v else slot xs j)"
  by (auto simp: slot_def set_slot_def nth_append nth_Cons' nth_list_update)

lemma length_set_slot: "length (set_slot xs i v) = max (length xs) (Suc i)"
  by (auto simp: set_slot_def)

text \<open>One fragment, with the identifier \<^verbatim>\<open>nanoid()\<close> would give a call that brings none.\<close>

definition merge_delta :: "string \<times> ToolCallDelta \<Rightarrow> ToolCall option \<Rightarrow> ToolCall" where
  "merge_delta = (\<lambda>(fresh, delta) existing.
     (case existing of
        None \<Rightarrow> \<lparr>tc_id = or_value (d_id delta) (''call_'' @ fresh),
                 tc_name = or_value (d_name delta) [], tc_arguments = or_value (d_arguments delta) []\<rparr>
      | Some call \<Rightarrow> \<lparr>tc_id = or_value (d_id delta) (tc_id call),
                 tc_name = tc_name call @ or_value (d_name delta) [],
                 tc_arguments = tc_arguments call @ or_value (d_arguments delta) []\<rparr>))"

definition mergeToolCallDeltas ::
  "ToolCall sparse \<Rightarrow> (string \<times> ToolCallDelta) list \<Rightarrow> ToolCall sparse" where
  "mergeToolCallDeltas current deltas =
     foldl (\<lambda>merged fd. set_slot merged (d_index (snd fd))
              (merge_delta fd (slot merged (d_index (snd fd))))) current deltas"

section \<open>Arguments\<close>

type_synonym args = "(string \<times> jsval) list"

definition parseToolArguments :: "(string \<Rightarrow> jsval option) \<Rightarrow> string \<Rightarrow> args option" where
  "parseToolArguments json argumentsJson =
     (if trim argumentsJson = [] then Some []
      else (case json argumentsJson of Some (JObj ps) \<Rightarrow> Some ps | _ \<Rightarrow> None))"

definition truncateToolResult :: "string \<Rightarrow> nat \<Rightarrow> string" where
  "truncateToolResult txt maxChars =
     (if length txt \<le> maxChars then txt
      else take maxChars txt @ [CHR 0x0A, CHR 0x0A] @ ''[truncated]'')"

definition getStringArg :: "args \<Rightarrow> string \<Rightarrow> string" where
  "getStringArg args k = (case map_of args k of Some (JStr s) \<Rightarrow> trim s | _ \<Rightarrow> [])"

text \<open>\<^verbatim>\<open>Math.round\<close> rounds half up.\<close>

definition getNumberArg :: "args \<Rightarrow> string \<Rightarrow> int \<Rightarrow> int \<Rightarrow> int \<Rightarrow> int" where
  "getNumberArg args k fallback lo hi =
     (case map_of args k of
        Some (JNum (Fin r)) \<Rightarrow> min hi (max lo \<lfloor>r + 1 / 2\<rfloor>)
      | _ \<Rightarrow> fallback)"

section \<open>Plans\<close>

definition PLAN_STEP_STATUSES :: "(string \<times> PlanStepStatus) list" where
  "PLAN_STEP_STATUSES =
     [(''pending'', Pending), (''in_progress'', InProgress), (''completed'', StepCompleted)]"

definition plan_step_status :: "jsval \<Rightarrow> PlanStepStatus option" where
  "plan_step_status v = (case v of JStr s \<Rightarrow> map_of PLAN_STEP_STATUSES s | _ \<Rightarrow> None)"

definition isPlanStepStatus :: "jsval \<Rightarrow> bool" where
  "isPlanStepStatus v \<longleftrightarrow> plan_step_status v \<noteq> None"

definition step_title_of :: "jsval \<Rightarrow> string" where
  "step_title_of item = (case jprop item ''title'' of JStr s \<Rightarrow> trim s | _ \<Rightarrow> [])"

text \<open>The callback of \<^verbatim>\<open>map\<close> with the flag \<^verbatim>\<open>hasInProgress\<close> it shares, and the filter after it; each
  item comes with the identifier it would be given.\<close>

fun plan_steps :: "bool \<Rightarrow> (string \<times> jsval) list \<Rightarrow> PlanStep list" where
  "plan_steps hasInProgress [] = []"
| "plan_steps hasInProgress ((fresh, item) # items) =
     (if \<not> is_record item then plan_steps hasInProgress items
      else if step_title_of item = [] then plan_steps hasInProgress items
      else (let st = or_value (plan_step_status (jprop item ''status'')) Pending;
                st' = (if st = InProgress \<and> hasInProgress then Pending else st) in
            \<lparr>step_id = fresh, step_title = step_title_of item, step_status = st'\<rparr> #
              plan_steps (hasInProgress \<or> st = InProgress) items))"

definition normalizePlanSteps :: "(nat \<Rightarrow> string) \<Rightarrow> jsval \<Rightarrow> PlanStep list" where
  "normalizePlanSteps fresh input =
     (case input of JArr xs \<Rightarrow> plan_steps False (zip (map fresh [0..<length xs]) xs) | _ \<Rightarrow> [])"

definition getPlanProgress :: "PlanStep list \<Rightarrow> nat \<times> nat" where
  "getPlanProgress steps =
     (length (filter (\<lambda>s. step_status s = StepCompleted) steps), length steps)"

section \<open>Model names\<close>

text \<open>
  The two case-insensitive patterns of \<^verbatim>\<open>model-capabilities.ts\<close>, alternative by alternative: a test
  looks at the code unit before a position and at the text from it on.
\<close>

definition to_lower :: "char \<Rightarrow> char" where
  "to_lower c = (let n = of_char c :: nat in if 65 \<le> n \<and> n \<le> 90 then char_of (n + 32) else c)"

fun scan :: "(char option \<Rightarrow> string \<Rightarrow> bool) \<Rightarrow> char option \<Rightarrow> string \<Rightarrow> bool" where
  "scan f prev [] = f prev []"
| "scan f prev (c # cs) = (f prev (c # cs) \<or> scan f (Some c) cs)"

definition starts_any :: "string list \<Rightarrow> string \<Rightarrow> bool" where
  "starts_any ps s \<longleftrightarrow> list_ex (\<lambda>p. prefix p s) ps"

definition next_char :: "string \<Rightarrow> nat \<Rightarrow> char option" where
  "next_char s i = (if i < length s then Some (s ! i) else None)"

definition NATIVE_THINKING_PATTERN :: "char option \<Rightarrow> string \<Rightarrow> bool" where
  "NATIVE_THINKING_PATTERN prev s \<longleftrightarrow>
     (case prev of None \<Rightarrow> True | Some c \<Rightarrow> c \<in> set ''-_/.'') \<and> starts_any [''o1'', ''o3'', ''o4''] s \<and>
       (case next_char s 2 of None \<Rightarrow> True | Some c \<Rightarrow> c \<in> set ''-_.'') \<or>
     starts_any [''gpt-5'', ''deepseek-r1'', ''qwq'', ''qwen3'', ''thinking'', ''reason'', ''gemini-2.5'',
       ''glm-4.5'', ''glm-4.6'', ''kimi-k2'', ''hunyuan-t1'', ''ernie-x1'', ''seed-1.6'',
       ''doubao-1.5-thinking'', ''doubao-1.6-thinking''] s \<or>
     prefix ''-r1'' s \<and> not_word (next_char s 3)"

definition IMAGE_MODEL_PATTERN :: "char option \<Rightarrow> string \<Rightarrow> bool" where
  "IMAGE_MODEL_PATTERN prev s \<longleftrightarrow>
     starts_any [''dall-e'', ''gpt-image'', ''flux'', ''sdxl'', ''stable-diffusion'', ''imagen'', ''seedream'',
       ''kolors'', ''hunyuan-image'', ''cogview'', ''wanx'', ''qwen-image'', ''midjourney'', ''image''] s \<or>
     not_word prev \<and> prefix ''sd'' s \<and> (case next_char s 2 of None \<Rightarrow> False | Some c \<Rightarrow> is_digit c) \<or>
     not_word prev \<and> prefix ''mj'' s \<and> not_word (next_char s 2) \<or>
     prefix ''doubao'' s \<and> str_includes (takeWhile (\<lambda>c. c \<notin> {CHR 0x0A, CHR 0x0D}) (drop 6 s)) ''image''"

definition supportsNativeThinking :: "string \<Rightarrow> bool" where
  "supportsNativeThinking modelName = scan NATIVE_THINKING_PATTERN None (map to_lower modelName)"

definition isImageCapableModel :: "string \<Rightarrow> bool" where
  "isImageCapableModel modelName = scan IMAGE_MODEL_PATTERN None (map to_lower modelName)"

definition pickImageModel :: "string list \<Rightarrow> string \<Rightarrow> string option" where
  "pickImageModel models currentModel =
     (if isImageCapableModel currentModel then Some currentModel
      else find isImageCapableModel models)"

section \<open>The tools offered to the model\<close>

definition TOOL_DEFINITIONS :: "(string \<times> jsval) list" where
  "TOOL_DEFINITIONS = [
     (''generate_image'', JObj [(''type'', JStr ''function''), (''function'', JObj [
        (''name'', JStr ''generate_image''),
        (''description'', JStr ''Generate an image from a text description with the currently selected model. Use it whenever the user asks to create, draw, or render a picture, or when an image would help answer the request.''),
        (''parameters'', JObj [(''type'', JStr ''object''),
           (''properties'', JObj [(''prompt'', JObj [(''type'', JStr ''string''),
              (''description'', JStr ''Detailed description of the image to generate, in English.'')])]),
           (''required'', JArr [JStr ''prompt''])])])]),
     (''update_plan'', JObj [(''type'', JStr ''function''), (''function'', JObj [
        (''name'', JStr ''update_plan''),
        (''description'', JStr ''Create or replace the step-by-step plan for the current task. Call it before starting multi-step work and again whenever a step is finished or the plan changes. Each call replaces the whole plan, so always include every step with its current status.''),
        (''parameters'', JObj [(''type'', JStr ''object''),
           (''properties'', JObj [(''steps'', JObj [(''type'', JStr ''array''),
              (''description'', JStr ''The full list of plan steps with their status.''),
              (''items'', JObj [(''type'', JStr ''object''),
                 (''properties'', JObj [
                    (''title'', JObj [(''type'', JStr ''string''),
                       (''description'', JStr ''Short description of the step.'')]),
                    (''status'', JObj [(''type'', JStr ''string''),
                       (''enum'', JArr [JStr ''pending'', JStr ''in_progress'', JStr ''completed'']),
                       (''description'', JStr ''Step status. At most one step should be in_progress.'')])]),
                 (''required'', JArr [JStr ''title'', JStr ''status''])])])]),
           (''required'', JArr [JStr ''steps''])])])]),
     (''think'', JObj [(''type'', JStr ''function''), (''function'', JObj [
        (''name'', JStr ''think''),
        (''description'', JStr ''Record your private step-by-step reasoning before acting or answering. The thought is shown to the user in a dedicated thinking block. Call it whenever you need to reason about the task, verify intermediate results, or plan your next move.''),
        (''parameters'', JObj [(''type'', JStr ''object''),
           (''properties'', JObj [(''thought'', JObj [(''type'', JStr ''string''),
              (''description'', JStr ''Your full reasoning for this thinking pass.'')])]),
           (''required'', JArr [JStr ''thought''])])])])]"

definition isPlaygroundToolId :: "string \<Rightarrow> bool" where
  "isPlaygroundToolId name \<longleftrightarrow> name \<in> set (map fst TOOL_DEFINITIONS @ object_prototype_keys)"

definition tool_definition :: "string \<Rightarrow> jsval" where
  "tool_definition toolId = (case map_of TOOL_DEFINITIONS toolId of None \<Rightarrow> JUndefined | Some d \<Rightarrow> d)"

definition buildPlaygroundToolDefinitions :: "(string \<times> bool) list \<Rightarrow> bool \<Rightarrow> jsval list" where
  "buildPlaygroundToolDefinitions toolsEnabled includeThinkTool =
     map tool_definition (map fst (filter snd toolsEnabled)) @
     (if includeThinkTool then [tool_definition ''think''] else [])"

section \<open>Running a tool\<close>

record ToolExecutionOutcome =
  out_content :: string
  out_summary :: "string option"
  out_plan :: "PlanStep list option"
  out_attachments :: "MessageAttachment list option"
  out_sources :: "Source list option"
  out_thought :: "string option"

text \<open>What a call gives: an outcome, the message of the error it throws, or, when the name is none of
  the three of the switch, nothing at all.\<close>

datatype tool_result = Outcome ToolExecutionOutcome | Thrown string | NoOutcome

definition plain_outcome :: "string \<Rightarrow> ToolExecutionOutcome" where
  "plain_outcome content = \<lparr>out_content = content, out_summary = None, out_plan = None,
     out_attachments = None, out_sources = None, out_thought = None\<rparr>"

definition status_name :: "PlanStepStatus \<Rightarrow> string" where
  "status_name st = (case st of Pending \<Rightarrow> ''pending'' | InProgress \<Rightarrow> ''in_progress''
     | StepCompleted \<Rightarrow> ''completed'')"

definition executeThink :: "(jsval \<Rightarrow> string) \<Rightarrow> args \<Rightarrow> tool_result" where
  "executeThink stringify args =
     (let thought = getStringArg args ''thought'' in
      if thought = [] then Thrown ''Invalid tool arguments''
      else Outcome ((plain_outcome (stringify (JObj [(''recorded'', JBool True)])))
             \<lparr>out_thought := Some thought\<rparr>))"

definition executeUpdatePlan ::
  "(jsval \<Rightarrow> string) \<Rightarrow> (nat \<Rightarrow> string) \<Rightarrow> args \<Rightarrow> tool_result" where
  "executeUpdatePlan stringify fresh args =
     (let steps = normalizePlanSteps fresh (jprop (JObj args) ''steps'') in
      if steps = [] then Thrown ''Plan must contain at least one step''
      else Outcome ((plain_outcome (stringify (JObj [(''steps'', JArr (map (\<lambda>s.
               JObj [(''title'', JStr (step_title s)), (''status'', JStr (status_name (step_status s)))])
               steps))])))
             \<lparr>out_summary := Some (show_nat (fst (getPlanProgress steps)) @ ''/'' @ show_nat (length steps)),
              out_plan := Some steps\<rparr>))"

text \<open>Generated images: the answer of the image service is a list of optional addresses and
  base64 payloads.\<close>

definition toDataUrl :: "string option \<Rightarrow> string option" where
  "toDataUrl base64 = (case base64 of None \<Rightarrow> None
     | Some b \<Rightarrow> (if b = [] then None else Some (''data:image/png;base64,'' @ b)))"

definition buildImageFilename :: "string \<Rightarrow> nat \<Rightarrow> string" where
  "buildImageFilename prompt index =
     (let n = take 40 (trim prompt); normalized = (if n = [] then ''image'' else n) in
      if index = 0 then normalized else normalized @ '' ('' @ show_nat (index + 1) @ '')'')"

definition image_url_of :: "string option \<times> string option \<Rightarrow> string option" where
  "image_url_of = (\<lambda>(url, b64).
     (case url of Some u \<Rightarrow> (if u = [] then toDataUrl b64 else Some u) | None \<Rightarrow> toDataUrl b64))"

definition toGeneratedImageAttachments ::
  "(string option \<times> string option) list \<Rightarrow> string \<Rightarrow> MessageAttachment list" where
  "toGeneratedImageAttachments items prompt =
     concat (map (\<lambda>(index, item). (case image_url_of item of None \<Rightarrow> []
        | Some url \<Rightarrow> [\<lparr>att_url = url, att_mediaType = Some ''image/png'',
            att_filename = Some (buildImageFilename prompt index)\<rparr>]))
       (zip [0..<length items] items))"

text \<open>\<open>images model\<close> is what the image service does for a model: its answer, or the message
  \<^verbatim>\<open>parseRequestErrorDetails\<close> reads off the failure. \<open>aborted\<close> says whether the caller has given up when
  a failure arrives.\<close>

type_synonym image_service = "string \<Rightarrow> string + (string option \<times> string option) list"

fun try_candidates ::
  "(jsval \<Rightarrow> string) \<Rightarrow> image_service \<Rightarrow> (string \<Rightarrow> bool) \<Rightarrow> string \<Rightarrow> string list \<Rightarrow> string \<Rightarrow>
     tool_result + string" where
  "try_candidates stringify images aborted prompt [] lastError = Inr lastError"
| "try_candidates stringify images aborted prompt (model # models) lastError =
     (let failed = (\<lambda>msg. if aborted model then Inl (Thrown msg)
                        else try_candidates stringify images aborted prompt models msg) in
      case images model of
        Inl msg \<Rightarrow> failed msg
      | Inr items \<Rightarrow>
          (let atts = toGeneratedImageAttachments items prompt in
           if atts = [] then failed ''The model did not return an image''
           else Inl (Outcome ((plain_outcome (stringify (JObj [
                  (''note'', JStr ''The generated image is displayed to the user in the chat.''),
                  (''model'', JStr model),
                  (''images'', JArr (map (\<lambda>a. JStr (if prefix ''data:'' (att_url a)
                     then ''[inline image]'' else att_url a)) atts))])))
                \<lparr>out_summary := Some prompt, out_attachments := Some atts\<rparr>))))"

definition executeGenerateImage ::
  "(jsval \<Rightarrow> string) \<Rightarrow> image_service \<Rightarrow> (string \<Rightarrow> bool) \<Rightarrow> string \<Rightarrow> string list \<Rightarrow> args \<Rightarrow> tool_result"
  where
  "executeGenerateImage stringify images aborted configModel models args =
     (let prompt = getStringArg args ''prompt'';
          fallbackModel = pickImageModel models configModel in
      if prompt = [] then Thrown ''Missing image prompt''
      else (case try_candidates stringify images aborted prompt
               (configModel # (case fallbackModel of None \<Rightarrow> []
                  | Some m \<Rightarrow> (if m \<noteq> [] \<and> m \<noteq> configModel then [m] else []))) API_REQUEST_ERROR of
              Inl r \<Rightarrow> r
            | Inr lastError \<Rightarrow>
                (if (fallbackModel = None \<or> fallbackModel = Some []) \<and> \<not> isImageCapableModel configModel
                 then Thrown ''No image generation model is available''
                 else Thrown lastError)))"

record tool_context =
  ctx_images :: image_service
  ctx_aborted :: "string \<Rightarrow> bool"
  ctx_model :: string
  ctx_models :: "string list"
  ctx_fresh :: "nat \<Rightarrow> string"

definition executePlaygroundTool ::
  "(string \<Rightarrow> jsval option) \<Rightarrow> (jsval \<Rightarrow> string) \<Rightarrow> string \<Rightarrow> string \<Rightarrow> tool_context \<Rightarrow> tool_result" where
  "executePlaygroundTool json stringify name argumentsJson ctx =
     (case parseToolArguments json argumentsJson of
        None \<Rightarrow> Thrown ''Invalid tool arguments''
      | Some args \<Rightarrow>
          (if name = ''generate_image'' then executeGenerateImage stringify (ctx_images ctx)
               (ctx_aborted ctx) (ctx_model ctx) (ctx_models ctx) args
           else if name = ''update_plan'' then executeUpdatePlan stringify (ctx_fresh ctx) args
           else if name = ''think'' then executeThink stringify args
           else NoOutcome))"

section \<open>Merging is by index\<close>

definition fragments :: "nat \<Rightarrow> (string \<times> ToolCallDelta) list \<Rightarrow> (string \<times> ToolCallDelta) list" where
  "fragments i fds = filter (\<lambda>fd. d_index (snd fd) = i) fds"

definition given_id :: "(string \<times> ToolCallDelta) list \<Rightarrow> string option" where
  "given_id fds = foldl (\<lambda>acc fd. or_else (d_id (snd fd)) acc) None fds"

definition merged_call :: "(string \<times> ToolCallDelta) list \<Rightarrow> ToolCall" where
  "merged_call fds =
     \<lparr>tc_id = or_value (given_id fds) (''call_'' @ fst (hd fds)),
      tc_name = concat (map (\<lambda>fd. or_value (d_name (snd fd)) []) fds),
      tc_arguments = concat (map (\<lambda>fd. or_value (d_arguments (snd fd)) []) fds)\<rparr>"

lemma slot_merge_snoc:
  "slot (mergeToolCallDeltas xs (fds @ [fd])) i =
     (if d_index (snd fd) = i then Some (merge_delta fd (slot (mergeToolCallDeltas xs fds) i))
      else slot (mergeToolCallDeltas xs fds) i)"
  by (simp add: mergeToolCallDeltas_def)

lemma merge_delta_merged_call:
  "merge_delta fd (if fds = [] then None else Some (merged_call fds)) = merged_call (fds @ [fd])"
  by (cases fd; cases "d_id (snd fd)")
    (simp_all add: merge_delta_def merged_call_def given_id_def)

lemma slot_mergeToolCallDeltas:
  "slot (mergeToolCallDeltas [] fds) i =
     (if fragments i fds = [] then None else Some (merged_call (fragments i fds)))"
proof (induction fds rule: rev_induct)
  case Nil
  then show ?case by (simp add: mergeToolCallDeltas_def fragments_def)
next
  case (snoc fd fds)
  then show ?case
    using merge_delta_merged_call [of fd "fragments i fds"]
    by (simp add: slot_merge_snoc) (auto simp: fragments_def)
qed

lemma merge_batches: "foldl mergeToolCallDeltas xs batches = mergeToolCallDeltas xs (concat batches)"
  by (induction batches arbitrary: xs) (simp_all add: mergeToolCallDeltas_def)

text \<open>C40. However the fragments of a stream are batched, the tool call at an index is put together from
  the fragments with that index and no others: its name and its arguments are their concatenation
  in order, and its identifier is the last one given, or a fresh one.\<close>

theorem tool_call_fragments:
  "slot (foldl mergeToolCallDeltas [] batches) i =
     (let fs = fragments i (concat batches) in if fs = [] then None else Some (merged_call fs))"
  by (simp add: merge_batches slot_mergeToolCallDeltas Let_def)

section \<open>Plans are unambiguous\<close>

definition titled :: "jsval \<Rightarrow> bool" where
  "titled item \<longleftrightarrow> is_record item \<and> step_title_of item \<noteq> []"

definition wants_progress :: "jsval \<Rightarrow> bool" where
  "wants_progress item \<longleftrightarrow> plan_step_status (jprop item ''status'') = Some InProgress"

lemma or_value_InProgress: "or_value x Pending = InProgress \<longleftrightarrow> x = Some InProgress"
  by (cases x) simp_all

lemma plan_steps_titles:
  "map step_title (plan_steps b items) = map step_title_of (filter titled (map snd items))"
  by (induction b items rule: plan_steps.induct) (simp_all add: titled_def Let_def)

lemma plan_steps_no_second:
  "s \<in> set (plan_steps True items) \<Longrightarrow> step_status s \<noteq> InProgress"
  by (induction "True" items rule: plan_steps.induct)
    (auto simp: Let_def or_value_InProgress split: if_splits)

lemma plan_steps_progress:
  "map step_status (filter (\<lambda>s. step_status s = InProgress) (plan_steps False items)) =
     (if list_ex (\<lambda>it. titled it \<and> wants_progress it) (map snd items) then [InProgress] else [])"
proof (induction items)
  case (Cons p items)
  obtain fresh item where p: "p = (fresh, item)" by (cases p)
  have none: "filter (\<lambda>s. step_status s = InProgress) (plan_steps True items) = []"
    using plan_steps_no_second by (auto simp: filter_empty_conv)
  show ?case
    using Cons none
    by (auto simp: p titled_def wants_progress_def Let_def or_value_InProgress)
qed simp

lemma trim_step_title: "trim (step_title_of item) = step_title_of item"
  by (cases "jprop item ''title''") (simp_all add: step_title_of_def)

text \<open>A normalised plan has a step, in order, for every titled entry of the payload, no empty title,
  and at most one step in progress: exactly one if some titled entry asks for it.\<close>

theorem plan_is_unambiguous:
  "map step_title (normalizePlanSteps fresh (JArr xs)) = map step_title_of (filter titled xs) \<and>
   (\<forall>s \<in> set (normalizePlanSteps fresh (JArr xs)). step_title s \<noteq> [] \<and> trim (step_title s) = step_title s) \<and>
   length (filter (\<lambda>s. step_status s = InProgress) (normalizePlanSteps fresh (JArr xs))) =
     (if list_ex (\<lambda>it. titled it \<and> wants_progress it) xs then 1 else 0)"
proof -
  let ?items = "zip (map fresh [0..<length xs]) xs"
  have titles: "map step_title (plan_steps False ?items) = map step_title_of (filter titled xs)"
    using plan_steps_titles [of False ?items] by simp
  then have "set (map step_title (plan_steps False ?items)) = step_title_of ` {x \<in> set xs. titled x}"
    by simp
  then have "step_title s \<noteq> [] \<and> trim (step_title s) = step_title s"
    if "s \<in> set (plan_steps False ?items)" for s
    using that by (force simp: titled_def trim_step_title image_iff)
  moreover have "length (filter (\<lambda>s. step_status s = InProgress) (plan_steps False ?items)) =
      (if list_ex (\<lambda>it. titled it \<and> wants_progress it) xs then 1 else 0)"
    using arg_cong [OF plan_steps_progress [of ?items], of length] by simp
  ultimately show ?thesis
    using titles by (simp add: normalizePlanSteps_def)
qed

theorem plan_is_unambiguous_witness:
  "length (filter (\<lambda>s. step_status s = InProgress) (normalizePlanSteps (\<lambda>_. ''x'')
     (JArr [JObj [(''title'', JStr '' a ''), (''status'', JStr ''in_progress'')], JNull,
            JObj [(''title'', JStr ''b''), (''status'', JStr ''in_progress'')]]))) = 1"
  using plan_is_unambiguous [of "\<lambda>_. ''x''"
      "[JObj [(''title'', JStr '' a ''), (''status'', JStr ''in_progress'')], JNull,
        JObj [(''title'', JStr ''b''), (''status'', JStr ''in_progress'')]]"]
  by (simp add: titled_def wants_progress_def step_title_of_def plan_step_status_def
      PLAN_STEP_STATUSES_def trim_by_def is_ws_def)

section \<open>Results of a tool\<close>

lemma getNumberArg_bounds:
  "lo \<le> hi \<Longrightarrow> lo \<le> fallback \<Longrightarrow> fallback \<le> hi \<Longrightarrow>
     lo \<le> getNumberArg args k fallback lo hi \<and> getNumberArg args k fallback lo hi \<le> hi"
  by (simp add: getNumberArg_def split: option.split jsval.split jsnum.split)

lemma length_truncateToolResult: "length (truncateToolResult s n) \<le> n + 13"
  by (simp add: truncateToolResult_def)

text \<open>A name that every object inherits passes for a tool, and its execution gives no outcome.\<close>

lemma inherited_name_is_no_tool:
  "isPlaygroundToolId ''toString'' \<and>
   executePlaygroundTool json stringify ''toString'' [] ctx = NoOutcome"
  by (simp add: isPlaygroundToolId_def object_prototype_keys_def executePlaygroundTool_def
      parseToolArguments_def trim_by_def)
end
