(* ===== verification/MessageStreaming.thy ===== *)
theory MessageStreaming
  imports ToolCalls
begin

text \<open>
  How an assistant message grows and settles: \<^verbatim>\<open>message-streaming-utils.ts\<close> and
  \<^verbatim>\<open>message-tool-utils.ts\<close> of \<^verbatim>\<open>src/web/src/features/playground/lib/message\<close>. The clock is read once per
  call. The properties are about the text a stream leaves behind, the state in which a message
  settles, and the conversation: an assistant message that is still pending is always the last one.
\<close>

section \<open>Streaming\<close>

datatype StreamChunkType = ReasoningChunk | ContentChunk

definition processStreamingContent :: "int \<Rightarrow> Message \<Rightarrow> string option \<Rightarrow> Message" where
  "processStreamingContent now message contentChunk =
     (let fullContent = getMessageContent message @ or_value contentChunk [] in
      if reasoning message = None \<and> \<not> str_includes fullContent open_tag
      then (updateCurrentVersionContent message fullContent)\<lparr>isReasoningStreaming := False\<rparr>
      else (let p = parseThinkTags fullContent;
                finalReasoning = (if tag_reasoning p \<noteq> []
                  then Some ((startReasoningTiming now message)\<lparr>rs_content := tag_reasoning p\<rparr>)
                  else reasoning message) in
            (updateCurrentVersionContent message fullContent)
              \<lparr>reasoning := finalReasoning, isReasoningStreaming := hasUnclosedTag p\<rparr>))"

definition getAppendableChunk :: "string \<Rightarrow> string \<Rightarrow> string" where
  "getAppendableChunk currentContent chunk =
     (if currentContent = [] \<or> \<not> prefix currentContent chunk then chunk
      else drop (length currentContent) chunk)"

definition applyStreamingChunk :: "int \<Rightarrow> Message \<Rightarrow> StreamChunkType \<Rightarrow> string \<Rightarrow> Message" where
  "applyStreamingChunk now message type chunk =
     (if status message = Some Failed then message
      else (case type of
        ReasoningChunk \<Rightarrow>
          (let r = startReasoningTiming now message in
           message\<lparr>reasoning := Some (r\<lparr>rs_content := rs_content r @ getAppendableChunk (rs_content r) chunk\<rparr>),
             isReasoningStreaming := True, activeTool := None, status := Some Streaming\<rparr>)
      | ContentChunk \<Rightarrow>
          (let contentMessage = processStreamingContent now message
                 (Some (getAppendableChunk (getMessageContent message) chunk)) in
           (if isReasoningStreaming contentMessage then contentMessage
            else completeReasoningTiming now contentMessage)
             \<lparr>activeTool := None, status := Some Streaming\<rparr>)))"

section \<open>Settling\<close>

text \<open>\<^verbatim>\<open>a || b\<close> on optional strings: the first that is present and not empty.\<close>

definition first_text :: "string option list \<Rightarrow> string" where
  "first_text xs = (case find (\<lambda>x. x \<noteq> None \<and> x \<noteq> Some []) xs of Some (Some s) \<Rightarrow> s | _ \<Rightarrow> [])"

definition finish_running :: "int \<Rightarrow> ToolEvent \<Rightarrow> ToolEvent" where
  "finish_running now event =
     (if te_status event = Running
      then event\<lparr>te_status := ToolError, te_completedAt := Some now\<rparr> else event)"

definition finalizeMessage :: "int \<Rightarrow> Message \<Rightarrow> string option \<Rightarrow> Message" where
  "finalizeMessage now message apiReasoningContent =
     (let content = getMessageContent message;
          parsed = (if str_includes content open_tag then Some (parseThinkTags content) else None);
          visible = (case parsed of None \<Rightarrow> content | Some p \<Rightarrow> visibleContent p);
          finalReasoning = first_text [apiReasoningContent, map_option rs_content (reasoning message),
            map_option tag_reasoning parsed] in
      completeReasoningTiming now
        ((updateCurrentVersionContent message visible)
           \<lparr>reasoning := (if finalReasoning \<noteq> []
              then Some ((startReasoningTiming now message)\<lparr>rs_content := finalReasoning\<rparr>) else None),
            isReasoningStreaming := False, activeTool := None,
            toolEvents := map_option (map (finish_running now)) (toolEvents message)\<rparr>))"

definition completeAssistantMessage :: "int \<Rightarrow> Message \<Rightarrow> Message" where
  "completeAssistantMessage now message =
     completeAssistantTiming now ((finalizeMessage now message None)\<lparr>status := Some Completed\<rparr>)"

definition isAssistantMessageFinal :: "Message \<Rightarrow> bool" where
  "isAssistantMessageFinal message \<longleftrightarrow> status message = Some Completed \<or> status message = Some Failed"

definition isAssistantMessagePending :: "Message \<Rightarrow> bool" where
  "isAssistantMessagePending message \<longleftrightarrow> status message = Some Loading \<or> status message = Some Streaming"

definition isPendingAssistantMessage :: "Message \<Rightarrow> bool" where
  "isPendingAssistantMessage message \<longleftrightarrow>
     from_role message = Assistant \<and> isAssistantMessagePending message"

text \<open>The part of a response the code reads: for each choice the optional content, reasoning and tool
  calls of its message.\<close>

record ChatCompletionChoice =
  choice_content :: "string option"
  choice_reasoning :: "string option"
  choice_tool_calls :: "ToolCall list option"

type_synonym ChatCompletionResponse = "ChatCompletionChoice list"

definition hasChatCompletionChoice :: "ChatCompletionResponse \<Rightarrow> bool" where
  "hasChatCompletionChoice response \<longleftrightarrow> response \<noteq> []"

definition applyChatCompletionChoice :: "int \<Rightarrow> Message \<Rightarrow> ChatCompletionChoice \<Rightarrow> Message" where
  "applyChatCompletionChoice now message choice =
     completeAssistantTiming now
       ((finalizeMessage now (updateCurrentVersionContent message (or_value (choice_content choice) []))
          (choice_reasoning choice))\<lparr>status := Some Completed\<rparr>)"

definition applyChatCompletionResponse ::
  "int \<Rightarrow> Message \<Rightarrow> ChatCompletionResponse \<Rightarrow> Message option" where
  "applyChatCompletionResponse now message response =
     (case response of [] \<Rightarrow> None | choice # _ \<Rightarrow> Some (applyChatCompletionChoice now message choice))"

text \<open>The loop of \<^verbatim>\<open>sanitizeMessagesOnLoad\<close> from the end; \<open>t\<close> translates the two constants.\<close>

fun last_pending :: "Message list \<Rightarrow> nat \<Rightarrow> nat option" where
  "last_pending messages 0 = None"
| "last_pending messages (Suc i) =
     (if isPendingAssistantMessage (messages ! i) then Some i else last_pending messages i)"

definition sanitize_message :: "int \<Rightarrow> (string \<Rightarrow> string) \<Rightarrow> Message \<Rightarrow> Message" where
  "sanitize_message now t message =
     (let finalized = finalizeMessage now message None in
      if hasMessageContent finalized \<or>
         (case reasoning finalized of None \<Rightarrow> False | Some r \<Rightarrow> trim (rs_content r) \<noteq> [])
      then completeAssistantTiming now
             (finalized\<lparr>status := Some Completed, isReasoningStreaming := False\<rparr>)
      else completeAssistantTiming now
             ((updateCurrentVersionContent finalized (t API_REQUEST_ERROR @ '': '' @ t INTERRUPTED))
               \<lparr>status := Some Failed, isReasoningStreaming := False\<rparr>))"

definition sanitizeMessagesOnLoad ::
  "int \<Rightarrow> (string \<Rightarrow> string) \<Rightarrow> Message list \<Rightarrow> Message list" where
  "sanitizeMessagesOnLoad now t messages =
     (case last_pending messages (length messages) of
        None \<Rightarrow> messages
      | Some i \<Rightarrow> messages[i := sanitize_message now t (messages ! i)])"

section \<open>Tool events\<close>

definition applyToolEventStart :: "Message \<Rightarrow> ToolEvent \<Rightarrow> Message" where
  "applyToolEventStart message event =
     message\<lparr>toolEvents := Some (or_empty (toolEvents message) @
         [event\<lparr>te_anchor := Some (or_value (te_anchor event) (int (length (getMessageContent message))))\<rparr>]),
       activeTool := Some (te_name event)\<rparr>"

record ToolEventFinish =
  fin_done :: bool
  fin_summary :: "string option"
  fin_error :: "string option"
  fin_plan :: "PlanStep list option"
  fin_attachments :: "MessageAttachment list option"
  fin_sources :: "Source list option"
  fin_thought :: "string option"
  fin_result :: "string option"

definition finish_event :: "int \<Rightarrow> ToolEventFinish \<Rightarrow> ToolEvent \<Rightarrow> ToolEvent" where
  "finish_event now finish event =
     event\<lparr>te_status := (if fin_done finish then Done else ToolError),
       te_summary := or_else (fin_summary finish) (te_summary event), te_error := fin_error finish,
       te_completedAt := Some now, te_result := or_else (fin_result finish) (te_result event),
       te_plan := or_else (fin_plan finish) (te_plan event)\<rparr>"

definition add_thought ::
  "string \<Rightarrow> Message \<Rightarrow> ToolEvent option \<Rightarrow> string \<Rightarrow> Message \<Rightarrow> Message" where
  "add_thought fresh message event thought updated =
     updated\<lparr>thoughts := Some (or_empty (thoughts message) @
       [\<lparr>th_id = fresh, th_content = thought,
         th_anchor = or_value (Option.bind event te_anchor) (int (length (getMessageContent message))),
         th_startedAt = Option.bind event te_startedAt,
         th_completedAt = Option.bind event te_completedAt\<rparr>])\<rparr>"

definition applyToolEventFinish ::
  "int \<Rightarrow> string \<Rightarrow> Message \<Rightarrow> string \<Rightarrow> ToolEventFinish \<Rightarrow> Message" where
  "applyToolEventFinish now fresh message toolCallId finish =
     (let events = map (\<lambda>event. if te_id event = toolCallId then finish_event now finish event else event)
            (or_empty (toolEvents message));
          updated = message\<lparr>toolEvents := Some events\<rparr>;
          updated = (case fin_thought finish of
              Some th \<Rightarrow> (if th = [] then updated
                else add_thought fresh message (find (\<lambda>e. te_id e = toolCallId) events) th updated)
            | None \<Rightarrow> updated);
          updated = (case fin_plan finish of Some p \<Rightarrow> updated\<lparr>plan := Some p\<rparr> | None \<Rightarrow> updated);
          updated = (if or_empty (fin_attachments finish) \<noteq> []
            then updated\<lparr>attachments := Some (or_empty (attachments message) @
                   or_empty (fin_attachments finish))\<rparr> else updated) in
      if or_empty (fin_sources finish) \<noteq> []
      then updated\<lparr>sources := Some (or_empty (sources message) @
             filter (\<lambda>s. href s \<notin> set (map href (or_empty (sources message))))
               (or_empty (fin_sources finish)))\<rparr>
      else updated)"

text \<open>The argument of a call shown while it runs, at most 80 characters of it; \<open>ellipsis\<close> is the text
  \<^verbatim>\<open>U+2026\<close> put after a longer one. Keys not in the object read as \<^term>\<open>JUndefined\<close>.\<close>

definition summarizeToolCallArguments :: "string \<Rightarrow> args option \<Rightarrow> string option" where
  "summarizeToolCallArguments ellipsis args =
     (case args of None \<Rightarrow> None
      | Some ps \<Rightarrow>
          (let nullish = (\<lambda>v. v = JUndefined \<or> v = JNull);
               prompt = jprop (JObj ps) ''prompt''; query = jprop (JObj ps) ''query'';
               v = (if \<not> nullish prompt then prompt else if \<not> nullish query then query
                    else jprop (JObj ps) ''url'') in
           case v of
             JStr s \<Rightarrow> (if trim s = [] then None
               else Some (if length (trim s) > 80 then take 80 (trim s) @ ellipsis else trim s))
           | _ \<Rightarrow> None))"

section \<open>The text a stream leaves\<close>

definition reasoning_text :: "Message \<Rightarrow> string" where
  "reasoning_text m = (case reasoning m of None \<Rightarrow> [] | Some r \<Rightarrow> rs_content r)"

named_theorems message_frame \<open>what an operation leaves alone\<close>

lemma content_update [simp]: "getMessageContent (updateCurrentVersionContent m c) = c"
  by (simp add: getMessageContent_def updateCurrentVersionContent_def getCurrentVersion_def)

lemma content_frame [simp]:
  "getMessageContent (m\<lparr>status := st\<rparr>) = getMessageContent m"
  "getMessageContent (m\<lparr>activeTool := tool\<rparr>) = getMessageContent m"
  "getMessageContent (m\<lparr>isReasoningStreaming := b\<rparr>) = getMessageContent m"
  "getMessageContent (m\<lparr>reasoning := r\<rparr>) = getMessageContent m"
  "getMessageContent (m\<lparr>toolEvents := te\<rparr>) = getMessageContent m"
  "getMessageContent (m\<lparr>startedAt := ti\<rparr>) = getMessageContent m"
  "getMessageContent (m\<lparr>completedAt := ti\<rparr>) = getMessageContent m"
  "getMessageContent (m\<lparr>durationMs := ti\<rparr>) = getMessageContent m"
  "getMessageContent (m\<lparr>errorCode := ec\<rparr>) = getMessageContent m"
  by (simp_all add: getMessageContent_def getCurrentVersion_def)

lemma update_frame [message_frame, simp]:
  "key (updateCurrentVersionContent m c) = key m"
  "from_role (updateCurrentVersionContent m c) = from_role m"
  "status (updateCurrentVersionContent m c) = status m"
  "reasoning (updateCurrentVersionContent m c) = reasoning m"
  "toolEvents (updateCurrentVersionContent m c) = toolEvents m"
  "startedAt (updateCurrentVersionContent m c) = startedAt m"
  "createdAt (updateCurrentVersionContent m c) = createdAt m"
  "activeTool (updateCurrentVersionContent m c) = activeTool m"
  "isReasoningStreaming (updateCurrentVersionContent m c) = isReasoningStreaming m"
  by (simp_all add: updateCurrentVersionContent_def)

lemma completeReasoningTiming_frame [message_frame, simp]:
  "key (completeReasoningTiming now m) = key m"
  "from_role (completeReasoningTiming now m) = from_role m"
  "status (completeReasoningTiming now m) = status m"
  "toolEvents (completeReasoningTiming now m) = toolEvents m"
  "activeTool (completeReasoningTiming now m) = activeTool m"
  "isReasoningStreaming (completeReasoningTiming now m) = isReasoningStreaming m"
  "getMessageContent (completeReasoningTiming now m) = getMessageContent m"
  "reasoning_text (completeReasoningTiming now m) = reasoning_text m"
  by (simp_all add: completeReasoningTiming_def reasoning_text_def Let_def split: option.split)

lemma completeAssistantTiming_frame [message_frame, simp]:
  "key (completeAssistantTiming now m) = key m"
  "from_role (completeAssistantTiming now m) = from_role m"
  "status (completeAssistantTiming now m) = status m"
  "toolEvents (completeAssistantTiming now m) = toolEvents m"
  "reasoning (completeAssistantTiming now m) = reasoning m"
  "activeTool (completeAssistantTiming now m) = activeTool m"
  "isReasoningStreaming (completeAssistantTiming now m) = isReasoningStreaming m"
  "getMessageContent (completeAssistantTiming now m) = getMessageContent m"
  by (simp_all add: completeAssistantTiming_def Let_def)

text \<open>What a chunk makes of the text so far: it is appended, unless it repeats all of the text, as the
  chunks of a source that always sends the whole text do.\<close>

definition accumulate :: "string \<Rightarrow> string \<Rightarrow> string" where
  "accumulate cur chunk = (if cur \<noteq> [] \<and> prefix cur chunk then chunk else cur @ chunk)"

lemma accumulate_appendable: "cur @ getAppendableChunk cur chunk = accumulate cur chunk"
  by (auto simp: getAppendableChunk_def accumulate_def prefix_def)

lemma content_processStreamingContent [simp]:
  "getMessageContent (processStreamingContent now m c) = getMessageContent m @ or_value c []"
  by (simp add: processStreamingContent_def Let_def)

lemma processStreamingContent_frame [message_frame, simp]:
  "key (processStreamingContent now m c) = key m"
  "from_role (processStreamingContent now m c) = from_role m"
  "status (processStreamingContent now m c) = status m"
  "toolEvents (processStreamingContent now m c) = toolEvents m"
  by (simp_all add: processStreamingContent_def Let_def)

lemma reasoning_processStreamingContent:
  "\<not> str_includes (getMessageContent m @ or_value c []) open_tag \<Longrightarrow>
     reasoning_text (processStreamingContent now m c) = reasoning_text m"
  by (simp add: processStreamingContent_def Let_def reasoning_text_def parseThinkTags_def)

lemma applyStreamingChunk_failed: "status m = Some Failed \<Longrightarrow> applyStreamingChunk now m ty c = m"
  by (simp add: applyStreamingChunk_def)

lemma applyStreamingChunk_frame [message_frame, simp]:
  "key (applyStreamingChunk now m ty c) = key m"
  "from_role (applyStreamingChunk now m ty c) = from_role m"
  "toolEvents (applyStreamingChunk now m ty c) = toolEvents m"
  by (simp_all add: applyStreamingChunk_def Let_def split: StreamChunkType.split)

lemma status_applyStreamingChunk:
  "status m \<noteq> Some Failed \<Longrightarrow> status (applyStreamingChunk now m ty c) = Some Streaming"
  by (simp add: applyStreamingChunk_def Let_def split: StreamChunkType.split)

lemma content_applyStreamingChunk:
  "status m \<noteq> Some Failed \<Longrightarrow> getMessageContent (applyStreamingChunk now m ty c) =
     (case ty of ReasoningChunk \<Rightarrow> getMessageContent m
      | ContentChunk \<Rightarrow> accumulate (getMessageContent m) c)"
  by (simp add: applyStreamingChunk_def Let_def accumulate_appendable split: StreamChunkType.split)

lemma reasoning_applyStreamingChunk:
  "status m \<noteq> Some Failed \<Longrightarrow>
   \<not> str_includes (getMessageContent (applyStreamingChunk now m ty c)) open_tag \<Longrightarrow>
     reasoning_text (applyStreamingChunk now m ty c) =
     (case ty of ReasoningChunk \<Rightarrow> accumulate (reasoning_text m) c
      | ContentChunk \<Rightarrow> reasoning_text m)"
proof (cases ty)
  case ReasoningChunk
  then show "status m \<noteq> Some Failed \<Longrightarrow> ?thesis"
    by (cases "reasoning m")
      (simp_all add: applyStreamingChunk_def Let_def reasoning_text_def startReasoningTiming_def
        accumulate_appendable)
next
  case ContentChunk
  assume "status m \<noteq> Some Failed" "\<not> str_includes (getMessageContent (applyStreamingChunk now m ty c)) open_tag"
  with ContentChunk have "\<not> str_includes (accumulate (getMessageContent m) c) open_tag"
    by (simp add: content_applyStreamingChunk)
  then have keep: "reasoning_text (processStreamingContent now m
      (Some (getAppendableChunk (getMessageContent m) c))) = reasoning_text m"
    by (simp add: reasoning_processStreamingContent accumulate_appendable)
  have frame: "reasoning_text (x\<lparr>activeTool := None, status := st\<rparr>) = reasoning_text x" for x st
    by (simp add: reasoning_text_def)
  show ?thesis
    using \<open>status m \<noteq> Some Failed\<close> ContentChunk
    by (simp add: applyStreamingChunk_def Let_def frame keep)
qed

abbreviation stream_all :: "Message \<Rightarrow> (int \<times> StreamChunkType \<times> string) list \<Rightarrow> Message" where
  "stream_all \<equiv> foldl (\<lambda>m (now, ty, c). applyStreamingChunk now m ty c)"

definition texts :: "StreamChunkType \<Rightarrow> (int \<times> StreamChunkType \<times> string) list \<Rightarrow> string list" where
  "texts ty cs = map (\<lambda>(_, _, c). c) (filter (\<lambda>(_, ty', _). ty' = ty) cs)"

fun incremental :: "string \<Rightarrow> string list \<Rightarrow> bool" where
  "incremental cur [] = True"
| "incremental cur (c # cs) = ((cur = [] \<or> \<not> prefix cur c) \<and> incremental (cur @ c) cs)"

fun cumulative :: "string \<Rightarrow> string list \<Rightarrow> bool" where
  "cumulative cur [] = True"
| "cumulative cur (c # cs) = (prefix cur c \<and> cumulative c cs)"

lemma accumulate_incremental: "incremental cur cs \<Longrightarrow> foldl accumulate cur cs = cur @ concat cs"
  by (induction cur cs rule: incremental.induct) (auto simp: accumulate_def)

lemma accumulate_cumulative: "cumulative cur cs \<Longrightarrow> cs \<noteq> [] \<Longrightarrow> foldl accumulate cur cs = last cs"
  by (induction cur cs rule: cumulative.induct) (auto simp: accumulate_def)

lemma prefix_accumulate: "prefix cur (accumulate cur c)"
  by (simp add: accumulate_def)

lemma includes_prefix: "prefix xs ys \<Longrightarrow> str_includes xs p \<Longrightarrow> str_includes ys p"
  using str_includes_append [of xs p "[]"] by (auto simp: prefix_def)

lemma texts_simps [simp]:
  "texts ty [] = []"
  "texts ty ((now, ty', c) # cs) = (if ty' = ty then c # texts ty cs else texts ty cs)"
  by (simp_all add: texts_def)

lemma stream_all_not_failed:
  "status m \<noteq> Some Failed \<Longrightarrow> status (stream_all m cs) = (if cs = [] then status m else Some Streaming)"
proof (induction cs arbitrary: m)
  case (Cons x cs)
  obtain now ty c where "x = (now, ty, c)" by (cases x)
  with Cons status_applyStreamingChunk [OF Cons.prems, of now ty c] show ?case by simp
qed simp

lemma stream_all_content:
  "status m \<noteq> Some Failed \<Longrightarrow>
     getMessageContent (stream_all m cs) = foldl accumulate (getMessageContent m) (texts ContentChunk cs)"
proof (induction cs arbitrary: m)
  case (Cons x cs)
  obtain now ty c where "x = (now, ty, c)" by (cases x)
  with Cons status_applyStreamingChunk [OF Cons.prems, of now ty c] show ?case
    by (cases ty) (simp_all add: content_applyStreamingChunk)
qed simp

lemma prefix_foldl_accumulate: "prefix cur (foldl accumulate cur cs)"
  by (induction cs arbitrary: cur) (auto intro: prefix_order.trans [OF prefix_accumulate])

lemma stream_all_reasoning:
  "status m \<noteq> Some Failed \<Longrightarrow> \<not> str_includes (getMessageContent (stream_all m cs)) open_tag \<Longrightarrow>
     reasoning_text (stream_all m cs) = foldl accumulate (reasoning_text m) (texts ReasoningChunk cs)"
proof (induction cs arbitrary: m)
  case (Cons x cs)
  obtain now ty c where x: "x = (now, ty, c)" by (cases x)
  let ?m = "applyStreamingChunk now m ty c"
  have ok: "status ?m \<noteq> Some Failed"
    using status_applyStreamingChunk [OF Cons.prems(1)] by simp
  have "prefix (getMessageContent ?m) (getMessageContent (stream_all ?m cs))"
    by (simp add: stream_all_content [OF ok] prefix_foldl_accumulate)
  then have "\<not> str_includes (getMessageContent ?m) open_tag"
    using Cons.prems(2) x includes_prefix by fastforce
  from reasoning_applyStreamingChunk [OF Cons.prems(1) this] Cons.IH [OF ok] Cons.prems(2)
  show ?case by (cases ty) (simp_all add: x)
qed simp

text \<open>C38. A stream of chunks, content and reasoning in any interleaving, leaves the whole text behind,
  whether its source sends increments (the text is their concatenation) or the whole text so far
  each time (the text is the last chunk); without thinking tags the reasoning is kept apart in the
  same way; and the message is then streaming.\<close>

theorem stream_leaves_text:
  assumes "status m \<noteq> Some Failed"
  shows "(incremental (getMessageContent m) (texts ContentChunk cs) \<longrightarrow>
            getMessageContent (stream_all m cs) = getMessageContent m @ concat (texts ContentChunk cs)) \<and>
         (cumulative (getMessageContent m) (texts ContentChunk cs) \<and> texts ContentChunk cs \<noteq> [] \<longrightarrow>
            getMessageContent (stream_all m cs) = last (texts ContentChunk cs)) \<and>
         (\<not> str_includes (getMessageContent (stream_all m cs)) open_tag \<and>
          incremental (reasoning_text m) (texts ReasoningChunk cs) \<longrightarrow>
            reasoning_text (stream_all m cs) = reasoning_text m @ concat (texts ReasoningChunk cs)) \<and>
         status (stream_all m cs) = (if cs = [] then status m else Some Streaming)"
  using assms by (simp add: stream_all_content stream_all_reasoning stream_all_not_failed
      accumulate_incremental accumulate_cumulative)

theorem stream_leaves_text_witness:
  "getMessageContent (stream_all (createLoadingAssistantMessage (''k'', ''v'') 0)
     [(1, ReasoningChunk, ''hm''), (2, ContentChunk, ''ab''), (3, ContentChunk, ''cd'')]) = ''abcd''"
  using stream_leaves_text [of "createLoadingAssistantMessage (''k'', ''v'') 0"
      "[(1, ReasoningChunk, ''hm''), (2, ContentChunk, ''ab''), (3, ContentChunk, ''cd'')]"]
  by (simp add: createLoadingAssistantMessage_def empty_message_def createMessageVersion_def
      getMessageContent_def getCurrentVersion_def)

text \<open>Increments of which one happens to start with all of the text before it are not told apart
  from a repetition: a text that repeats its first chunk loses it.\<close>

lemma repeated_chunk_lost:
  "getMessageContent (stream_all (createLoadingAssistantMessage ids 0)
     [(1, ContentChunk, ''ha''), (2, ContentChunk, ''ha'')]) = ''ha''"
  by (subst stream_all_content)
    (simp_all add: createLoadingAssistantMessage_def empty_message_def createMessageVersion_def
      getMessageContent_def getCurrentVersion_def accumulate_def)

section \<open>Settled messages\<close>

definition settled :: "Message \<Rightarrow> bool" where
  "settled m \<longleftrightarrow> isAssistantMessageFinal m \<and> \<not> isReasoningStreaming m \<and> activeTool m = None \<and>
     list_all (\<lambda>e. te_status e \<noteq> Running) (or_empty (toolEvents m)) \<and>
     (case reasoning m of None \<Rightarrow> True | Some r \<Rightarrow> rs_durationMs r \<noteq> None)"

lemma finalizeMessage_frame [message_frame, simp]:
  "key (finalizeMessage now m api) = key m"
  "from_role (finalizeMessage now m api) = from_role m"
  "status (finalizeMessage now m api) = status m"
  "activeTool (finalizeMessage now m api) = None"
  "isReasoningStreaming (finalizeMessage now m api) = False"
  "toolEvents (finalizeMessage now m api) = map_option (map (finish_running now)) (toolEvents m)"
  by (simp_all add: finalizeMessage_def Let_def)

lemma reasoning_completed:
  "case reasoning (completeReasoningTiming now m) of None \<Rightarrow> True | Some r \<Rightarrow> rs_durationMs r \<noteq> None"
  by (auto simp: completeReasoningTiming_def Let_def split: option.split)

lemma reasoning_finalized:
  "case reasoning (finalizeMessage now m api) of None \<Rightarrow> True | Some r \<Rightarrow> rs_durationMs r \<noteq> None"
  by (simp only: finalizeMessage_def Let_def reasoning_completed)

lemma no_running: "list_all (\<lambda>e. te_status e \<noteq> Running)
    (or_empty (map_option (map (finish_running now)) evs))"
  by (cases evs) (auto simp: list_all_iff finish_running_def)

lemma settled_finalized:
  assumes "st = Completed \<or> st = Failed"
  shows "settled (completeAssistantTiming now ((finalizeMessage now m api)\<lparr>status := Some st\<rparr>))"
    and "settled (completeAssistantTiming now
      ((finalizeMessage now m api)\<lparr>status := Some st, isReasoningStreaming := False\<rparr>))"
    and "settled (completeAssistantTiming now
      ((updateCurrentVersionContent (finalizeMessage now m api) c)
         \<lparr>status := Some st, isReasoningStreaming := False\<rparr>))"
  using assms reasoning_finalized [of now m api]
  by (auto simp: settled_def isAssistantMessageFinal_def no_running)

lemma content_finalized:
  "getMessageContent (finalizeMessage now m api) =
     (if str_includes (getMessageContent m) open_tag
      then visibleContent (parseThinkTags (getMessageContent m)) else getMessageContent m)"
  by (simp add: finalizeMessage_def Let_def)

lemma sanitize_message_settled: "settled (sanitize_message now t m)"
  by (simp add: sanitize_message_def Let_def settled_finalized)

lemma sanitize_message_frame [message_frame, simp]:
  "key (sanitize_message now t m) = key m" "from_role (sanitize_message now t m) = from_role m"
  by (simp_all add: sanitize_message_def Let_def)

lemma settled_not_pending: "settled m \<Longrightarrow> \<not> isPendingAssistantMessage m"
  by (auto simp: settled_def isAssistantMessageFinal_def isPendingAssistantMessage_def
      isAssistantMessagePending_def)

text \<open>Completing an assistant message settles it: its status is final, nothing of it is still
  running or streaming, a tool event that was running counts as failed and the others are untouched,
  the text kept is the text that was displayed, and its duration is the time since it started.\<close>

theorem completed_message_settled:
  assumes "from_role m = Assistant"
  shows "settled (completeAssistantMessage now m) \<and>
    status (completeAssistantMessage now m) = Some Completed \<and>
    getMessageContent (completeAssistantMessage now m) = getDisplayContent m (getMessageContent m) \<and>
    toolEvents (completeAssistantMessage now m) = map_option (map (finish_running now)) (toolEvents m) \<and>
    (startedAt m = Some t0 \<longrightarrow> t0 \<le> now \<longrightarrow> durationMs (completeAssistantMessage now m) = Some (now - t0)) \<and>
    settled (applyChatCompletionChoice now m choice)"
proof -
  have "startedAt (finalizeMessage now m None) = startedAt m"
    by (simp add: finalizeMessage_def Let_def completeReasoningTiming_def split: option.split)
  then have "durationMs (completeAssistantMessage now m) = Some (now - t0)"
    if "startedAt m = Some t0" "t0 \<le> now"
    using that assms by (simp add: completeAssistantMessage_def completeAssistantTiming_def)
  then show ?thesis
    using assms
    by (simp add: completeAssistantMessage_def applyChatCompletionChoice_def settled_finalized
        content_finalized getDisplayContent_def)
qed

theorem completed_message_settled_witness:
  "settled (completeAssistantMessage 5 (applyToolEventStart (createLoadingAssistantMessage (''k'', ''v'') 0)
     \<lparr>te_id = ''c'', te_name = ''think'', te_status = Running, te_summary = None, te_error = None,
      te_startedAt = Some 1, te_completedAt = None, te_anchor = None, te_arguments = None,
      te_result = None, te_plan = None\<rparr>))"
  using completed_message_settled
  by (simp add: applyToolEventStart_def createLoadingAssistantMessage_def)

section \<open>Loading a conversation\<close>

lemma last_pending_Some:
  "last_pending ms n = Some i \<Longrightarrow> i < n \<and> isPendingAssistantMessage (ms ! i) \<and>
     (\<forall>j. i < j \<and> j < n \<longrightarrow> \<not> isPendingAssistantMessage (ms ! j))"
  by (induction ms n rule: last_pending.induct) (auto split: if_splits simp: less_Suc_eq)

lemma last_pending_None:
  "last_pending ms n = None \<longleftrightarrow> (\<forall>j < n. \<not> isPendingAssistantMessage (ms ! j))"
  by (induction ms n rule: last_pending.induct) (auto simp: less_Suc_eq)

abbreviation pending_count :: "Message list \<Rightarrow> nat" where
  "pending_count ms \<equiv> length (filter isPendingAssistantMessage ms)"

lemma pending_count_update:
  assumes "i < length ms" "isPendingAssistantMessage (ms ! i)" "\<not> isPendingAssistantMessage m"
  shows "pending_count (ms[i := m]) = pending_count ms - 1"
proof -
  have "pending_count ms = pending_count (take i ms @ ms ! i # drop (Suc i) ms)"
    using assms(1) by (simp add: id_take_nth_drop [symmetric])
  then show ?thesis
    using assms by (simp add: upd_conv_take_nth_drop)
qed

lemma sanitize_pending_count:
  "pending_count (sanitizeMessagesOnLoad now t ms) = pending_count ms - 1"
proof (cases "last_pending ms (length ms)")
  case None
  then have "pending_count ms = 0"
    by (auto simp: last_pending_None filter_empty_conv in_set_conv_nth)
  with None show ?thesis by (simp add: sanitizeMessagesOnLoad_def)
next
  case (Some i)
  with last_pending_Some [OF Some] settled_not_pending [OF sanitize_message_settled, of now t "ms ! i"]
  show ?thesis by (simp add: sanitizeMessagesOnLoad_def pending_count_update)
qed



text \<open>A second pending message, further up, stays pending.\<close>

lemma earlier_pending_stays:
  "pending_count (sanitizeMessagesOnLoad now t
     [createLoadingAssistantMessage ids 0, createLoadingAssistantMessage ids' 0]) = 1"
  by (simp add: sanitize_pending_count createLoadingAssistantMessage_def isPendingAssistantMessage_def
      isAssistantMessagePending_def)
end
