(* ===== verification/Transcript.thy ===== *)
theory Transcript
  imports MessageStreaming
begin

text \<open>
  An assistant message cut at the positions where its tool calls and thoughts happened:
  \<^verbatim>\<open>message-render-items.ts\<close>, which shows them in place, and \<^verbatim>\<open>payload-builder.ts\<close>, which replays them
  to the model, both of \<^verbatim>\<open>src/web/src/features/playground/lib\<close>. The properties say that no text is lost or
  moved by the cutting, and that a replayed transcript pairs every call with its result.
\<close>

section \<open>Slices\<close>

text \<open>\<^verbatim>\<open>s.slice(a, b)\<close>: a negative position counts from the end.\<close>

definition slice_index :: "nat \<Rightarrow> int \<Rightarrow> nat" where
  "slice_index n i = nat (if i < 0 then max 0 (int n + i) else min i (int n))"

definition slice :: "'a list \<Rightarrow> int \<Rightarrow> int \<Rightarrow> 'a list" where
  "slice s a b = (let a' = slice_index (length s) a; b' = slice_index (length s) b in
     take (b' - a') (drop a' s))"

lemma slice_nat: "b \<le> length s \<Longrightarrow> slice s (int a) (int b) = take (b - a) (drop a s)"
  by (cases "a \<le> length s") (auto simp: slice_def slice_index_def Let_def)

lemma slice_then_drop: "a \<le> b \<Longrightarrow> b \<le> length s \<Longrightarrow> slice s (int a) (int b) @ drop b s = drop a s"
  by (simp add: slice_nat) (metis append_take_drop_id drop_drop le_add_diff_inverse2)

section \<open>What is rendered\<close>

datatype MessageRenderItem =
    TextItem string string
  | ThoughtItem ThoughtBlock
  | ToolRunningItem ToolEvent
  | PlanItem string "PlanStep list"

definition thought_cmp :: "ThoughtBlock \<Rightarrow> ThoughtBlock \<Rightarrow> int" where
  "thought_cmp a b = th_anchor a - th_anchor b"

definition merge_thought :: "string \<Rightarrow> ThoughtBlock list \<Rightarrow> ThoughtBlock \<Rightarrow> ThoughtBlock list" where
  "merge_thought content merged thought =
     (if merged = [] then [thought]
      else (let previous = last merged in
            if trim (slice content (th_anchor previous) (th_anchor thought)) = []
            then butlast merged @
              [previous\<lparr>th_content := th_content previous @ [CHR 0x0A, CHR 0x0A] @ th_content thought,
                 th_completedAt := or_else (th_completedAt thought) (th_completedAt previous)\<rparr>]
            else merged @ [thought]))"

definition mergeAdjacentThoughts :: "string \<Rightarrow> ThoughtBlock list \<Rightarrow> ThoughtBlock list" where
  "mergeAdjacentThoughts content ths =
     foldl (merge_thought content) [] (sort_cmp thought_cmp ths)"

definition clampAnchor :: "int option \<Rightarrow> nat \<Rightarrow> nat" where
  "clampAnchor anchor contentLength =
     (case anchor of None \<Rightarrow> contentLength
      | Some a \<Rightarrow> nat (max 0 (min a (int contentLength))))"

record Positioned =
  pos_anchor :: nat
  pos_order :: nat
  pos_item :: MessageRenderItem

definition positioned_cmp :: "Positioned \<Rightarrow> Positioned \<Rightarrow> int" where
  "positioned_cmp a b =
     (if pos_anchor a \<noteq> pos_anchor b then int (pos_anchor a) - int (pos_anchor b)
      else int (pos_order a) - int (pos_order b))"

definition running_events :: "Message \<Rightarrow> ToolEvent list" where
  "running_events message = filter (\<lambda>e. te_status e = Running) (or_empty (toolEvents message))"

definition plan_events :: "Message \<Rightarrow> ToolEvent list" where
  "plan_events message =
     filter (\<lambda>e. te_name e = ''update_plan'' \<and> te_status e \<noteq> Running) (or_empty (toolEvents message))"

definition plan_items :: "Message \<Rightarrow> nat \<Rightarrow> nat \<Rightarrow> Positioned list" where
  "plan_items message contentLength base =
     (let events = plan_events message;
          items = concat (map (\<lambda>(order, event).
            (let steps = or_else (te_plan event)
                   (if Suc order = length events then plan message else None) in
             if or_empty steps = [] then []
             else [\<lparr>pos_anchor = clampAnchor (te_anchor event) contentLength, pos_order = base + order,
                    pos_item = PlanItem (''plan-'' @ te_id event) (or_empty steps)\<rparr>]))
            (zip [0..<length events] events)) in
      if items = [] \<and> or_empty (plan message) \<noteq> []
      then [\<lparr>pos_anchor = contentLength, pos_order = base,
             pos_item = PlanItem ''plan-legacy'' (or_empty (plan message))\<rparr>]
      else items)"

definition first_version_content :: "Message \<Rightarrow> string" where
  "first_version_content message = (case versions message of [] \<Rightarrow> [] | v # _ \<Rightarrow> ver_content v)"

definition positioned_items :: "Message \<Rightarrow> Positioned list" where
  "positioned_items message =
     (let content = first_version_content message; n = length content;
          ths = mergeAdjacentThoughts content (or_empty (thoughts message));
          running = running_events message in
      map (\<lambda>(order, th). \<lparr>pos_anchor = clampAnchor (Some (th_anchor th)) n, pos_order = order,
             pos_item = ThoughtItem th\<rparr>) (zip [0..<length ths] ths) @
      map (\<lambda>(order, e). \<lparr>pos_anchor = clampAnchor (te_anchor e) n, pos_order = length ths + order,
             pos_item = ToolRunningItem e\<rparr>) (zip [0..<length running] running) @
      plan_items message n (length ths + length running))"

definition text_item :: "nat \<Rightarrow> string \<Rightarrow> MessageRenderItem list" where
  "text_item cursor txt = (if txt = [] then [] else [TextItem (''text-'' @ show_nat cursor) txt])"

fun render_loop :: "string \<Rightarrow> nat \<Rightarrow> Positioned list \<Rightarrow> MessageRenderItem list" where
  "render_loop content cursor [] = text_item cursor (drop cursor content)"
| "render_loop content cursor (entry # entries) =
     text_item cursor (slice content (int cursor) (int (pos_anchor entry))) @ [pos_item entry] @
     render_loop content (pos_anchor entry) entries"

definition buildMessageRenderItems :: "Message \<Rightarrow> MessageRenderItem list" where
  "buildMessageRenderItems message =
     render_loop (first_version_content message) 0 (sort_cmp positioned_cmp (positioned_items message))"

section \<open>What is replayed\<close>

datatype ApiRole = Role MessageRole | ToolRole

record ChatCompletionMessage =
  cm_role :: ApiRole
  cm_content :: "MessageBody option"
  cm_tool_calls :: "ToolCall list option"
  cm_tool_call_id :: "string option"
  cm_name :: "string option"

definition api_message :: "ApiRole \<Rightarrow> MessageBody option \<Rightarrow> ChatCompletionMessage" where
  "api_message r c = \<lparr>cm_role = r, cm_content = c, cm_tool_calls = None, cm_tool_call_id = None,
     cm_name = None\<rparr>"

definition MAX_REPLAYED_TOOL_RESULT_CHARS :: nat where
  "MAX_REPLAYED_TOOL_RESULT_CHARS = 4000"

definition event_cmp :: "ToolEvent \<Rightarrow> ToolEvent \<Rightarrow> int" where
  "event_cmp a b = or_value (te_anchor a) 0 - or_value (te_anchor b) 0"

definition event_position :: "nat \<Rightarrow> ToolEvent \<Rightarrow> nat" where
  "event_position n event = nat (max 0 (min (or_value (te_anchor event) 0) (int n)))"

definition add_to_group ::
  "nat \<Rightarrow> (nat \<times> ToolEvent list) list \<Rightarrow> ToolEvent \<Rightarrow> (nat \<times> ToolEvent list) list" where
  "add_to_group n groups event =
     (let anchor = event_position n event;
          grp = (case map_of groups anchor of None \<Rightarrow> [] | Some g \<Rightarrow> g) in
      AList.update anchor (grp @ [event]) groups)"

definition replay_call :: "ToolEvent \<Rightarrow> ToolCall" where
  "replay_call event = \<lparr>tc_id = te_id event, tc_name = te_name event,
     tc_arguments = or_value (te_arguments event) ''{}''\<rparr>"

definition replay_result :: "ToolEvent \<Rightarrow> ChatCompletionMessage" where
  "replay_result event =
     (let result = or_value (te_result event) [] in
      (api_message ToolRole (Some (PlainText
         (if length result > MAX_REPLAYED_TOOL_RESULT_CHARS
          then take MAX_REPLAYED_TOOL_RESULT_CHARS result @ [CHR 0x0A] @ ''[truncated]'' else result))))
        \<lparr>cm_tool_call_id := Some (te_id event), cm_name := Some (te_name event)\<rparr>)"

definition replay_turn :: "string \<Rightarrow> ToolEvent list \<Rightarrow> ChatCompletionMessage list" where
  "replay_turn txt events =
     (api_message (Role Assistant) (if txt = [] then None else Some (PlainText txt)))
        \<lparr>cm_tool_calls := Some (map replay_call events)\<rparr> # map replay_result events"

fun replay_loop :: "string \<Rightarrow> nat \<Rightarrow> (nat \<times> ToolEvent list) list \<Rightarrow> ChatCompletionMessage list" where
  "replay_loop content cursor [] =
     (if drop cursor content = [] then []
      else [api_message (Role Assistant) (Some (PlainText (drop cursor content)))])"
| "replay_loop content cursor ((anchor, events) # groups) =
     replay_turn (slice content (int cursor) (int anchor)) events @ replay_loop content anchor groups"

definition replayable :: "Message \<Rightarrow> ToolEvent list" where
  "replayable message = filter (\<lambda>e. te_arguments e \<noteq> None \<and> te_result e \<noteq> None)
     (or_empty (toolEvents message))"

definition replay_message :: "Message \<Rightarrow> ChatCompletionMessage list" where
  "replay_message message =
     (let (r, body) = formatMessageForAPI message in
      case body of
        PlainText content \<Rightarrow>
          (if from_role message \<noteq> Assistant \<or> replayable message = []
           then [api_message (Role r) (Some body)]
           else replay_loop content 0 (foldl (add_to_group (length content)) []
                  (sort_cmp event_cmp (replayable message))))
      | Parts _ \<Rightarrow> [api_message (Role r) (Some body)])"

definition buildApiTranscript :: "Message list \<Rightarrow> ChatCompletionMessage list" where
  "buildApiTranscript messages = concat (map replay_message (filter isValidMessage messages))"

section \<open>The payload of a request\<close>

record PlaygroundConfig =
  cfg_model :: string
  cfg_group :: string
  cfg_temperature :: rat
  cfg_top_p :: rat
  cfg_max_tokens :: int
  cfg_frequency_penalty :: rat
  cfg_presence_penalty :: rat
  cfg_seed :: "int option"
  cfg_stream :: bool

record ParameterEnabled =
  en_temperature :: bool
  en_top_p :: bool
  en_max_tokens :: bool
  en_frequency_penalty :: bool
  en_presence_penalty :: bool
  en_seed :: bool

record ChatCompletionRequest =
  rq_model :: string
  rq_group :: string
  rq_messages :: "ChatCompletionMessage list"
  rq_stream :: bool
  rq_temperature :: "rat option"
  rq_top_p :: "rat option"
  rq_max_tokens :: "int option"
  rq_frequency_penalty :: "rat option"
  rq_presence_penalty :: "rat option"
  rq_seed :: "int option"
  rq_tools :: "jsval list option"
  rq_tool_choice :: "string option"
  rq_reasoning_effort :: "string option"

definition buildChatApiPayload ::
  "ChatCompletionMessage list \<Rightarrow> PlaygroundConfig \<Rightarrow> ParameterEnabled \<Rightarrow> jsval list \<Rightarrow> ChatCompletionRequest"
  where
  "buildChatApiPayload apiMessages config enabled tools =
     \<lparr>rq_model = cfg_model config, rq_group = cfg_group config, rq_messages = apiMessages,
      rq_stream = cfg_stream config,
      rq_temperature = (if en_temperature enabled then Some (cfg_temperature config) else None),
      rq_top_p = (if en_top_p enabled then Some (cfg_top_p config) else None),
      rq_max_tokens = (if en_max_tokens enabled then Some (cfg_max_tokens config) else None),
      rq_frequency_penalty = (if en_frequency_penalty enabled
        then Some (cfg_frequency_penalty config) else None),
      rq_presence_penalty = (if en_presence_penalty enabled
        then Some (cfg_presence_penalty config) else None),
      rq_seed = (if en_seed enabled then cfg_seed config else None),
      rq_tools = (if tools \<noteq> [] then Some tools else None),
      rq_tool_choice = (if tools \<noteq> [] then Some ''auto'' else None),
      rq_reasoning_effort = None\<rparr>"

section \<open>Rendering keeps the text\<close>

text \<open>Sorting by a comparison that agrees with a key, earlier elements first among equal ones.\<close>

lemma insort_cmp_key:
  "(\<And>y. y \<in> set ys \<Longrightarrow> cmp x y \<le> 0 \<longleftrightarrow> f x \<le> f y) \<Longrightarrow> insort_cmp cmp x ys = insort_key f x ys"
  by (induction ys) auto

lemma sort_cmp_key: "sorted_wrt (\<lambda>x y. cmp x y \<le> 0 \<longleftrightarrow> f x \<le> f y) xs \<Longrightarrow> sort_cmp cmp xs = sort_key f xs"
proof (induction xs)
  case (Cons x xs)
  then have "insort_cmp cmp x (sort_key f xs) = insort_key f x (sort_key f xs)"
    by (intro insort_cmp_key) simp
  with Cons show ?case by (simp add: sort_cmp_Cons)
qed simp

lemma map_snd_zip_comp: "length xs = length ys \<Longrightarrow> map (\<lambda>p. f (snd p)) (zip xs ys) = map f ys"
  by (induction xs ys rule: list_induct2) simp_all

lemma map_insort_key: "map g (insort_key (\<lambda>x. f (g x)) x xs) = insort_key f (g x) (map g xs)"
  by (induction xs) auto

lemma map_sort_key: "map g (sort_key (\<lambda>x. f (g x)) xs) = sort_key f (map g xs)"
  by (induction xs) (simp_all add: map_insort_key)

interpretation thought_order: comparator thought_cmp
  by unfold_locales (auto simp: thought_cmp_def)

interpretation positioned_order: comparator positioned_cmp
  by unfold_locales (auto simp: positioned_cmp_def split: if_splits)

interpretation event_order: comparator event_cmp
  by unfold_locales (auto simp: event_cmp_def)

fun item_text :: "MessageRenderItem \<Rightarrow> string" where
  "item_text (TextItem k t) = t"
| "item_text _ = []"

text \<open>Where the items that are not text stand: the length of the text before each.\<close>

fun place :: "nat \<Rightarrow> MessageRenderItem list \<Rightarrow> (nat \<times> MessageRenderItem) list" where
  "place off [] = []"
| "place off (TextItem k t # items) = place (off + length t) items"
| "place off (item # items) = (off, item) # place off items"

fun is_block :: "MessageRenderItem \<Rightarrow> bool" where
  "is_block (TextItem k t) = False"
| "is_block _ = True"

lemma item_text_block: "is_block i \<Longrightarrow> item_text i = []"
  by (cases i) auto

lemma place_block: "is_block i \<Longrightarrow> place off (i # items) = (off, i) # place off items"
  by (cases i) auto

lemma item_text_text_item [simp]: "concat (map item_text (text_item n t)) = t"
  by (simp add: text_item_def)

lemma place_text_item [simp]: "place off (text_item n t @ items) = place (off + length t) items"
  by (simp add: text_item_def)

lemma render_loop_text:
  assumes "sorted (map pos_anchor es)" "\<forall>e \<in> set es. cursor \<le> pos_anchor e \<and> pos_anchor e \<le> length content"
    and "\<forall>e \<in> set es. is_block (pos_item e)"
  shows "concat (map item_text (render_loop content cursor es)) = drop cursor content"
  using assms
proof (induction es arbitrary: cursor)
  case (Cons e es)
  then have "concat (map item_text (render_loop content (pos_anchor e) es)) = drop (pos_anchor e) content"
    by simp
  with Cons.prems show ?case
    by (simp add: item_text_block slice_then_drop)
qed simp

lemma render_loop_place:
  assumes "sorted (map pos_anchor es)" "\<forall>e \<in> set es. cursor \<le> pos_anchor e \<and> pos_anchor e \<le> length content"
    and "\<forall>e \<in> set es. is_block (pos_item e)"
  shows "place cursor (render_loop content cursor es) = map (\<lambda>e. (pos_anchor e, pos_item e)) es"
  using assms
proof (induction es arbitrary: cursor)
  case Nil
  show ?case using place_text_item [of cursor cursor _ "[]"] by simp
next
  case (Cons e es)
  then have "place (pos_anchor e) (render_loop content (pos_anchor e) es) =
      map (\<lambda>e. (pos_anchor e, pos_item e)) es"
    by simp
  moreover have "cursor + length (slice content (int cursor) (int (pos_anchor e))) = pos_anchor e"
    using Cons.prems by (auto simp: slice_nat min_def)
  ultimately show ?case
    using Cons.prems by (simp add: place_block)
qed

lemma render_loop_no_empty_text: "\<forall>e \<in> set es. is_block (pos_item e) \<Longrightarrow>
    TextItem k [] \<notin> set (render_loop content cursor es)"
proof (induction es arbitrary: cursor)
  case (Cons e es)
  then have "is_block (pos_item e)" by simp
  then have "TextItem k [] \<noteq> pos_item e" by (cases "pos_item e") simp_all
  with Cons show ?case by (simp add: text_item_def)
qed (simp add: text_item_def)

lemma clampAnchor_le: "clampAnchor a n \<le> n"
  by (auto simp: clampAnchor_def split: option.split)

lemma plan_items_ok:
  "e \<in> set (plan_items m n b) \<Longrightarrow> pos_anchor e \<le> n \<and> is_block (pos_item e)"
  by (auto simp: plan_items_def Let_def clampAnchor_le split: if_splits)

lemma positioned_items_ok:
  "e \<in> set (positioned_items m) \<Longrightarrow>
     pos_anchor e \<le> length (first_version_content m) \<and> is_block (pos_item e)"
  by (auto simp: positioned_items_def Let_def clampAnchor_le plan_items_ok)

lemma sorted_positioned: "sorted (map pos_anchor (sort_cmp positioned_cmp es))"
proof -
  have "sorted_wrt (\<lambda>a b. pos_anchor a \<le> pos_anchor b) (sort_cmp positioned_cmp es)"
    by (rule sorted_wrt_mono_rel [OF _ positioned_order.sorted_sort_cmp])
      (auto simp: positioned_cmp_def split: if_splits)
  then show ?thesis by (simp add: sorted_map)
qed

lemma sort_positioned: "sorted (map pos_order es) \<Longrightarrow> sort_cmp positioned_cmp es = sort_key pos_anchor es"
  by (rule sort_cmp_key) (auto simp: sorted_map positioned_cmp_def elim!: sorted_wrt_mono_rel [rotated])

text \<open>Entries numbered upwards from \<open>b\<close>.\<close>

definition numbered :: "nat \<Rightarrow> nat \<Rightarrow> Positioned list \<Rightarrow> bool" where
  "numbered b c es \<longleftrightarrow> sorted (map pos_order es) \<and> (\<forall>e \<in> set es. b \<le> pos_order e \<and> pos_order e < c)"

lemma numbered_append: "numbered a b xs \<Longrightarrow> numbered b c ys \<Longrightarrow> a \<le> b \<Longrightarrow> b \<le> c \<Longrightarrow> numbered a c (xs @ ys)"
  by (fastforce simp: numbered_def sorted_append)

lemma numbered_index:
  assumes "\<And>i x. h (i, x) = [] \<or> (\<exists>e. h (i, x) = [e] \<and> pos_order e = b + i)"
  shows "numbered b (b + length xs) (concat (map h (zip [0..<length xs] xs)))"
proof (induction xs rule: rev_induct)
  case (snoc x xs)
  have "numbered (b + length xs) (b + length (xs @ [x])) (h (length xs, x))"
    using assms [of "length xs" x] by (auto simp: numbered_def)
  with snoc show ?case by (auto intro!: numbered_append)
qed (simp add: numbered_def)

lemma numbered_map:
  assumes "\<And>i x. pos_order (g (i, x)) = b + i"
  shows "numbered b (b + length xs) (map g (zip [0..<length xs] xs))"
  using numbered_index [of "\<lambda>p. [g p]" b xs] assms by simp

lemma plan_items_numbered: "\<exists>c \<ge> b. numbered b c (plan_items m n b)"
proof (cases "plan_items m n b = [\<lparr>pos_anchor = n, pos_order = b, pos_item = PlanItem ''plan-legacy'' (or_empty (plan m))\<rparr>]")
  case True
  then show ?thesis by (intro exI [of _ "Suc b"]) (simp add: numbered_def)
next
  case False
  then show ?thesis
    unfolding plan_items_def Let_def
    by (intro exI [of _ "b + length (plan_events m)"]) (auto split del: if_split split: if_splits intro!: numbered_index)
qed

lemma positioned_items_orders: "sorted (map pos_order (positioned_items m))"
proof -
  define ths where "ths = mergeAdjacentThoughts (first_version_content m) (or_empty (thoughts m))"
  define n where "n = length ths + length (running_events m)"
  note maps = numbered_map [where b = 0 and xs = ths] numbered_map [where b = "length ths" and xs = "running_events m"]
  obtain c where c: "n \<le> c" "numbered n c (plan_items m (length (first_version_content m)) n)"
    using plan_items_numbered by blast
  have "numbered 0 c (positioned_items m)"
    unfolding positioned_items_def Let_def ths_def [symmetric] n_def
    by (rule numbered_append [where b = "length ths", OF _ numbered_append [where b = n]])
      (use maps c in \<open>auto simp: n_def\<close>)
  then show ?thesis by (simp add: numbered_def)
qed

lemma place_render:
  "place 0 (buildMessageRenderItems m) = sort_key fst (map (\<lambda>e. (pos_anchor e, pos_item e)) (positioned_items m))"
proof -
  have "place 0 (buildMessageRenderItems m) =
      map (\<lambda>e. (pos_anchor e, pos_item e)) (sort_cmp positioned_cmp (positioned_items m))"
    unfolding buildMessageRenderItems_def by (rule render_loop_place) (simp_all add: sorted_positioned positioned_items_ok)
  then show ?thesis
    using map_sort_key [of "\<lambda>e. (pos_anchor e, pos_item e)" fst] by (simp add: sort_positioned positioned_items_orders)
qed

subsection \<open>Thoughts in a row\<close>

lemma join_snoc: "xs \<noteq> [] \<Longrightarrow> join sep (xs @ [x]) = join sep xs @ sep @ x"
  by (induction sep xs rule: join.induct) auto

text \<open>Thoughts in runs: within a run nothing but white space stands between the first and each other one, and
  between the first ones of two successive runs something does.\<close>

definition in_runs :: "string \<Rightarrow> ThoughtBlock list list \<Rightarrow> bool" where
  "in_runs content runs \<longleftrightarrow>
     list_all (\<lambda>r. r \<noteq> [] \<and> list_all (\<lambda>t. trim (slice content (th_anchor (hd r)) (th_anchor t)) = []) r) runs \<and>
     successively (\<lambda>r r'. trim (slice content (th_anchor (hd r)) (th_anchor (hd r'))) \<noteq> []) runs"

definition shows_run :: "ThoughtBlock list \<Rightarrow> ThoughtBlock \<Rightarrow> bool" where
  "shows_run r t \<longleftrightarrow> th_id t = th_id (hd r) \<and> th_anchor t = th_anchor (hd r) \<and>
     th_content t = join [CHR 0x0A, CHR 0x0A] (map th_content r)"

lemma in_runs_snoc:
  "in_runs c (rs @ [r]) \<longleftrightarrow> in_runs c rs \<and>
     r \<noteq> [] \<and> list_all (\<lambda>t. trim (slice c (th_anchor (hd r)) (th_anchor t)) = []) r \<and>
     (rs = [] \<or> trim (slice c (th_anchor (hd (last rs))) (th_anchor (hd r))) \<noteq> [])"
  by (auto simp: in_runs_def successively_append_iff)

lemma slice_same [simp]: "slice c a a = []"
  by (simp add: slice_def Let_def)

lemma merge_runs:
  "\<exists>runs. concat runs = ths \<and> in_runs c runs \<and> list_all2 shows_run runs (foldl (merge_thought c) [] ths)"
proof (induction ths rule: rev_induct)
  case Nil
  show ?case by (intro exI [of _ "[]"]) (simp add: in_runs_def)
next
  case (snoc t ths)
  define ms where "ms = foldl (merge_thought c) [] ths"
  from snoc obtain runs where runs: "concat runs = ths" "in_runs c runs" "list_all2 shows_run runs ms"
    by (auto simp: ms_def)
  have step: "foldl (merge_thought c) [] (ths @ [t]) = merge_thought c ms t" by (simp add: ms_def)
  show ?case
  proof (cases runs rule: rev_cases)
    case Nil
    with runs have "ths = []" "ms = []" by auto
    then show ?thesis unfolding step
      by (intro exI [of _ "[[t]]"]) (simp add: in_runs_def merge_thought_def shows_run_def)
  next
    case (snoc rs r)
    with runs(3) obtain ms' p where ms: "ms = ms' @ [p]" "list_all2 shows_run rs ms'" "shows_run r p"
      by (auto simp: list_all2_append1 list_all2_Cons1)
    have r: "r \<noteq> []" "in_runs c rs" using runs(2) snoc by (auto simp: in_runs_snoc)
    show ?thesis
    proof (cases "trim (slice c (th_anchor p) (th_anchor t)) = []")
      case True
      with ms have "list_all2 shows_run (rs @ [r @ [t]]) (merge_thought c ms t)"
        using r by (auto simp: merge_thought_def shows_run_def join_snoc intro!: list_all2_appendI)
      moreover have "in_runs c (rs @ [r @ [t]])"
        using True ms(3) r runs(2) snoc by (auto simp: in_runs_snoc shows_run_def)
      moreover have "concat (rs @ [r @ [t]]) = ths @ [t]" using runs(1) snoc by simp
      ultimately show ?thesis unfolding step by blast
    next
      case False
      with ms(1) have "merge_thought c ms t = ms @ [t]" by (simp add: merge_thought_def del: trim_by_eq_Nil)
      then have "list_all2 shows_run (runs @ [[t]]) (merge_thought c ms t)"
        using list_all2_appendI [OF runs(3), of "[[t]]" "[t]"] by (simp add: shows_run_def [of "[t]"])
      moreover have "in_runs c (runs @ [[t]])"
        unfolding in_runs_snoc [of c runs "[t]"] using False ms(3) runs(2) snoc by (simp add: shows_run_def)
      moreover have "concat (runs @ [[t]]) = ths @ [t]" using runs(1) by simp
      ultimately show ?thesis unfolding step by blast
    qed
  qed
qed

lemma sort_thoughts: "sort_cmp thought_cmp ths = sort_key th_anchor ths"
  by (rule sort_cmp_key) (simp add: thought_cmp_def sorted_wrt_true)

subsection \<open>Plans\<close>

text \<open>Where a block stands: at its anchor, held within the content; at the end when it has none.\<close>

definition anchored :: "string \<Rightarrow> int option \<Rightarrow> nat" where
  "anchored content anchor = (case anchor of
      None \<Rightarrow> length content
    | Some a \<Rightarrow> if a < 0 then 0 else if int (length content) < a then length content else nat a)"

lemma clampAnchor_anchored: "clampAnchor a (length content) = anchored content a"
  by (auto simp: clampAnchor_def anchored_def split: option.split)

text \<open>The plans of a message: those of its finished plan updates, each where its update stands. The plan of the
  message itself belongs to the last update if that has none of its own; without any update that has one,
  it stands at the end.\<close>

definition own_plans :: "string \<Rightarrow> ToolEvent list \<Rightarrow> (nat \<times> PlanStep list) list" where
  "own_plans content updates = map (\<lambda>e. (anchored content (te_anchor e), or_empty (te_plan e)))
     (filter (\<lambda>e. or_empty (te_plan e) \<noteq> []) updates)"

definition recorded_plans :: "Message \<Rightarrow> (nat \<times> PlanStep list) list" where
  "recorded_plans m =
     (let content = first_version_content m; steps = or_empty (plan m);
          updates = filter (\<lambda>e. te_name e = ''update_plan'' \<and> te_status e \<noteq> Running) (or_empty (toolEvents m));
          own = own_plans content updates in
      if steps = [] then own
      else if updates \<noteq> [] \<and> te_plan (last updates) = None
        then own @ [(anchored content (te_anchor (last updates)), steps)]
      else if own = [] then [(length content, steps)] else own)"

definition plan_entry :: "Message \<Rightarrow> string \<Rightarrow> nat \<Rightarrow> nat \<times> ToolEvent \<Rightarrow> (nat \<times> string \<times> PlanStep list) list" where
  "plan_entry m content n p = (let steps = or_empty (or_else (te_plan (snd p)) (if Suc (fst p) = n then plan m else None)) in
     if steps = [] then [] else [(anchored content (te_anchor (snd p)), ''plan-'' @ te_id (snd p), steps)])"

lemma plan_entries_before:
  assumes "length es < n"
  shows "map (\<lambda>(p, key, steps). (p, steps)) (concat (map (plan_entry m content n) (zip [0..<length es] es))) =
    own_plans content es"
  using assms
proof (induction es rule: rev_induct)
  case (snoc e es)
  then show ?case
    by (cases "te_plan e") (auto simp: own_plans_def plan_entry_def Let_def)
qed (simp add: own_plans_def)

lemma plan_items_recorded:
  fixes m b
  defines "content \<equiv> first_version_content m"
  shows "\<exists>plans. map (\<lambda>e. (pos_anchor e, pos_item e)) (plan_items m (length content) b) =
      map (\<lambda>(p, key, steps). (p, PlanItem key steps)) plans \<and>
    map (\<lambda>(p, key, steps). (p, steps)) plans = recorded_plans m"
proof -
  define evs where "evs = plan_events m"
  define entries where "entries = concat (map (plan_entry m content (length evs)) (zip [0..<length evs] evs))"
  have own: "map (\<lambda>(p, key, steps). (p, steps)) entries = own_plans content evs @
      (if evs \<noteq> [] \<and> te_plan (last evs) = None \<and> or_empty (plan m) \<noteq> []
       then [(anchored content (te_anchor (last evs)), or_empty (plan m))] else [])"
  proof (cases evs rule: rev_cases)
    case (snoc es e)
    then show ?thesis using plan_entries_before [of es "length evs" m content]
      by (cases "te_plan e") (auto simp: entries_def own_plans_def plan_entry_def Let_def)
  qed (simp add: entries_def own_plans_def)
  let ?plans = "if entries = [] \<and> or_empty (plan m) \<noteq> []
    then [(length content, ''plan-legacy'', or_empty (plan m))] else entries"
  define items where "items = concat (map (\<lambda>(order, event).
      (let steps = or_else (te_plan event) (if Suc order = length evs then plan m else None) in
       if or_empty steps = [] then []
       else [\<lparr>pos_anchor = anchored content (te_anchor event), pos_order = b + order,
              pos_item = PlanItem (''plan-'' @ te_id event) (or_empty steps)\<rparr>])) (zip [0..<length evs] evs))"
  have "map (\<lambda>e. (pos_anchor e, pos_item e)) items = map (\<lambda>(p, key, steps). (p, PlanItem key steps)) entries"
    unfolding items_def entries_def map_concat map_map
    by (intro arg_cong [where f = concat] map_cong) (auto simp: plan_entry_def Let_def)
  moreover from arg_cong [OF this, of length] have "items = [] \<longleftrightarrow> entries = []" by auto
  ultimately have "map (\<lambda>e. (pos_anchor e, pos_item e)) (plan_items m (length content) b) =
      map (\<lambda>(p, key, steps). (p, PlanItem key steps)) ?plans"
    unfolding plan_items_def clampAnchor_anchored items_def evs_def by (auto simp: Let_def)
  moreover have "map (\<lambda>(p, key, steps). (p, steps)) ?plans = recorded_plans m"
    using own by (auto simp: recorded_plans_def Let_def content_def evs_def plan_events_def split: if_splits)
  ultimately show ?thesis by blast
qed

text \<open>C36. The rendered items show the message. The text items together are exactly its content, none of them
  empty. Between them stand the blocks, each once and at its anchor, in the order of the anchors: first the
  thoughts of a place, then the tools that are running, then the plans. The thoughts are shown in runs: those
  with nothing but white space between them as one block at the first, their contents joined. The running
  tools are the events of the message with that status; the plans are those that its updates recorded.\<close>

theorem render_items_faithful:
  "let content = first_version_content m; items = buildMessageRenderItems m in
    concat (map item_text items) = content \<and> TextItem k [] \<notin> set items \<and>
    (\<exists>runs ths plans.
       place 0 items = sort_key fst
         (map (\<lambda>t. (anchored content (Some (th_anchor t)), ThoughtItem t)) ths @
          map (\<lambda>e. (anchored content (te_anchor e), ToolRunningItem e))
            (filter (\<lambda>e. te_status e = Running) (or_empty (toolEvents m))) @
          map (\<lambda>(p, key, steps). (p, PlanItem key steps)) plans) \<and>
       concat runs = sort_key th_anchor (or_empty (thoughts m)) \<and> in_runs content runs \<and>
       list_all2 shows_run runs ths \<and>
       map (\<lambda>(p, key, steps). (p, steps)) plans = recorded_plans m)"
proof -
  define content items where "content = first_version_content m" and "items = buildMessageRenderItems m"
  let ?es = "sort_cmp positioned_cmp (positioned_items m)"
  have ok: "\<forall>e \<in> set ?es. 0 \<le> pos_anchor e \<and> pos_anchor e \<le> length content"
    "\<forall>e \<in> set ?es. is_block (pos_item e)"
    by (simp_all add: positioned_items_ok content_def)
  define ths where "ths = mergeAdjacentThoughts content (or_empty (thoughts m))"
  obtain runs where runs: "concat runs = sort_key th_anchor (or_empty (thoughts m))" "in_runs content runs"
    "list_all2 shows_run runs ths"
    using merge_runs unfolding ths_def mergeAdjacentThoughts_def sort_thoughts by blast
  obtain plans where plans: "map (\<lambda>e. (pos_anchor e, pos_item e))
        (plan_items m (length content) (length ths + length (running_events m))) =
      map (\<lambda>(p, key, steps). (p, PlanItem key steps)) plans"
    "map (\<lambda>(p, key, steps). (p, steps)) plans = recorded_plans m"
    using plan_items_recorded unfolding content_def by blast
  have "map (\<lambda>e. (pos_anchor e, pos_item e)) (positioned_items m) =
      map (\<lambda>t. (anchored content (Some (th_anchor t)), ThoughtItem t)) ths @
      map (\<lambda>e. (anchored content (te_anchor e), ToolRunningItem e)) (running_events m) @
      map (\<lambda>(p, key, steps). (p, PlanItem key steps)) plans"
    unfolding positioned_items_def Let_def content_def [symmetric] ths_def [symmetric] map_append plans(1)
    using map_snd_zip_comp [of "[0..<length ths]" ths "\<lambda>t. (anchored content (Some (th_anchor t)), ThoughtItem t)"]
      map_snd_zip_comp [of "[0..<length (running_events m)]" "running_events m"
        "\<lambda>e. (anchored content (te_anchor e), ToolRunningItem e)"]
    by (simp add: comp_def case_prod_unfold clampAnchor_anchored)
  then have "place 0 items = sort_key fst
      (map (\<lambda>t. (anchored content (Some (th_anchor t)), ThoughtItem t)) ths @
       map (\<lambda>e. (anchored content (te_anchor e), ToolRunningItem e)) (running_events m) @
       map (\<lambda>(p, key, steps). (p, PlanItem key steps)) plans)"
    by (simp only: items_def place_render)
  moreover have "concat (map item_text items) = content"
    using render_loop_text [OF sorted_positioned ok] by (simp add: items_def buildMessageRenderItems_def content_def)
  moreover have "TextItem k [] \<notin> set items"
    unfolding items_def buildMessageRenderItems_def by (rule render_loop_no_empty_text [OF ok(2)])
  ultimately show ?thesis
    using runs plans(2) unfolding running_events_def Let_def content_def [symmetric] items_def [symmetric]
    by (intro conjI exI [of _ runs] exI [of _ ths] exI [of _ plans]) simp_all
qed

section \<open>A replayed transcript is complete and paired\<close>

lemma update_append:
  "k \<notin> fst ` set xs \<Longrightarrow> AList.update k v (xs @ ys) = xs @ AList.update k v ys"
  by (induction xs) auto

definition groups_ok :: "nat \<Rightarrow> (nat \<times> ToolEvent list) list \<Rightarrow> bool" where
  "groups_ok n gs \<longleftrightarrow> sorted_wrt (<) (map fst gs) \<and>
     (\<forall>g \<in> set gs. fst g \<le> n \<and> (\<forall>e \<in> set (snd g). event_position n e = fst g))"

lemma event_position_le: "event_position n e \<le> n"
  by (simp add: event_position_def)

lemma event_position_mono: "event_cmp a b \<le> 0 \<Longrightarrow> event_position n a \<le> event_position n b"
  by (simp add: event_position_def event_cmp_def)

lemma add_to_group_last:
  assumes "groups_ok n gs" and "\<forall>g \<in> set gs. fst g \<le> event_position n e"
  shows "groups_ok n (add_to_group n gs e) \<and>
    concat (map snd (add_to_group n gs e)) = concat (map snd gs) @ [e] \<and>
    (\<forall>g \<in> set (add_to_group n gs e). fst g \<le> event_position n e)"
proof (cases gs rule: rev_cases)
  case Nil
  then show ?thesis
    by (simp add: add_to_group_def groups_ok_def event_position_le Let_def)
next
  case (snoc gs' p)
  obtain k g where p: "p = (k, g)" by (cases p)
  let ?a = "event_position n e"
  have less: "\<forall>q \<in> set gs'. fst q < k" and k: "k \<le> ?a"
    using assms snoc p by (auto simp: groups_ok_def sorted_wrt_append)
  show ?thesis
  proof (cases "k = ?a")
    case True
    with less have new: "?a \<notin> fst ` set gs'" by auto
    then have "map_of gs ?a = Some g"
      using True snoc p by (simp add: map_of_eq_None_iff [symmetric] map_add_def)
    then have "add_to_group n gs e = gs' @ [(k, g @ [e])]"
      using True snoc p new by (simp add: add_to_group_def Let_def update_append)
    with assms snoc p True less show ?thesis
      by (auto simp: groups_ok_def sorted_wrt_append)
  next
    case False
    with k less have new: "?a \<notin> fst ` set gs" and below: "\<forall>q \<in> set gs. fst q < ?a"
      using snoc p by force+
    then have "add_to_group n gs e = gs @ [(?a, [e])]"
      using update_append [OF new, of _ "[]"] map_of_eq_None_iff [of gs ?a]
      by (simp add: add_to_group_def Let_def)
    with assms below show ?thesis
      by (auto simp: groups_ok_def sorted_wrt_append event_position_le)
  qed
qed

lemma grouped_events:
  assumes "sorted_wrt (\<lambda>a b. event_cmp a b \<le> 0) es" "groups_ok n gs"
    and "\<forall>g \<in> set gs. \<forall>e \<in> set es. fst g \<le> event_position n e"
  shows "groups_ok n (foldl (add_to_group n) gs es) \<and>
    concat (map snd (foldl (add_to_group n) gs es)) = concat (map snd gs) @ es"
  using assms
proof (induction es arbitrary: gs)
  case (Cons e es)
  note step = add_to_group_last [OF Cons.prems(2), of e]
  have "\<forall>g \<in> set (add_to_group n gs e). \<forall>e' \<in> set es. fst g \<le> event_position n e'"
    using step Cons.prems(1,3) by (force intro: order_trans [OF _ event_position_mono])
  with Cons step show ?case by simp
qed simp

fun body_text :: "MessageBody option \<Rightarrow> string" where
  "body_text (Some (PlainText t)) = t"
| "body_text _ = []"

definition assistant_text :: "ChatCompletionMessage \<Rightarrow> string" where
  "assistant_text m = (if cm_role m = Role Assistant then body_text (cm_content m) else [])"

definition calls_of :: "ChatCompletionMessage \<Rightarrow> ToolCall list" where
  "calls_of m = or_empty (cm_tool_calls m)"

text \<open>Reading a transcript: each call, where it stands in the text of the assistant, with the message that
  follows for it.\<close>

type_synonym exchange = "nat \<times> ToolCall \<times> ChatCompletionMessage"

function read_exchanges :: "nat \<Rightarrow> ChatCompletionMessage list \<Rightarrow> exchange list" where
  "read_exchanges off [] = []"
| "read_exchanges off (m # ms) =
     (let here = off + length (assistant_text m); n = length (calls_of m) in
      zip (replicate n here) (zip (calls_of m) (take n ms)) @ read_exchanges here (drop n ms))"
  by pat_completeness auto

termination
  by (relation "measure (\<lambda>(off, ms). length ms)") auto

text \<open>What a conversation recorded: the calls with arguments and a result, of the assistant messages with text.\<close>

definition spoken :: "Message \<Rightarrow> bool" where
  "spoken m \<longleftrightarrow> from_role m = Assistant \<and> versions m \<noteq> [] \<and> trim (getMessageContent m) \<noteq> []"

definition recorded_exchange :: "nat \<Rightarrow> string \<Rightarrow> ToolEvent \<Rightarrow> exchange" where
  "recorded_exchange off content e =
     (let a = or_value (te_anchor e) 0; result = the (te_result e) in
      (off + (if a < 0 then 0 else if int (length content) < a then length content else nat a),
       \<lparr>tc_id = te_id e, tc_name = te_name e, tc_arguments = the (te_arguments e)\<rparr>,
       \<lparr>cm_role = ToolRole,
        cm_content = Some (PlainText (if length result \<le> 4000 then result else take 4000 result @ [CHR 0x0A] @ ''[truncated]'')),
        cm_tool_calls = None, cm_tool_call_id = Some (te_id e), cm_name = Some (te_name e)\<rparr>))"

fun recorded_exchanges :: "nat \<Rightarrow> Message list \<Rightarrow> exchange list" where
  "recorded_exchanges off [] = []"
| "recorded_exchanges off (m # ms) =
     (if spoken m
      then map (recorded_exchange off (getMessageContent m))
             (sort_key (\<lambda>e. or_value (te_anchor e) 0)
               (filter (\<lambda>e. te_arguments e \<noteq> None \<and> te_result e \<noteq> None) (or_empty (toolEvents m)))) @
           recorded_exchanges (off + length (getMessageContent m)) ms
      else recorded_exchanges off ms)"

lemma api_message_simps [simp]:
  "cm_role (api_message r c) = r" "cm_content (api_message r c) = c"
  "cm_tool_calls (api_message r c) = None" "cm_tool_call_id (api_message r c) = None"
  by (simp_all add: api_message_def)

lemma calls_of_api_message [simp]: "calls_of (api_message r c) = []"
  by (simp add: calls_of_def)

lemma replay_turn_text [simp]: "concat (map assistant_text (replay_turn t es)) = t"
proof -
  have "concat (map assistant_text (map replay_result es)) = []"
    by (simp add: assistant_text_def replay_result_def Let_def comp_def)
  then show ?thesis
    by (cases "t = []") (simp_all add: replay_turn_def assistant_text_def)
qed

lemma read_no_calls:
  "cm_tool_calls m = None \<Longrightarrow> read_exchanges off (m # ms) = read_exchanges (off + length (assistant_text m)) ms"
  by (simp add: calls_of_def)

lemma read_replay_turn:
  "read_exchanges off (replay_turn t es @ ms) =
     map (\<lambda>e. (off + length t, replay_call e, replay_result e)) es @ read_exchanges (off + length t) ms"
proof -
  have "zip (replicate (length es) k) (zip (map replay_call es) (map replay_result es)) =
      map (\<lambda>e. (k, replay_call e, replay_result e)) es" for k :: nat
    by (induction es) simp_all
  then show ?thesis
    by (simp add: replay_turn_def calls_of_def assistant_text_def Let_def)
qed

lemma read_replay_loop:
  assumes "groups_ok (length c) gs" "\<forall>g \<in> set gs. cursor \<le> fst g" "cursor \<le> length c"
  shows "read_exchanges (base + cursor) (replay_loop c cursor gs @ ms) =
    map (\<lambda>e. (base + event_position (length c) e, replay_call e, replay_result e)) (concat (map snd gs)) @
    read_exchanges (base + length c) ms"
  using assms
proof (induction c cursor gs rule: replay_loop.induct)
  case (1 c cursor)
  then show ?case by (simp add: read_no_calls assistant_text_def del: read_exchanges.simps)
next
  case (2 c cursor anchor events gs)
  then have "read_exchanges (base + anchor) (replay_loop c anchor gs @ ms) =
      map (\<lambda>e. (base + event_position (length c) e, replay_call e, replay_result e)) (concat (map snd gs)) @
      read_exchanges (base + length c) ms"
    by (auto simp: groups_ok_def less_imp_le)
  moreover have "cursor + length (slice c (int cursor) (int anchor)) = anchor"
    using 2 by (auto simp: slice_nat min_def groups_ok_def)
  moreover have "\<forall>e \<in> set events. event_position (length c) e = anchor"
    using 2 by (simp add: groups_ok_def)
  ultimately show ?case by (simp add: read_replay_turn add.assoc)
qed

lemma replay_loop_text:
  "groups_ok (length c) gs \<Longrightarrow> \<forall>g \<in> set gs. cursor \<le> fst g \<Longrightarrow>
     concat (map assistant_text (replay_loop c cursor gs)) = drop cursor c"
proof (induction c cursor gs rule: replay_loop.induct)
  case (2 c cursor anchor events gs)
  then have "concat (map assistant_text (replay_loop c anchor gs)) = drop anchor c"
    by (auto simp: groups_ok_def less_imp_le)
  with 2 show ?case
    by (simp add: slice_then_drop groups_ok_def)
qed (simp add: assistant_text_def)

text \<open>A transcript is paired when every assistant turn with tool calls is followed at once by one tool
  message per call, in order, and there is no other tool message.\<close>

function paired :: "ChatCompletionMessage list \<Rightarrow> bool" where
  "paired [] = True"
| "paired (m # ms) =
     (case cm_tool_calls m of
        None \<Rightarrow> cm_role m \<noteq> ToolRole \<and> paired ms
      | Some calls \<Rightarrow>
          cm_role m = Role Assistant \<and>
          map (\<lambda>r. (cm_role r, cm_tool_call_id r)) (take (length calls) ms) =
            map (\<lambda>c. (ToolRole, Some (tc_id c))) calls \<and>
          paired (drop (length calls) ms))"
  by pat_completeness auto

termination
  by (relation "measure length") auto

lemma paired_replay_turn: "paired (replay_turn t es @ ms) = paired ms"
  by (simp add: replay_turn_def replay_result_def replay_call_def Let_def comp_def)

lemma paired_replay_loop: "paired ms \<Longrightarrow> paired (replay_loop c cursor gs @ ms)"
proof (induction c cursor gs rule: replay_loop.induct)
  case (2 c cursor anchor events gs)
  then show ?case using paired_replay_turn by simp
qed simp

lemma paired_replay_message: "paired ms \<Longrightarrow> paired (replay_message m @ ms)"
  by (auto simp: replay_message_def paired_replay_loop split: prod.split MessageBody.split)

lemma paired_transcript: "paired (buildApiTranscript ms)"
proof -
  have "paired (concat (map replay_message ms'))" for ms'
    by (induction ms') (simp_all add: paired_replay_message)
  then show ?thesis by (simp add: buildApiTranscript_def)
qed

lemma format_assistant:
  "from_role m = Assistant \<Longrightarrow> formatMessageForAPI m = (Assistant, PlainText (getMessageContent m))"
  by (simp add: formatMessageForAPI_def buildMessageContent_def)

lemma replay_groups:
  "groups_ok (length c) (foldl (add_to_group (length c)) [] (sort_cmp event_cmp es)) \<and>
   concat (map snd (foldl (add_to_group (length c)) [] (sort_cmp event_cmp es))) = sort_cmp event_cmp es"
  using grouped_events [OF event_order.sorted_sort_cmp, of "length c" "[]" es]
  by (simp add: groups_ok_def)

lemma replay_message_text:
  "concat (map assistant_text (replay_message m)) =
     (if from_role m = Assistant then getMessageContent m else [])"
proof (cases "from_role m = Assistant")
  case True
  then show ?thesis
    using replay_loop_text [of "getMessageContent m"] replay_groups [of "getMessageContent m"]
    by (simp add: replay_message_def format_assistant) (simp add: assistant_text_def)
next
  case False
  then show ?thesis
    by (cases "from_role m")
      (simp_all add: replay_message_def formatMessageForAPI_def assistant_text_def
        split: MessageBody.split)
qed

lemma recorded_exchange_replayed:
  "te_arguments e \<noteq> None \<Longrightarrow> te_result e \<noteq> None \<Longrightarrow>
     recorded_exchange off c e = (off + event_position (length c) e, replay_call e, replay_result e)"
  by (auto simp: recorded_exchange_def event_position_def replay_call_def replay_result_def api_message_def
      MAX_REPLAYED_TOOL_RESULT_CHARS_def Let_def not_le)

lemma sort_events: "sort_cmp event_cmp es = sort_key (\<lambda>e. or_value (te_anchor e) 0) es"
  by (rule sort_cmp_key) (simp add: event_cmp_def sorted_wrt_true)

lemma read_replay_message:
  "read_exchanges off (replay_message m @ ms) =
     (if from_role m = Assistant
      then map (recorded_exchange off (getMessageContent m))
        (sort_key (\<lambda>e. or_value (te_anchor e) 0) (replayable m)) @ read_exchanges (off + length (getMessageContent m)) ms
      else read_exchanges off ms)"
proof (cases "from_role m = Assistant \<and> replayable m \<noteq> []")
  case True
  let ?c = "getMessageContent m" and ?es = "sort_cmp event_cmp (replayable m)"
  have "replay_message m = replay_loop ?c 0 (foldl (add_to_group (length ?c)) [] ?es)"
    using True by (simp add: replay_message_def format_assistant)
  moreover have "map (\<lambda>e. (off + event_position (length ?c) e, replay_call e, replay_result e)) ?es =
      map (recorded_exchange off ?c) ?es"
    by (intro map_cong) (auto simp: replayable_def recorded_exchange_replayed)
  ultimately show ?thesis
    using read_replay_loop [of ?c _ 0 off ms] replay_groups [of ?c "replayable m"] True by (simp add: sort_events)
next
  case False
  then have "\<exists>r body. replay_message m = [api_message (Role r) (Some body)] \<and>
      (r = Assistant \<longleftrightarrow> from_role m = Assistant) \<and>
      (from_role m = Assistant \<longrightarrow> body = PlainText (getMessageContent m))"
    by (cases "from_role m") (auto simp: replay_message_def formatMessageForAPI_def buildMessageContent_def
        split: MessageBody.split)
  with False show ?thesis
    by (auto simp: read_no_calls assistant_text_def simp del: read_exchanges.simps)
qed

lemma spoken_iff: "spoken m \<longleftrightarrow> from_role m = Assistant \<and> isValidMessage m"
  by (auto simp: spoken_def isValidMessage_def hasMessageContent_def)

text \<open>C12. The transcript sent to the model says what the conversation says. The assistant turns carry exactly
  the text of the assistant messages, however often it is cut for tool calls. Each call with arguments and a
  result is replayed once, in the order of the positions, after the text that stood before it; and the message
  that answers it carries its identifier, its name and its result, a result of more than 4000 characters cut
  there. No tool message stands anywhere else. Assistant messages without text are left out, and with them
  their calls.\<close>

theorem transcript_faithful:
  "concat (map assistant_text (buildApiTranscript ms)) = concat (map getMessageContent (filter spoken ms)) \<and>
   read_exchanges 0 (buildApiTranscript ms) = recorded_exchanges 0 ms \<and>
   paired (buildApiTranscript ms)"
proof -
  have "concat (map assistant_text (concat (map replay_message (filter isValidMessage ms)))) =
      concat (map getMessageContent (filter spoken ms))"
    by (induction ms) (simp_all add: replay_message_text spoken_iff)
  moreover have "read_exchanges off (concat (map replay_message (filter isValidMessage ms))) = recorded_exchanges off ms" for off
    by (induction ms arbitrary: off) (simp_all add: read_replay_message spoken_iff replayable_def)
  ultimately show ?thesis
    using paired_transcript by (simp add: buildApiTranscript_def)
qed

lemma replayed_result_bounded:
  "length (body_text (cm_content (replay_result e))) \<le> MAX_REPLAYED_TOOL_RESULT_CHARS + 12"
  by (simp add: replay_result_def Let_def)

end
