(* ===== verification/StreamController.thy ===== *)
theory StreamController
  imports MessageStreaming
begin

text \<open>
  The streaming request controller, \<^verbatim>\<open>createStreamRequestController\<close> of
  \<^verbatim>\<open>src/web/src/features/playground/hooks/use-stream-request.ts\<close>, and the event readers of
  \<^verbatim>\<open>lib/streaming/stream-utils.ts\<close>. The controller is a state machine: every event (a caller's request,
  the arrival of headers, an event of a source, a stop) is one step on its state, in any
  interleaving. A callback may call the controller back; what it does is the argument \<open>react\<close>.
\<close>

section \<open>Reading events\<close>

definition STREAM_DONE_MESSAGE :: string where "STREAM_DONE_MESSAGE = ''[DONE]''"
definition STREAM_CLOSED_READY_STATE :: int where "STREAM_CLOSED_READY_STATE = 2"

record StreamErrorDetails =
  sed_code :: jsval
  sed_message :: jsval

text \<open>\<^verbatim>\<open>a || b\<close> on values.\<close>

definition js_or :: "jsval \<Rightarrow> jsval \<Rightarrow> jsval" where
  "js_or a b = (if truthy a then a else b)"

definition parseStreamErrorDetails ::
  "(string \<Rightarrow> jsval option) \<Rightarrow> string option \<Rightarrow> StreamErrorDetails" where
  "parseStreamErrorDetails json data =
     (let fallback = (case data of None \<Rightarrow> JStr API_REQUEST_ERROR
            | Some d \<Rightarrow> (if d = [] then JStr API_REQUEST_ERROR else JStr d));
          failed = \<lparr>sed_code = JUndefined, sed_message = fallback\<rparr> in
      case data of
        None \<Rightarrow> failed
      | Some d \<Rightarrow>
          (if d = [] then failed
           else (case json d of
             None \<Rightarrow> failed
           | Some parsed \<Rightarrow>
               (let e = jprop parsed ''error'' in
                if \<not> truthy e then failed
                else \<lparr>sed_code = js_or (jprop e ''code'') JUndefined,
                      sed_message = js_or (jprop e ''message'') fallback\<rparr>))))"

text \<open>\<^verbatim>\<open>v?.[0]\<close>; an element of a string has none of the properties read off it.\<close>

fun first_element :: "jsval \<Rightarrow> jsval" where
  "first_element (JArr (x # _)) = x"
| "first_element (JObj ps) = jprop (JObj ps) ''0''"
| "first_element _ = JUndefined"

text \<open>The parsed chunk, unless the text is no JSON or reading a property of it throws.\<close>

definition parse_chunk :: "(string \<Rightarrow> jsval option) \<Rightarrow> string \<Rightarrow> jsval option" where
  "parse_chunk json data =
     (case json data of None \<Rightarrow> None
      | Some v \<Rightarrow> (if v = JNull \<or> v = JUndefined then None else Some v))"

definition delta_of :: "jsval \<Rightarrow> jsval" where
  "delta_of chunk = jprop (first_element (jprop chunk ''choices'')) ''delta''"

definition parseStreamMessageUpdates ::
  "(string \<Rightarrow> jsval option) \<Rightarrow> string \<Rightarrow> (StreamChunkType \<times> jsval) list option" where
  "parseStreamMessageUpdates json data =
     (case parse_chunk json data of
        None \<Rightarrow> None
      | Some chunk \<Rightarrow>
          (let delta = delta_of chunk in
           if \<not> truthy delta then Some []
           else Some (
             (if truthy (jprop delta ''reasoning_content'')
              then [(ReasoningChunk, jprop delta ''reasoning_content'')] else []) @
             (if truthy (jprop delta ''content'')
              then [(ContentChunk, jprop delta ''content'')] else []))))"

definition parseStreamToolCallDeltas ::
  "(string \<Rightarrow> jsval option) \<Rightarrow> string \<Rightarrow> jsval list option" where
  "parseStreamToolCallDeltas json data =
     (case parse_chunk json data of
        None \<Rightarrow> None
      | Some chunk \<Rightarrow>
          (case jprop (delta_of chunk) ''tool_calls'' of
             JArr xs \<Rightarrow> Some (filter (\<lambda>d. truthy d \<and> is_number (jprop d ''index'')) xs)
           | _ \<Rightarrow> Some []))"

definition isStreamDoneMessage :: "string \<Rightarrow> bool" where
  "isStreamDoneMessage data \<longleftrightarrow> data = STREAM_DONE_MESSAGE"

definition isStreamClosedReadyState :: "int option \<Rightarrow> bool" where
  "isStreamClosedReadyState readyState \<longleftrightarrow> readyState = Some STREAM_CLOSED_READY_STATE"

definition getStreamReadyStateError :: "int option \<Rightarrow> nat option \<Rightarrow> string option" where
  "getStreamReadyStateError eventReadyState status' =
     (case (eventReadyState, status') of
        (Some rs, Some st) \<Rightarrow>
          (if STREAM_CLOSED_READY_STATE \<le> rs \<and> st \<noteq> 200
           then Some (''HTTP '' @ show_nat st @ '': '' @ CONNECTION_CLOSED) else None)
      | _ \<Rightarrow> None)"

section \<open>The controller\<close>

text \<open>What the caller of a request is told.\<close>

datatype callback =
    OnUpdate StreamChunkType jsval
  | OnToolCallDelta "jsval list"
  | OnComplete
  | OnError jsval jsval

fun terminal :: "callback \<Rightarrow> bool" where
  "terminal OnComplete = True"
| "terminal (OnError m c) = True"
| "terminal _ = False"

text \<open>
  The two variables of the closure; the sources made so far are numbered, and \<open>ctl_closed\<close> lists the
  calls of \<^verbatim>\<open>close\<close>. A call of \<^verbatim>\<open>send\<close> is known by its generation: it waits for headers
  (\<open>ctl_awaiting\<close>) or has made a source (\<open>ctl_live\<close>, with the source and its flag \<^verbatim>\<open>completed\<close>).
  \<open>ctl_log\<close> is what the callers were told, and by which request.
\<close>

record controller =
  ctl_source :: "nat option"
  ctl_generation :: int
  ctl_streaming :: bool
  ctl_next :: nat
  ctl_closed :: "nat list"
  ctl_awaiting :: "int list"
  ctl_live :: "(int \<times> (nat \<times> bool)) list"
  ctl_log :: "(int \<times> callback) list"

definition initial_controller :: controller where
  "initial_controller = \<lparr>ctl_source = None, ctl_generation = 0, ctl_streaming = False, ctl_next = 0,
     ctl_closed = [], ctl_awaiting = [], ctl_live = [], ctl_log = []\<rparr>"

type_synonym reaction = "int \<Rightarrow> callback \<Rightarrow> controller \<Rightarrow> controller"

definition fire :: "reaction \<Rightarrow> int \<Rightarrow> callback \<Rightarrow> controller \<Rightarrow> controller" where
  "fire react g cb c = react g cb (c\<lparr>ctl_log := ctl_log c @ [(g, cb)]\<rparr>)"

definition close_source :: "nat option \<Rightarrow> controller \<Rightarrow> controller" where
  "close_source s c = (case s of None \<Rightarrow> c | Some n \<Rightarrow> c\<lparr>ctl_closed := ctl_closed c @ [n]\<rparr>)"

definition closeActiveSource :: "nat \<Rightarrow> controller \<Rightarrow> controller" where
  "closeActiveSource target c =
     (let c = close_source (Some target) c in
      if ctl_source c = Some target then c\<lparr>ctl_source := None, ctl_streaming := False\<rparr> else c)"

text \<open>\<^verbatim>\<open>send\<close> up to the await of the headers.\<close>

definition send :: "controller \<Rightarrow> controller" where
  "send c =
     (let g = ctl_generation c + 1; previous = ctl_source c in
      (close_source previous (c\<lparr>ctl_generation := g, ctl_source := None\<rparr>))
        \<lparr>ctl_streaming := False, ctl_awaiting := ctl_awaiting c @ [g]\<rparr>)"

text \<open>The headers could not be had; \<open>message\<close> is the message of the error, if it is one.\<close>

definition headers_failed :: "reaction \<Rightarrow> int \<Rightarrow> string option \<Rightarrow> controller \<Rightarrow> controller" where
  "headers_failed react g message c =
     (let c = c\<lparr>ctl_awaiting := removeAll g (ctl_awaiting c)\<rparr> in
      if ctl_generation c \<noteq> g then c
      else fire react g (OnError (JStr (or_value message STREAM_START_ERROR)) JUndefined) c)"

text \<open>The headers arrived: a source is made and listened to.\<close>

definition headers_arrived :: "int \<Rightarrow> controller \<Rightarrow> controller" where
  "headers_arrived g c =
     (let c = c\<lparr>ctl_awaiting := removeAll g (ctl_awaiting c)\<rparr> in
      if ctl_generation c \<noteq> g then c
      else c\<lparr>ctl_next := ctl_next c + 1, ctl_source := Some (ctl_next c), ctl_streaming := True,
             ctl_live := AList.update g (ctl_next c, False) (ctl_live c)\<rparr>)"

definition isCurrent :: "int \<Rightarrow> nat \<Rightarrow> controller \<Rightarrow> bool" where
  "isCurrent g nextSource c \<longleftrightarrow> ctl_generation c = g \<and> ctl_source c = Some nextSource"

definition set_completed :: "int \<Rightarrow> nat \<Rightarrow> controller \<Rightarrow> controller" where
  "set_completed g n c = c\<lparr>ctl_live := AList.update g (n, True) (ctl_live c)\<rparr>"

definition completed :: "int \<Rightarrow> controller \<Rightarrow> bool" where
  "completed g c = (case map_of (ctl_live c) g of None \<Rightarrow> False | Some (_, b) \<Rightarrow> b)"

definition handleError ::
  "reaction \<Rightarrow> int \<Rightarrow> nat \<Rightarrow> jsval \<Rightarrow> jsval \<Rightarrow> controller \<Rightarrow> controller" where
  "handleError react g n message code c =
     (if \<not> isCurrent g n c \<or> completed g c then c
      else closeActiveSource n (fire react g (OnError message code) (set_completed g n c)))"

definition on_message ::
  "reaction \<Rightarrow> (string \<Rightarrow> jsval option) \<Rightarrow> int \<Rightarrow> nat \<Rightarrow> string option \<Rightarrow> controller \<Rightarrow> controller" where
  "on_message react json g n data c =
     (if \<not> isCurrent g n c \<or> completed g c then c
      else if isStreamDoneMessage (or_value data [])
      then fire react g OnComplete (closeActiveSource n (set_completed g n c))
      else (case parseStreamMessageUpdates json (or_value data []) of
          None \<Rightarrow> handleError react g n (JStr PARSE_ERROR) JUndefined c
        | Some updates \<Rightarrow>
            (let c = foldl (\<lambda>c (ty, chunk). fire react g (OnUpdate ty chunk) c) c updates in
             case parseStreamToolCallDeltas json (or_value data []) of
               None \<Rightarrow> handleError react g n (JStr PARSE_ERROR) JUndefined c
             | Some deltas \<Rightarrow>
                 (if deltas \<noteq> [] then fire react g (OnToolCallDelta deltas) c else c))))"

definition on_error ::
  "reaction \<Rightarrow> (string \<Rightarrow> jsval option) \<Rightarrow> int \<Rightarrow> nat \<Rightarrow> int option \<Rightarrow> string option \<Rightarrow> controller \<Rightarrow> controller"
  where
  "on_error react json g n readyState data c =
     (if \<not> isCurrent g n c \<or> completed g c then c
      else if \<not> isStreamClosedReadyState readyState
      then (let d = parseStreamErrorDetails json data in
            handleError react g n (sed_message d) (sed_code d) c)
      else c)"

definition on_readystatechange ::
  "reaction \<Rightarrow> int \<Rightarrow> nat \<Rightarrow> int option \<Rightarrow> nat option \<Rightarrow> controller \<Rightarrow> controller" where
  "on_readystatechange react g n readyState status' c =
     (if \<not> isCurrent g n c \<or> completed g c then c
      else (case getStreamReadyStateError readyState status' of
          None \<Rightarrow> c
        | Some message \<Rightarrow> handleError react g n (JStr message) JUndefined c))"

text \<open>\<^verbatim>\<open>nextSource.stream()\<close> throws.\<close>

definition stream_failed :: "reaction \<Rightarrow> int \<Rightarrow> nat \<Rightarrow> controller \<Rightarrow> controller" where
  "stream_failed react g n c =
     (if \<not> isCurrent g n c \<or> completed g c then c
      else handleError react g n (JStr STREAM_START_ERROR) JUndefined c)"

definition cancel :: "bool \<Rightarrow> controller \<Rightarrow> controller" where
  "cancel notify c =
     (let active = ctl_source c;
          c = close_source active (c\<lparr>ctl_generation := ctl_generation c + 1, ctl_source := None\<rparr>) in
      if notify then c\<lparr>ctl_streaming := False\<rparr> else c)"

definition stop :: "controller \<Rightarrow> controller" where "stop = cancel True"
definition dispose :: "controller \<Rightarrow> controller" where "dispose = cancel False"

text \<open>What a caller can do, and what can happen.\<close>

inductive api_step :: "controller \<Rightarrow> controller \<Rightarrow> bool" where
  Send: "api_step c (send c)"
| Stop: "api_step c (stop c)"
| Dispose: "api_step c (dispose c)"

inductive ctl_step :: "reaction \<Rightarrow> (string \<Rightarrow> jsval option) \<Rightarrow> controller \<Rightarrow> controller \<Rightarrow> bool"
  for react json where
  Api: "api_step c c' \<Longrightarrow> ctl_step react json c c'"
| HeadersFailed: "g \<in> set (ctl_awaiting c) \<Longrightarrow> ctl_step react json c (headers_failed react g m c)"
| HeadersArrived: "g \<in> set (ctl_awaiting c) \<Longrightarrow> ctl_step react json c (headers_arrived g c)"
| MessageEvent: "map_of (ctl_live c) g = Some (n, b) \<Longrightarrow>
    ctl_step react json c (on_message react json g n data c)"
| ErrorEvent: "map_of (ctl_live c) g = Some (n, b) \<Longrightarrow>
    ctl_step react json c (on_error react json g n rs data c)"
| ReadyStateEvent: "map_of (ctl_live c) g = Some (n, b) \<Longrightarrow>
    ctl_step react json c (on_readystatechange react g n rs st c)"
| StreamFailed: "map_of (ctl_live c) g = Some (n, b) \<Longrightarrow>
    ctl_step react json c (stream_failed react g n c)"

inductive_cases api_stepE: "api_step c c'"
inductive_cases ctl_stepE: "ctl_step react json c c'"

text \<open>A caller reacts through the interface of the controller only, and not at all to a mere update.\<close>

definition reactive :: "reaction \<Rightarrow> bool" where
  "reactive react \<longleftrightarrow> (\<forall>g cb c. api_step\<^sup>*\<^sup>* c (react g cb c) \<and> (\<not> terminal cb \<longrightarrow> react g cb c = c))"

section \<open>The invariant\<close>

text \<open>Callbacks come request by request, and a terminal one is the last of its request.\<close>

definition log_ok :: "(int \<times> callback) list \<Rightarrow> bool" where
  "log_ok l \<longleftrightarrow> sorted_wrt (\<lambda>a b. fst a \<le> fst b \<and> (fst a = fst b \<longrightarrow> \<not> terminal (snd a))) l"

definition request_over :: "int \<Rightarrow> controller \<Rightarrow> bool" where
  "request_over g c \<longleftrightarrow> g \<notin> set (ctl_awaiting c) \<and> (map_of (ctl_live c) g = None \<or> completed g c)"

text \<open>Nothing is known of a request that is yet to come; the current source belongs to the current
  generation and is open; every other source is closed; and a request whose end was reported is over.\<close>

definition requests_inv :: "controller \<Rightarrow> bool" where
  "requests_inv c \<longleftrightarrow>
     (\<forall>g \<in> set (ctl_awaiting c). g \<le> ctl_generation c \<and> map_of (ctl_live c) g = None) \<and>
     (\<forall>g n b. map_of (ctl_live c) g = Some (n, b) \<longrightarrow> g \<le> ctl_generation c \<and> n < ctl_next c)"

definition sources_inv :: "controller \<Rightarrow> bool" where
  "sources_inv c \<longleftrightarrow>
     (\<forall>n. ctl_source c = Some n \<longrightarrow> (\<exists>b. map_of (ctl_live c) (ctl_generation c) = Some (n, b)) \<and>
        ctl_streaming c \<and> n \<notin> set (ctl_closed c)) \<and>
     (\<forall>n < ctl_next c. n \<in> set (ctl_closed c) \<or> ctl_source c = Some n) \<and>
     (\<forall>n \<in> set (ctl_closed c). n < ctl_next c)"

definition log_inv :: "controller \<Rightarrow> bool" where
  "log_inv c \<longleftrightarrow> log_ok (ctl_log c) \<and>
     (\<forall>e \<in> set (ctl_log c). fst e \<le> ctl_generation c \<and> (terminal (snd e) \<longrightarrow> request_over (fst e) c))"

definition ctl_inv :: "controller \<Rightarrow> bool" where
  "ctl_inv c \<longleftrightarrow> requests_inv c \<and> sources_inv c \<and> log_inv c"

definition at_rest :: "controller \<Rightarrow> bool" where
  "at_rest c \<longleftrightarrow> ctl_source c = None \<or> \<not> completed (ctl_generation c) c"

lemmas ctl_inv_defs = ctl_inv_def requests_inv_def sources_inv_def log_inv_def
lemmas api_defs = send_def stop_def dispose_def cancel_def close_source_def

lemma ctl_inv_initial: "ctl_inv initial_controller \<and> at_rest initial_controller"
  by (simp add: ctl_inv_defs initial_controller_def log_ok_def at_rest_def)

lemma api_frame:
  assumes "api_step c c'"
  shows "ctl_log c' = ctl_log c" "ctl_live c' = ctl_live c" "ctl_next c' = ctl_next c"
    "ctl_generation c' = ctl_generation c + 1" "ctl_source c' = None"
    "set (ctl_closed c') = set (ctl_closed c) \<union> set_option (ctl_source c)"
    "set (ctl_awaiting c') \<subseteq> insert (ctl_generation c + 1) (set (ctl_awaiting c))"
  using assms by (auto elim!: api_stepE simp: api_defs Let_def split: option.splits)

lemma completed_live: "ctl_live c' = ctl_live c \<Longrightarrow> completed g c' = completed g c"
  by (simp add: completed_def)

lemma requests_inv_fresh: "requests_inv c \<Longrightarrow> ctl_generation c < g \<Longrightarrow> map_of (ctl_live c) g = None"
  by (cases "map_of (ctl_live c) g") (auto simp: requests_inv_def, force)

lemma api_inv:
  assumes "api_step c c'" "ctl_inv c"
  shows "ctl_inv c'"
proof -
  note frame = api_frame [OF assms(1)]
  have inv: "requests_inv c" "sources_inv c" "log_inv c"
    using assms(2) by (simp_all add: ctl_inv_def)
  have fresh: "map_of (ctl_live c) (ctl_generation c + 1) = None"
    by (rule requests_inv_fresh [OF inv(1)]) simp
  have "requests_inv c'"
    unfolding requests_inv_def frame(2-4)
  proof (intro conjI ballI allI impI)
    fix g assume "g \<in> set (ctl_awaiting c')"
    then have "g = ctl_generation c + 1 \<or> g \<in> set (ctl_awaiting c)"
      using frame(7) by blast
    then show "g \<le> ctl_generation c + 1" "map_of (ctl_live c) g = None"
      using inv(1) fresh by (force simp: requests_inv_def)+
  next
    fix g n b assume "map_of (ctl_live c) g = Some (n, b)"
    then show "g \<le> ctl_generation c + 1" "n < ctl_next c"
      using inv(1) by (force simp: requests_inv_def)+
  qed
  moreover have "sources_inv c'"
    using inv(1,2) unfolding sources_inv_def requests_inv_def frame(2,3,5,6) by force
  moreover have "log_inv c'"
    unfolding log_inv_def frame(1,4)
  proof (intro conjI ballI impI)
    fix e assume e: "e \<in> set (ctl_log c)"
    with inv(3) have le: "fst e \<le> ctl_generation c" by (simp add: log_inv_def)
    then show "fst e \<le> ctl_generation c + 1" by simp
    assume "terminal (snd e)"
    with inv(3) e have "request_over (fst e) c" by (simp add: log_inv_def)
    with le frame(7) show "request_over (fst e) c'"
      by (auto simp: request_over_def frame(2) completed_live [OF frame(2)])
  qed (use inv(3) in \<open>simp add: log_inv_def\<close>)
  ultimately show ?thesis by (simp add: ctl_inv_def)
qed

lemma api_steps:
  assumes "api_step\<^sup>*\<^sup>* c c'"
  shows "ctl_log c' = ctl_log c" "ctl_live c' = ctl_live c" "ctl_generation c \<le> ctl_generation c'"
    "ctl_source c' = ctl_source c \<and> c' = c \<or> ctl_source c' = None" "ctl_next c' = ctl_next c"
    "set (ctl_closed c) \<subseteq> set (ctl_closed c')"
  using assms by (induction rule: rtranclp_induct) (auto dest: api_frame)

lemma api_steps_inv: "api_step\<^sup>*\<^sup>* c c' \<Longrightarrow> ctl_inv c \<Longrightarrow> ctl_inv c'"
  by (induction rule: rtranclp_induct) (auto intro: api_inv)

section \<open>Every step keeps it\<close>

definition unreported :: "int \<Rightarrow> controller \<Rightarrow> bool" where
  "unreported g c \<longleftrightarrow> (\<forall>e \<in> set (ctl_log c). fst e = g \<longrightarrow> \<not> terminal (snd e))"

lemma unreported_open: "ctl_inv c \<Longrightarrow> \<not> request_over g c \<Longrightarrow> unreported g c"
  by (auto simp: ctl_inv_def log_inv_def unreported_def)

lemma ctl_inv_log:
  assumes inv: "ctl_inv c" and g: "ctl_generation c = g" and "unreported g c"
    and "terminal cb \<Longrightarrow> request_over g c"
  shows "ctl_inv (c\<lparr>ctl_log := ctl_log c @ [(g, cb)]\<rparr>)"
proof -
  let ?c = "c\<lparr>ctl_log := ctl_log c @ [(g, cb)]\<rparr>"
  have over: "request_over h ?c = request_over h c" for h
    by (simp add: request_over_def completed_def)
  have "log_ok (ctl_log ?c)"
    using inv g assms(3) by (auto simp: ctl_inv_def log_inv_def log_ok_def sorted_wrt_append unreported_def)
  moreover have "fst e \<le> ctl_generation ?c \<and> (terminal (snd e) \<longrightarrow> request_over (fst e) ?c)"
    if "e \<in> set (ctl_log ?c)" for e
    using that inv g assms(4) unfolding over by (auto simp: ctl_inv_def log_inv_def)
  ultimately have "log_inv ?c" unfolding log_inv_def by blast
  then show ?thesis
    using inv by (simp add: ctl_inv_def requests_inv_def sources_inv_def)
qed

lemma reactiveD:
  assumes "reactive react"
  shows "api_step\<^sup>*\<^sup>* c (react g cb c)" "\<not> terminal cb \<Longrightarrow> react g cb c = c"
  using assms unfolding reactive_def by blast+

lemma ctl_inv_fire:
  assumes "reactive react" "ctl_inv c" "ctl_generation c = g" "unreported g c"
    and "terminal cb \<Longrightarrow> request_over g c"
  shows "ctl_inv (fire react g cb c)"
  unfolding fire_def
  by (rule api_steps_inv [OF reactiveD(1) [OF assms(1)] ctl_inv_log [OF assms(2-5)]])

lemma fire_frame:
  assumes "reactive react"
  shows "ctl_log (fire react g cb c) = ctl_log c @ [(g, cb)]"
    "ctl_live (fire react g cb c) = ctl_live c"
    "ctl_generation c \<le> ctl_generation (fire react g cb c)"
    "ctl_source (fire react g cb c) = ctl_source c \<or> ctl_source (fire react g cb c) = None"
    "ctl_next (fire react g cb c) = ctl_next c"
    "set (ctl_closed c) \<subseteq> set (ctl_closed (fire react g cb c))"
  using api_steps [OF reactiveD(1) [OF assms(1), of "c\<lparr>ctl_log := ctl_log c @ [(g, cb)]\<rparr>" g cb]]
  by (auto simp: fire_def)

lemma fire_update:
  "reactive react \<Longrightarrow> \<not> terminal cb \<Longrightarrow> fire react g cb c = c\<lparr>ctl_log := ctl_log c @ [(g, cb)]\<rparr>"
  by (simp add: fire_def reactiveD(2))

lemma ctl_inv_set_completed:
  assumes "ctl_inv c" "map_of (ctl_live c) g = Some (n, b)"
  shows "ctl_inv (set_completed g n c)"
proof -
  let ?c = "set_completed g n c"
  have live: "map_of (ctl_live ?c) h = (if h = g then Some (n, True) else map_of (ctl_live c) h)" for h
    by (simp add: set_completed_def update_conv')
  have rest: "ctl_source ?c = ctl_source c" "ctl_generation ?c = ctl_generation c"
    "ctl_awaiting ?c = ctl_awaiting c" "ctl_closed ?c = ctl_closed c" "ctl_next ?c = ctl_next c"
    "ctl_streaming ?c = ctl_streaming c" "ctl_log ?c = ctl_log c"
    by (simp_all add: set_completed_def)
  have "request_over h c \<Longrightarrow> request_over h ?c" for h
    using assms(2) by (auto simp: request_over_def completed_def live rest)
  then have "log_inv ?c"
    using assms(1) by (auto simp: ctl_inv_def log_inv_def rest)
  moreover have "requests_inv ?c"
    using assms unfolding ctl_inv_def requests_inv_def live rest by force
  moreover have "sources_inv ?c"
    using assms unfolding ctl_inv_def sources_inv_def live rest by force
  ultimately show ?thesis by (simp add: ctl_inv_def)
qed

lemma closeActiveSource_frame [simp]:
  "ctl_live (closeActiveSource n c) = ctl_live c" "ctl_log (closeActiveSource n c) = ctl_log c"
  "ctl_generation (closeActiveSource n c) = ctl_generation c"
  "ctl_awaiting (closeActiveSource n c) = ctl_awaiting c"
  by (simp_all add: closeActiveSource_def close_source_def Let_def)

lemma ctl_inv_closeActiveSource:
  assumes "ctl_inv c" "n < ctl_next c"
  shows "ctl_inv (closeActiveSource n c)"
proof -
  have "requests_inv (closeActiveSource n c)" "log_inv (closeActiveSource n c)"
    using assms(1)
    by (auto simp: ctl_inv_def requests_inv_def log_inv_def request_over_def completed_def)
      (auto simp: closeActiveSource_def close_source_def Let_def)
  moreover have "sources_inv (closeActiveSource n c)"
    using assms by (auto simp: ctl_inv_def sources_inv_def closeActiveSource_def close_source_def Let_def)
  ultimately show ?thesis by (simp add: ctl_inv_def)
qed

text \<open>A step moves on: the generation never falls, and whoever is told something is the request that
  was current when the step began.\<close>

definition advances :: "controller \<Rightarrow> controller \<Rightarrow> bool" where
  "advances c c' \<longleftrightarrow> ctl_generation c \<le> ctl_generation c' \<and>
     (\<exists>new. ctl_log c' = ctl_log c @ new \<and> (\<forall>e \<in> set new. fst e = ctl_generation c))"

definition sound_step :: "controller \<Rightarrow> controller \<Rightarrow> bool" where
  "sound_step c c' \<longleftrightarrow> ctl_inv c' \<and> at_rest c' \<and> advances c c'"

lemma sound_step_refl: "ctl_inv c \<Longrightarrow> at_rest c \<Longrightarrow> sound_step c c"
  by (simp add: sound_step_def advances_def)

lemma current_request:
  assumes "ctl_inv c" "map_of (ctl_live c) g = Some (n, b)" "\<not> completed g c"
  shows "\<not> request_over g c" "n < ctl_next c" "b = False" "unreported g c"
proof -
  show "\<not> request_over g c"
    using assms(2,3) by (simp add: request_over_def)
  then show "unreported g c" using assms(1) by (rule unreported_open [rotated])
  show "n < ctl_next c" "b = False"
    using assms unfolding ctl_inv_def requests_inv_def by (blast, simp add: completed_def)
qed

lemma over_completed:
  "ctl_inv c \<Longrightarrow> map_of (ctl_live c) g = Some (n, b) \<Longrightarrow> request_over g (set_completed g n c)"
  by (force simp: request_over_def completed_def set_completed_def update_conv' ctl_inv_def
      requests_inv_def)

lemma set_completed_frame [simp]:
  "ctl_log (set_completed g n c) = ctl_log c" "ctl_generation (set_completed g n c) = ctl_generation c"
  "ctl_source (set_completed g n c) = ctl_source c" "ctl_next (set_completed g n c) = ctl_next c"
  by (simp_all add: set_completed_def)

lemma unreported_frame: "ctl_log c' = ctl_log c \<Longrightarrow> unreported g c' = unreported g c"
  by (simp add: unreported_def)

lemma handleError_step:
  assumes react: "reactive react" and inv: "ctl_inv c" "at_rest c"
    and live: "map_of (ctl_live c) g = Some (n, b)"
  shows "sound_step c (handleError react g n m code c)"
proof (cases "isCurrent g n c \<and> \<not> completed g c")
  case False
  then have "handleError react g n m code c = c" by (auto simp: handleError_def)
  then show ?thesis using inv by (simp add: sound_step_refl)
next
  case True
  then have cur: "ctl_generation c = g" "ctl_source c = Some n" by (simp_all add: isCurrent_def)
  note request = current_request [OF inv(1) live conjunct2 [OF True]]
  let ?done = "set_completed g n c" and ?fired = "fire react g (OnError m code) (set_completed g n c)"
  note frame = fire_frame [OF react, where g = g and cb = "OnError m code" and c = ?done]
  have "ctl_inv ?fired"
    using react ctl_inv_set_completed [OF inv(1) live] cur request(4) over_completed [OF inv(1) live]
    by (intro ctl_inv_fire) (simp_all add: unreported_def)
  then have "ctl_inv (closeActiveSource n ?fired)"
    using request(2) by (simp add: ctl_inv_closeActiveSource frame(5))
  moreover have "ctl_source (closeActiveSource n ?fired) = None"
    using frame(4) cur(2) by (auto simp: closeActiveSource_def close_source_def Let_def)
  ultimately show ?thesis
    using True cur frame
    by (auto simp: handleError_def sound_step_def at_rest_def advances_def)
qed

lemma ctl_inv_log_updates:
  assumes "ctl_inv c" "ctl_generation c = g" "unreported g c" "\<forall>cb \<in> set cbs. \<not> terminal cb"
  shows "ctl_inv (c\<lparr>ctl_log := ctl_log c @ map (Pair g) cbs\<rparr>) \<and>
    unreported g (c\<lparr>ctl_log := ctl_log c @ map (Pair g) cbs\<rparr>)"
  using assms(4)
proof (induction cbs rule: rev_induct)
  case (snoc cb cbs)
  then show ?case
    using ctl_inv_log [of "c\<lparr>ctl_log := ctl_log c @ map (Pair g) cbs\<rparr>" g cb] assms(2)
    by (auto simp: unreported_def)
qed (use assms in simp)

lemma fire_updates:
  assumes "reactive react"
  shows "foldl (\<lambda>c (ty, chunk). fire react g (OnUpdate ty chunk) c) c ups =
    c\<lparr>ctl_log := ctl_log c @ map (Pair g) (map (\<lambda>(ty, chunk). OnUpdate ty chunk) ups)\<rparr>"
proof (induction ups arbitrary: c)
  case (Cons u ups)
  then show ?case by (cases u) (simp add: fire_update [OF assms])
qed simp

lemma sound_step_updates:
  assumes "\<forall>cb \<in> set cbs. \<not> terminal cb" "ctl_generation c = g"
    and "sound_step (c\<lparr>ctl_log := ctl_log c @ map (Pair g) cbs\<rparr>) c'"
  shows "sound_step c c'"
  using assms by (auto simp: sound_step_def advances_def)

lemma sound_step_log:
  assumes "ctl_inv c" "at_rest c" "ctl_generation c = g" "unreported g c" "\<forall>cb \<in> set cbs. \<not> terminal cb"
  shows "sound_step c (c\<lparr>ctl_log := ctl_log c @ map (Pair g) cbs\<rparr>)"
  using assms ctl_inv_log_updates [OF assms(1,3,4,5)]
  by (auto simp: sound_step_def advances_def at_rest_def completed_def)

lemma on_done_step:
  assumes react: "reactive react" and inv: "ctl_inv c"
    and live: "map_of (ctl_live c) g = Some (n, b)" and cur: "isCurrent g n c" "\<not> completed g c"
  shows "sound_step c (fire react g OnComplete (closeActiveSource n (set_completed g n c)))"
proof -
  note request = current_request [OF inv live cur(2)]
  let ?closed = "closeActiveSource n (set_completed g n c)"
  have "ctl_inv ?closed"
    using ctl_inv_set_completed [OF inv live] request(2) by (simp add: ctl_inv_closeActiveSource)
  moreover have "request_over g ?closed"
    using over_completed [OF inv live] by (simp add: request_over_def completed_def)
  ultimately have "ctl_inv (fire react g OnComplete ?closed)"
    using react cur request(4) by (intro ctl_inv_fire) (simp_all add: isCurrent_def unreported_def)
  moreover have "ctl_source ?closed = None"
    using cur by (simp add: closeActiveSource_def close_source_def Let_def isCurrent_def)
  ultimately show ?thesis
    using cur fire_frame [OF react, where g = g and cb = OnComplete and c = ?closed]
    by (auto simp: sound_step_def at_rest_def advances_def isCurrent_def)
qed

lemma on_message_step:
  assumes react: "reactive react" and inv: "ctl_inv c" "at_rest c"
    and live: "map_of (ctl_live c) g = Some (n, b)"
  shows "sound_step c (on_message react json g n data c)"
proof (cases "isCurrent g n c \<and> \<not> completed g c")
  case False
  then have "on_message react json g n data c = c" by (auto simp: on_message_def)
  then show ?thesis using inv by (simp add: sound_step_refl)
next
  case True
  then have g: "ctl_generation c = g" by (simp add: isCurrent_def)
  note open_request = current_request [OF inv(1) live conjunct2 [OF True]]
  show ?thesis
  proof (cases "parseStreamMessageUpdates json (or_value data [])")
    case None
    then show ?thesis
      using True on_done_step [OF react inv(1) live] handleError_step [OF react inv live]
      by (simp add: on_message_def)
  next
    case (Some ups)
    let ?cbs = "map (\<lambda>(ty, chunk). OnUpdate ty chunk) ups"
    let ?c = "c\<lparr>ctl_log := ctl_log c @ map (Pair g) ?cbs\<rparr>"
    have quiet: "\<forall>cb \<in> set ?cbs. \<not> terminal cb" by auto
    have upd: "sound_step c ?c"
      by (rule sound_step_log [OF inv g open_request(4) quiet])
    then have "sound_step ?c (handleError react g n m code ?c)" for m code
      using live by (intro handleError_step [OF react]) (auto simp: sound_step_def)
    then have err: "sound_step c (handleError react g n m code ?c)" for m code
      by (rule sound_step_updates [OF quiet g])
    have tool: "sound_step c (fire react g (OnToolCallDelta ds) ?c)" for ds
      using sound_step_log [OF inv g open_request(4), of "?cbs @ [OnToolCallDelta ds]"] quiet
      by (simp add: fire_update [OF react])
    show ?thesis
      using True Some on_done_step [OF react inv(1) live] err tool upd
      by (simp add: on_message_def fire_updates [OF react] Let_def split: option.split)
  qed
qed

lemma headers_arrived_step:
  assumes inv: "ctl_inv c" "at_rest c" and g: "g \<in> set (ctl_awaiting c)"
  shows "sound_step c (headers_arrived g c)"
proof (cases "ctl_generation c = g")
  case False
  then show ?thesis
    using inv by (auto simp: headers_arrived_def sound_step_def advances_def at_rest_def ctl_inv_defs
        request_over_def completed_def Let_def)
next
  case True
  let ?c = "headers_arrived g c"
  have new: "ctl_source c = None" "map_of (ctl_live c) g = None"
    using inv(1) g True by (cases "ctl_source c", auto simp: ctl_inv_defs)
  have un: "unreported g c"
    by (rule unreported_open [OF inv(1)]) (use g in \<open>simp add: request_over_def\<close>)
  have live: "map_of (ctl_live ?c) h = (if h = g then Some (ctl_next c, False) else map_of (ctl_live c) h)" for h
    using True by (simp add: headers_arrived_def update_conv')
  have rest: "ctl_source ?c = Some (ctl_next c)" "ctl_generation ?c = ctl_generation c" "ctl_log ?c = ctl_log c"
    "ctl_next ?c = ctl_next c + 1" "ctl_closed ?c = ctl_closed c" "ctl_streaming ?c"
    "set (ctl_awaiting ?c) = set (ctl_awaiting c) - {g}"
    using True by (simp_all add: headers_arrived_def)
  have "requests_inv ?c"
    using inv(1) True unfolding ctl_inv_def requests_inv_def live rest by (auto simp: less_Suc_eq)
  moreover have "sources_inv ?c"
    using inv(1) True new rest(6) unfolding ctl_inv_def sources_inv_def live rest(1-5)
    by (auto simp: less_Suc_eq)
  moreover have "request_over (fst e) ?c" if "e \<in> set (ctl_log c)" "terminal (snd e)" for e
  proof -
    have "fst e \<noteq> g" using un that by (auto simp: unreported_def)
    moreover have "request_over (fst e) c" using inv(1) that by (auto simp: ctl_inv_def log_inv_def)
    ultimately show ?thesis by (auto simp: request_over_def completed_def live rest)
  qed
  then have "log_inv ?c"
    using inv(1) by (simp add: ctl_inv_def log_inv_def rest)
  ultimately show ?thesis
    using True by (simp add: sound_step_def ctl_inv_def at_rest_def advances_def completed_def live rest)
qed

lemma ctl_step_sound:
  assumes "reactive react" "ctl_step react json c c'" "ctl_inv c" "at_rest c"
  shows "sound_step c c'"
  using assms(2)
proof cases
  case Api
  then show ?thesis
    using assms api_inv api_frame [OF Api] by (auto simp: sound_step_def at_rest_def advances_def)
next
  case (HeadersFailed g m)
  let ?c = "c\<lparr>ctl_awaiting := removeAll g (ctl_awaiting c)\<rparr>"
  have inv: "ctl_inv ?c"
    using assms(3) by (auto simp: ctl_inv_defs request_over_def completed_def)
  have "\<not> request_over g c" using HeadersFailed by (simp add: request_over_def)
  then have un: "unreported g ?c"
    using unreported_open [OF assms(3)] by (simp add: unreported_def)
  have "request_over g ?c"
    using HeadersFailed assms(3) by (auto simp: request_over_def ctl_inv_def requests_inv_def)
  with inv un have "ctl_generation c = g \<Longrightarrow> ctl_inv (fire react g (OnError v JUndefined) ?c)" for v
    by (intro ctl_inv_fire [OF assms(1)]) simp_all
  moreover have "ctl_generation c = g \<Longrightarrow> ctl_source c = None"
    using HeadersFailed assms(3) by (cases "ctl_source c") (auto simp: ctl_inv_defs)
  ultimately show ?thesis
    using HeadersFailed inv assms(4)
      fire_frame [OF assms(1), where g = g and cb = "OnError v JUndefined" and c = ?c for v]
    by (auto simp: headers_failed_def sound_step_def at_rest_def advances_def completed_def Let_def)
next
  case (HeadersArrived g)
  then show ?thesis using assms(3,4) by (simp add: headers_arrived_step)
qed (use assms in \<open>auto intro: on_message_step handleError_step sound_step_refl
      simp: on_error_def on_readystatechange_def stream_failed_def Let_def split: option.split\<close>)

lemma ctl_steps_sound:
  assumes "reactive react" "(ctl_step react json)\<^sup>*\<^sup>* c c'" "ctl_inv c" "at_rest c"
  shows "ctl_inv c' \<and> at_rest c' \<and> ctl_generation c \<le> ctl_generation c' \<and>
    (\<exists>new. ctl_log c' = ctl_log c @ new \<and> (\<forall>e \<in> set new. ctl_generation c \<le> fst e))"
  using assms(2)
proof (induction rule: rtranclp_induct)
  case (step c1 c2)
  then have "sound_step c1 c2" using ctl_step_sound [OF assms(1)] by blast
  with step.IH show ?case
    by (force simp: sound_step_def advances_def)
qed (use assms in simp)

lemmas reachable_controller = ctl_steps_sound [OF _ _ ctl_inv_initial [THEN conjunct1]
    ctl_inv_initial [THEN conjunct2]]

section \<open>Properties\<close>

text \<open>C4. In every state the controller can reach, whatever the order of events: callers were told what
  happened request by request, and nothing after the completion or the error of a request; every
  source but the current one is closed; and a current source is open, shown as streaming, and
  belongs to a request that has not ended.\<close>

theorem controller_safe:
  assumes "reactive react" and "(ctl_step react json)\<^sup>*\<^sup>* initial_controller c"
  shows "log_ok (ctl_log c) \<and>
    (\<forall>n < ctl_next c. n \<in> set (ctl_closed c) \<or> ctl_source c = Some n) \<and>
    (\<forall>n. ctl_source c = Some n \<longrightarrow> n \<notin> set (ctl_closed c) \<and> ctl_streaming c \<and>
         map_of (ctl_live c) (ctl_generation c) = Some (n, False))"
proof -
  have inv: "requests_inv c" "sources_inv c" "log_inv c" "at_rest c"
    using reachable_controller [OF assms] by (simp_all add: ctl_inv_def)
  have "map_of (ctl_live c) (ctl_generation c) = Some (n, False)" if "ctl_source c = Some n" for n
    using inv(2,4) that by (auto simp: sources_inv_def at_rest_def completed_def)
  with inv show ?thesis
    by (simp add: sources_inv_def log_inv_def)
qed

text \<open>A request that is sent, gets its headers and completes.\<close>

definition sample_controller :: controller where
  "sample_controller = on_message (\<lambda>_ _ c. c) (\<lambda>_. None) 1 0 (Some ''[DONE]'')
     (headers_arrived 1 (send initial_controller))"

lemma reactive_silent: "reactive (\<lambda>_ _ c. c)"
  by (simp add: reactive_def)

lemma sample_running:
  "(ctl_step (\<lambda>_ _ c. c) (\<lambda>_. None))\<^sup>*\<^sup>* initial_controller (headers_arrived 1 (send initial_controller))"
proof -
  have "ctl_step (\<lambda>_ _ c. c) (\<lambda>_. None) initial_controller (send initial_controller)"
    by (intro Api Send)
  moreover have "ctl_step (\<lambda>_ _ c. c) (\<lambda>_. None) (send initial_controller)
      (headers_arrived 1 (send initial_controller))"
    by (rule HeadersArrived) (simp add: send_def initial_controller_def close_source_def)
  ultimately show ?thesis by (rule converse_rtranclp_into_rtranclp [OF _ r_into_rtranclp])
qed

lemma sample_reachable:
  "(ctl_step (\<lambda>_ _ c. c) (\<lambda>_. None))\<^sup>*\<^sup>* initial_controller sample_controller"
  unfolding sample_controller_def
  by (rule rtranclp.rtrancl_into_rtrancl [OF sample_running MessageEvent [where b = False]])
    (simp add: headers_arrived_def send_def initial_controller_def close_source_def)

lemma sample_log: "ctl_log sample_controller = [(1, OnComplete)]"
  by code_simp

theorem controller_safe_witness:
  "log_ok (ctl_log sample_controller) \<and> ctl_log sample_controller = [(1, OnComplete)]"
  using controller_safe [OF reactive_silent sample_reachable] sample_log by simp

text \<open>Once a request is stopped, or superseded by a new one, its caller and the callers of the requests
  before it are never told anything again, whatever happens afterwards.\<close>

theorem superseded_request_silent:
  assumes "reactive react" and "(ctl_step react json)\<^sup>*\<^sup>* initial_controller c"
    and "api_step c c1" and "(ctl_step react json)\<^sup>*\<^sup>* c1 c2"
  shows "filter (\<lambda>e. fst e \<le> ctl_generation c) (ctl_log c2) = ctl_log c"
proof -
  have inv: "ctl_inv c" "at_rest c" using reachable_controller [OF assms(1,2)] by simp_all
  have "sound_step c c1" by (rule ctl_step_sound [OF assms(1) Api [OF assms(3)] inv])
  then have "ctl_inv c1" "at_rest c1" by (simp_all add: sound_step_def)
  from ctl_steps_sound [OF assms(1,4) this] obtain new where
    "ctl_log c2 = ctl_log c @ new" "\<forall>e \<in> set new. ctl_generation c + 1 \<le> fst e"
    by (auto simp: api_frame [OF assms(3)])
  moreover have "filter (\<lambda>e. fst e \<le> ctl_generation c) (ctl_log c) = ctl_log c"
    using inv(1) by (auto simp: ctl_inv_def log_inv_def filter_id_conv)
  ultimately show ?thesis by (fastforce simp: filter_empty_conv)
qed

theorem superseded_request_silent_witness:
  "filter (\<lambda>e. fst e \<le> 1) (ctl_log (on_message (\<lambda>_ _ c. c) (\<lambda>_. None) 1 0 (Some ''[DONE]'')
     (stop (headers_arrived 1 (send initial_controller))))) = []"
proof -
  let ?c = "headers_arrived 1 (send initial_controller)"
  have "(ctl_step (\<lambda>_ _ c. c) (\<lambda>_. None))\<^sup>*\<^sup>* (stop ?c)
      (on_message (\<lambda>_ _ c. c) (\<lambda>_. None) 1 0 (Some ''[DONE]'') (stop ?c))"
    by (rule r_into_rtranclp, rule MessageEvent [where b = False])
      (simp add: headers_arrived_def send_def initial_controller_def close_source_def stop_def cancel_def)
  from superseded_request_silent [OF reactive_silent sample_running Stop this]
  show ?thesis
    by (simp add: headers_arrived_def send_def initial_controller_def close_source_def)
qed

lemma closed_closeActiveSource: "n \<in> set (ctl_closed (closeActiveSource n c))"
  by (simp add: closeActiveSource_def close_source_def Let_def)

text \<open>A message of the current source reaches its caller: the end marker completes the request and
  closes the source, data is handed over as its updates in order and then its tool-call fragments,
  with no other effect, and data that cannot be read ends the request with an error and closes the
  source.\<close>

theorem message_delivered:
  assumes "reactive react" and "isCurrent g n c" and "\<not> completed g c"
  shows "(isStreamDoneMessage (or_value data []) \<longrightarrow>
      ctl_log (on_message react json g n data c) = ctl_log c @ [(g, OnComplete)] \<and>
      n \<in> set (ctl_closed (on_message react json g n data c))) \<and>
    (\<not> isStreamDoneMessage (or_value data []) \<longrightarrow>
     parseStreamMessageUpdates json (or_value data []) = Some ups \<longrightarrow>
     parseStreamToolCallDeltas json (or_value data []) = Some ds \<longrightarrow>
      on_message react json g n data c = c\<lparr>ctl_log := ctl_log c @
        map (\<lambda>(ty, chunk). (g, OnUpdate ty chunk)) ups @
        (if ds = [] then [] else [(g, OnToolCallDelta ds)])\<rparr>) \<and>
    (\<not> isStreamDoneMessage (or_value data []) \<longrightarrow>
     parseStreamMessageUpdates json (or_value data []) = None \<longrightarrow>
      ctl_log (on_message react json g n data c) =
        ctl_log c @ [(g, OnError (JStr PARSE_ERROR) JUndefined)] \<and>
      n \<in> set (ctl_closed (on_message react json g n data c)))"
proof -
  have "n \<in> set (ctl_closed (fire react g OnComplete (closeActiveSource n (set_completed g n c))))"
    using fire_frame(6) [OF assms(1)] closed_closeActiveSource by blast
  moreover have "map (Pair g) (map (\<lambda>(ty, chunk). OnUpdate ty chunk) ups) =
      map (\<lambda>(ty, chunk). (g, OnUpdate ty chunk)) ups"
    by auto
  moreover have "fire react g (OnToolCallDelta ds) c' = c'\<lparr>ctl_log := ctl_log c' @ [(g, OnToolCallDelta ds)]\<rparr>" for c'
    by (simp add: fire_update [OF assms(1)])
  ultimately show ?thesis
    using assms(2,3)
    by (simp add: on_message_def handleError_def fire_frame(1) [OF assms(1)] fire_updates [OF assms(1)]
        closed_closeActiveSource Let_def)
qed

theorem message_delivered_witness:
  "on_message (\<lambda>_ _ c. c) (\<lambda>_. Some (JObj [(''choices'', JArr [JObj [(''delta'',
      JObj [(''content'', JStr ''hi'')])]])])) 1 0 (Some ''{}'')
     (headers_arrived 1 (send initial_controller)) =
   (headers_arrived 1 (send initial_controller))\<lparr>ctl_log := [(1, OnUpdate ContentChunk (JStr ''hi''))]\<rparr>"
  using message_delivered [OF reactive_silent, of 1 0 "headers_arrived 1 (send initial_controller)"
      "Some ''{}''" "\<lambda>_. Some (JObj [(''choices'', JArr [JObj [(''delta'',
      JObj [(''content'', JStr ''hi'')])]])])" "[(ContentChunk, JStr ''hi'')]" "[]"]
  by (simp add: headers_arrived_def send_def initial_controller_def close_source_def isCurrent_def
      completed_def isStreamDoneMessage_def STREAM_DONE_MESSAGE_def parseStreamMessageUpdates_def
      parseStreamToolCallDeltas_def parse_chunk_def delta_of_def)
end
