(* ===== verification/ChatHandler.thy ===== *)
theory ChatHandler
  imports Transcript StreamController
begin

text \<open>
  The chat handler, \<^verbatim>\<open>src/web/src/features/playground/hooks/use-chat-handler.ts\<close>: sending a conversation,
  the rounds of the tool loop, batching of stream updates, the silent retry and the forced final
  answer, with streamed and with plain requests. Its references and states are the fields of one
  record; each of its callbacks is a function on it, and each \<^verbatim>\<open>await\<close> is a point where the record keeps
  what is waiting. Updates of the messages take effect at once. The settings of the hook, the
  platform and the texts it inserts are the record \<open>env\<close>, an argument of every step.
\<close>

section \<open>Settings and state\<close>

definition MAX_TOOL_ROUNDS :: nat where "MAX_TOOL_ROUNDS = 5"

definition FINAL_ANSWER_NUDGE :: string where
  "FINAL_ANSWER_NUDGE = ''You have gathered enough information. Now write the complete final answer for the user in visible text. Do not call any more tools.''"

definition ERROR_MESSAGES :: "string list" where
  "ERROR_MESSAGES = [API_REQUEST_ERROR, ''Network connection failed or server not responding'', PARSE_ERROR,
     STREAM_START_ERROR, CONNECTION_CLOSED, INTERRUPTED, ''The model did not return an image'',
     ''No image generation model is available'', ''Tool call failed'', ''Invalid tool arguments'',
     ''Missing image prompt'', ''Missing search query'', ''Invalid page URL'',
     ''Plan must contain at least one step'', ''Web search failed'', ''Failed to fetch the page'']"

datatype ThinkingLevel = Lite | Low | Medium | High | Ultra

definition THINKING_LEVEL_REASONING_EFFORT :: "ThinkingLevel \<Rightarrow> string" where
  "THINKING_LEVEL_REASONING_EFFORT l = (case l of Lite \<Rightarrow> ''minimal'' | Low \<Rightarrow> ''low''
     | Medium \<Rightarrow> ''medium'' | High \<Rightarrow> ''high'' | Ultra \<Rightarrow> ''high'')"

text \<open>\<open>env_prompt\<close> is the system prompt for a level, for a model with native thinking or without;
  \<open>env_type_error\<close> the message of the error that reading a property of \<^verbatim>\<open>undefined\<close> throws.\<close>

record env =
  env_config :: PlaygroundConfig
  env_enabled :: ParameterEnabled
  env_toolsEnabled :: "(string \<times> bool) list"
  env_thinking :: bool
  env_level :: ThinkingLevel
  env_prompt :: "bool \<Rightarrow> ThinkingLevel \<Rightarrow> string"
  env_json :: "string \<Rightarrow> jsval option"
  env_stringify :: "jsval \<Rightarrow> string"
  env_t :: "string \<Rightarrow> string"
  env_ellipsis :: string
  env_type_error :: string

record PendingStreamChunks =
  ps_generation :: int
  ps_content :: string
  ps_reasoning :: string

record RoundState =
  rd_content :: string
  rd_calls :: "ToolCall sparse"

text \<open>A tool call being executed: its request, round and abort controller, and the calls after it.\<close>

record tool_run =
  run_generation :: int
  run_round :: nat
  run_abort :: nat
  run_call :: ToolCall
  run_rest :: "ToolCall sparse"

record post =
  post_generation :: int
  post_round :: nat
  post_abort :: nat

text \<open>
  The references of the hook; \<open>ch_timer\<close> is the generation whose flush is scheduled. Abort controllers
  are numbered. \<open>ch_stream\<close> is the request the stream controller is serving, with its round: a new
  one replaces it, and its completion or error, which comes at most once, ends it. \<open>ch_posts\<close> and
  \<open>ch_runs\<close> are the plain requests and the tool calls in progress, \<open>ch_requests\<close> all requests sent.
\<close>

record chat =
  ch_generation :: int
  ch_transcript :: "ChatCompletionMessage list option"
  ch_tools :: "jsval list"
  ch_round :: RoundState
  ch_modelOverride :: "string option"
  ch_retried :: bool
  ch_currentRound :: nat
  ch_produced :: bool
  ch_forced :: bool
  ch_effort :: "string option"
  ch_pending :: PendingStreamChunks
  ch_timer :: "int option"
  ch_requesting :: bool
  ch_abort :: "nat option"
  ch_aborted :: "nat list"
  ch_nextAbort :: nat
  ch_messages :: "Message list"
  ch_stream :: "(int \<times> nat) option"
  ch_posts :: "post list"
  ch_runs :: "tool_run list"
  ch_requests :: "(int \<times> nat \<times> ChatCompletionRequest) list"

definition no_round :: RoundState where
  "no_round = \<lparr>rd_content = [], rd_calls = []\<rparr>"

definition no_chunks :: "int \<Rightarrow> PendingStreamChunks" where
  "no_chunks g = \<lparr>ps_generation = g, ps_content = [], ps_reasoning = []\<rparr>"

definition initial_chat :: "Message list \<Rightarrow> chat" where
  "initial_chat ms = \<lparr>ch_generation = 0, ch_transcript = None, ch_tools = [], ch_round = no_round,
     ch_modelOverride = None, ch_retried = False, ch_currentRound = 0, ch_produced = False,
     ch_forced = False, ch_effort = None, ch_pending = no_chunks 0, ch_timer = None,
     ch_requesting = False, ch_abort = None, ch_aborted = [], ch_nextAbort = 0, ch_messages = ms,
     ch_stream = None, ch_posts = [], ch_runs = [], ch_requests = []\<rparr>"

section \<open>Batching stream updates\<close>

definition mergePendingStreamChunk :: "string \<Rightarrow> string \<Rightarrow> string" where
  "mergePendingStreamChunk currentChunk nextChunk =
     (if currentChunk = [] \<or> \<not> prefix currentChunk nextChunk then currentChunk @ nextChunk else nextChunk)"

definition discardPendingStreamUpdates :: "int \<Rightarrow> chat \<Rightarrow> chat" where
  "discardPendingStreamUpdates g c = c\<lparr>ch_timer := None, ch_pending := no_chunks g\<rparr>"

definition flush_message :: "int \<Rightarrow> PendingStreamChunks \<Rightarrow> Message \<Rightarrow> Message" where
  "flush_message now p message =
     (let m = (if ps_reasoning p \<noteq> [] then applyStreamingChunk now message ReasoningChunk (ps_reasoning p)
               else message) in
      if ps_content p \<noteq> [] then applyStreamingChunk now m ContentChunk (ps_content p) else m)"

definition flushStreamUpdates :: "int \<Rightarrow> int \<Rightarrow> chat \<Rightarrow> chat" where
  "flushStreamUpdates now g c =
     (if g \<noteq> ch_generation c then c
      else (let c = c\<lparr>ch_timer := None\<rparr>; p = ch_pending c in
            if ps_generation p \<noteq> g then c
            else if ps_reasoning p = [] \<and> ps_content p = [] then c
            else c\<lparr>ch_pending := no_chunks g,
                   ch_messages := updateLastAssistantMessage (ch_messages c) (flush_message now p)\<rparr>))"

definition scheduleStreamFlush :: "int \<Rightarrow> chat \<Rightarrow> chat" where
  "scheduleStreamFlush g c =
     (if g \<noteq> ch_generation c then c else if ch_timer c \<noteq> None then c else c\<lparr>ch_timer := Some g\<rparr>)"

definition handleStreamUpdate :: "int \<Rightarrow> StreamChunkType \<Rightarrow> string \<Rightarrow> chat \<Rightarrow> chat" where
  "handleStreamUpdate g type chunk c =
     (if g \<noteq> ch_generation c then c
      else if ps_generation (ch_pending c) \<noteq> g then c
      else (let c = (case type of
                ReasoningChunk \<Rightarrow> c
              | ContentChunk \<Rightarrow>
                  c\<lparr>ch_round := (ch_round c)\<lparr>rd_content :=
                       mergePendingStreamChunk (rd_content (ch_round c)) chunk\<rparr>,
                    ch_produced := (ch_produced c \<or> trim chunk \<noteq> [])\<rparr>);
                p = ch_pending c;
                p' = (case type of
                    ReasoningChunk \<Rightarrow> p\<lparr>ps_reasoning := mergePendingStreamChunk (ps_reasoning p) chunk\<rparr>
                  | ContentChunk \<Rightarrow> p\<lparr>ps_content := mergePendingStreamChunk (ps_content p) chunk\<rparr>) in
            scheduleStreamFlush g (c\<lparr>ch_pending := p'\<rparr>)))"

definition handleToolCallDelta :: "int \<Rightarrow> (string \<times> ToolCallDelta) list \<Rightarrow> chat \<Rightarrow> chat" where
  "handleToolCallDelta g deltas c =
     (if g \<noteq> ch_generation c then c
      else c\<lparr>ch_round := (ch_round c)\<lparr>rd_calls := mergeToolCallDeltas (rd_calls (ch_round c)) deltas\<rparr>\<rparr>)"

section \<open>Rounds\<close>

text \<open>The payload of a round, as both starters of a round build it.\<close>

definition round_payload :: "env \<Rightarrow> ChatCompletionMessage list \<Rightarrow> chat \<Rightarrow> ChatCompletionRequest" where
  "round_payload e transcript c =
     (let config = (case ch_modelOverride c of
            Some m \<Rightarrow> (if m = [] then env_config e else (env_config e)\<lparr>cfg_model := m\<rparr>)
          | None \<Rightarrow> env_config e);
          payload = buildChatApiPayload transcript config (env_enabled e)
            (if ch_forced c then [] else ch_tools c) in
      case ch_effort c of None \<Rightarrow> payload | Some x \<Rightarrow> payload\<lparr>rq_reasoning_effort := Some x\<rparr>)"

definition abort_current :: "chat \<Rightarrow> chat" where
  "abort_current c = (case ch_abort c of None \<Rightarrow> c | Some n \<Rightarrow> c\<lparr>ch_aborted := ch_aborted c @ [n]\<rparr>)"

definition new_abort :: "chat \<Rightarrow> chat" where
  "new_abort c = (abort_current c)\<lparr>ch_abort := Some (ch_nextAbort c), ch_nextAbort := ch_nextAbort c + 1\<rparr>"

definition startStreamRound :: "env \<Rightarrow> int \<Rightarrow> nat \<Rightarrow> chat \<Rightarrow> chat" where
  "startStreamRound e g r c =
     (case ch_transcript c of
        None \<Rightarrow> c
      | Some transcript \<Rightarrow>
          c\<lparr>ch_currentRound := r, ch_requests := ch_requests c @ [(g, r, round_payload e transcript c)],
            ch_stream := Some (g, r)\<rparr>)"

text \<open>\<^verbatim>\<open>runNonStreamingRound\<close> up to the await of the response.\<close>

definition runNonStreamingRound :: "env \<Rightarrow> int \<Rightarrow> nat \<Rightarrow> chat \<Rightarrow> chat" where
  "runNonStreamingRound e g r c =
     (case ch_transcript c of
        None \<Rightarrow> c
      | Some transcript \<Rightarrow>
          (let c' = new_abort (c\<lparr>ch_currentRound := r,
                 ch_requests := ch_requests c @ [(g, r, round_payload e transcript c)]\<rparr>) in
           c'\<lparr>ch_posts := ch_posts c' @ [\<lparr>post_generation = g, post_round = r, post_abort = ch_nextAbort c\<rparr>]\<rparr>))"

definition startRound :: "env \<Rightarrow> int \<Rightarrow> nat \<Rightarrow> chat \<Rightarrow> chat" where
  "startRound e g r c =
     (if cfg_stream (env_config e) then startStreamRound e g r c else runNonStreamingRound e g r c)"

definition pickFallbackModel :: "env \<Rightarrow> chat \<Rightarrow> string option \<times> chat" where
  "pickFallbackModel e c =
     (let currentModel = or_value (ch_modelOverride c) (cfg_model (env_config e)) in
      if \<not> ch_retried c then (Some currentModel, c\<lparr>ch_retried := True\<rparr>) else (None, c))"

definition retryWithFallbackModel :: "env \<Rightarrow> int \<Rightarrow> chat \<Rightarrow> bool \<times> chat" where
  "retryWithFallbackModel e g c =
     (case pickFallbackModel e c of
        (None, c) \<Rightarrow> (False, c)
      | (Some m, c) \<Rightarrow>
          (if m = [] then (False, c)
           else (True, startRound e g (ch_currentRound c)
                   (c\<lparr>ch_modelOverride := Some m, ch_round := (ch_round c)\<lparr>rd_calls := []\<rparr>\<rparr>))))"

definition push_transcript :: "ChatCompletionMessage \<Rightarrow> chat \<Rightarrow> chat" where
  "push_transcript m c = c\<lparr>ch_transcript := map_option (\<lambda>ts. ts @ [m]) (ch_transcript c)\<rparr>"

definition forceFinalAnswerRound :: "env \<Rightarrow> int \<Rightarrow> nat \<Rightarrow> chat \<Rightarrow> chat" where
  "forceFinalAnswerRound e g r c =
     (if ch_transcript c = None then c
      else startRound e g (r + 1)
        ((push_transcript (api_message (Role User) (Some (PlainText FINAL_ANSWER_NUDGE)))
            (c\<lparr>ch_forced := True\<rparr>))\<lparr>ch_round := no_round\<rparr>))"

section \<open>The tool loop\<close>

definition run_isCurrent :: "int \<Rightarrow> nat \<Rightarrow> chat \<Rightarrow> bool" where
  "run_isCurrent g n c \<longleftrightarrow> ch_generation c = g \<and> n \<notin> set (ch_aborted c)"

definition update_last :: "(Message \<Rightarrow> Message) \<Rightarrow> chat \<Rightarrow> chat" where
  "update_last f c = c\<lparr>ch_messages := updateLastAssistantMessage (ch_messages c) f\<rparr>"

definition running_event :: "env \<Rightarrow> int \<Rightarrow> ToolCall \<Rightarrow> ToolEvent" where
  "running_event e now call =
     \<lparr>te_id = tc_id call, te_name = tc_name call, te_status = Running,
      te_summary = summarizeToolCallArguments (env_ellipsis e)
        (parseToolArguments (env_json e) (tc_arguments call)),
      te_error = None, te_startedAt = Some now, te_completedAt = None, te_anchor = None,
      te_arguments = Some (tc_arguments call), te_result = None, te_plan = None\<rparr>"

definition tool_message :: "ToolCall \<Rightarrow> string \<Rightarrow> ChatCompletionMessage" where
  "tool_message call content = (api_message ToolRole (Some (PlainText content)))
     \<lparr>cm_tool_call_id := Some (tc_id call), cm_name := Some (tc_name call)\<rparr>"

definition finishWithError :: "env \<Rightarrow> int \<Rightarrow> string \<Rightarrow> ToolCall \<Rightarrow> string \<Rightarrow> chat \<Rightarrow> chat" where
  "finishWithError e now fresh call errorText c =
     (let payload = env_stringify e (JObj [(''error'', JStr errorText)]) in
      update_last (\<lambda>m. applyToolEventFinish now fresh m (tc_id call)
          \<lparr>fin_done = False, fin_summary = None, fin_error = Some errorText, fin_plan = None,
           fin_attachments = None, fin_sources = None, fin_thought = None, fin_result = Some payload\<rparr>)
        (push_transcript (tool_message call payload) c))"

definition finish_with_outcome ::
  "int \<Rightarrow> string \<Rightarrow> ToolCall \<Rightarrow> ToolExecutionOutcome \<Rightarrow> chat \<Rightarrow> chat" where
  "finish_with_outcome now fresh call outcome c =
     update_last (\<lambda>m. applyToolEventFinish now fresh m (tc_id call)
         \<lparr>fin_done = True, fin_summary = out_summary outcome, fin_error = None,
          fin_plan = out_plan outcome, fin_attachments = out_attachments outcome,
          fin_sources = out_sources outcome, fin_thought = out_thought outcome,
          fin_result = Some (out_content outcome)\<rparr>)
       (push_transcript (tool_message call (out_content outcome)) c)"

text \<open>The loop over the calls, up to the next call that has to be awaited or to its end. A hole in the
  calls makes the loop throw; nobody handles that, so nothing more happens.\<close>

fun run_calls :: "env \<Rightarrow> int \<Rightarrow> string \<Rightarrow> int \<Rightarrow> nat \<Rightarrow> nat \<Rightarrow> ToolCall sparse \<Rightarrow> chat \<Rightarrow> chat" where
  "run_calls e now fresh g r n [] c = (if run_isCurrent g n c then startRound e g (r + 1) c else c)"
| "run_calls e now fresh g r n (None # calls) c = c"
| "run_calls e now fresh g r n (Some call # calls) c =
     (if \<not> run_isCurrent g n c then c
      else (let c = update_last (\<lambda>m. applyToolEventStart m (running_event e now call)) c in
            if \<not> isPlaygroundToolId (tc_name call)
            then run_calls e now fresh g r n calls
              (finishWithError e now fresh call (''Unknown tool: '' @ tc_name call) c)
            else if parseToolArguments (env_json e) (tc_arguments call) = None
            then run_calls e now fresh g r n calls
              (finishWithError e now fresh call ''Invalid tool arguments'' c)
            else c\<lparr>ch_runs := ch_runs c @ [\<lparr>run_generation = g, run_round = r, run_abort = n,
                     run_call = call, run_rest = calls\<rparr>]\<rparr>))"

definition known_calls :: "ToolCall sparse \<Rightarrow> ToolCall list" where
  "known_calls calls = List.map_filter id calls"

definition runToolCalls :: "env \<Rightarrow> int \<Rightarrow> string \<Rightarrow> int \<Rightarrow> nat \<Rightarrow> chat \<Rightarrow> chat" where
  "runToolCalls e now fresh g r c =
     (if ch_transcript c = None then c
      else (let rd = ch_round c;
                c = push_transcript ((api_message (Role Assistant)
                       (if rd_content rd = [] then None else Some (PlainText (rd_content rd))))
                      \<lparr>cm_tool_calls := Some (known_calls (rd_calls rd))\<rparr>)
                    (c\<lparr>ch_round := no_round\<rparr>);
                n = ch_nextAbort c in
            run_calls e now fresh g r n (rd_calls rd) (new_abort c)))"

text \<open>The tool of a waiting call has finished: \<open>result\<close> is what it gave.\<close>

definition tool_finished ::
  "env \<Rightarrow> int \<Rightarrow> string \<Rightarrow> tool_run \<Rightarrow> tool_result \<Rightarrow> chat \<Rightarrow> chat" where
  "tool_finished e now fresh run result c =
     (let c = c\<lparr>ch_runs := remove1 run (ch_runs c)\<rparr>; g = run_generation run; n = run_abort run in
      if \<not> run_isCurrent g n c then c
      else run_calls e now fresh g (run_round run) n (run_rest run)
        (case result of
           Outcome outcome \<Rightarrow> finish_with_outcome now fresh (run_call run) outcome c
         | Thrown message \<Rightarrow> finishWithError e now fresh (run_call run) message c
         | NoOutcome \<Rightarrow> finishWithError e now fresh (run_call run) (env_type_error e) c))"

section \<open>The end of a round\<close>

definition getDisplayError :: "(string \<Rightarrow> string) \<Rightarrow> string \<Rightarrow> string" where
  "getDisplayError t err =
     (if err \<in> set ERROR_MESSAGES then t err
      else if suffix ('': '' @ CONNECTION_CLOSED) err
      then take (length err - length CONNECTION_CLOSED) err @ t CONNECTION_CLOSED
      else err)"

definition handleStreamComplete :: "env \<Rightarrow> int \<Rightarrow> string \<Rightarrow> int \<Rightarrow> nat \<Rightarrow> chat \<Rightarrow> chat" where
  "handleStreamComplete e now fresh g r c =
     (if g \<noteq> ch_generation c then c
      else (let c = flushStreamUpdates now g c; toolCalls = rd_calls (ch_round c);
                roundContent = trim (rd_content (ch_round c)) in
            if toolCalls \<noteq> [] \<and> r < MAX_TOOL_ROUNDS \<and> \<not> ch_forced c \<and> ch_transcript c \<noteq> None
            then runToolCalls e now fresh g r c
            else if (toolCalls \<noteq> [] \<or> roundContent = []) \<and> \<not> ch_forced c \<and>
                    (ch_produced c \<or> toolCalls \<noteq> [])
            then forceFinalAnswerRound e g r c
            else (let (retried, c) = (if roundContent = [] \<and> \<not> ch_produced c
                        then retryWithFallbackModel e g c else (False, c)) in
                  if retried then c
                  else update_last (\<lambda>m. if isAssistantMessageFinal m then m
                         else completeAssistantMessage now m) (c\<lparr>ch_requesting := False\<rparr>))))"

definition handleStreamError ::
  "env \<Rightarrow> int \<Rightarrow> int \<Rightarrow> string \<Rightarrow> string option \<Rightarrow> chat \<Rightarrow> chat" where
  "handleStreamError e now g err code c =
     (if g \<noteq> ch_generation c then c
      else (let (retried, c) = retryWithFallbackModel e g (flushStreamUpdates now g c) in
            if retried then c
            else c\<lparr>ch_requesting := False,
                   ch_messages := updateAssistantMessageWithError now (ch_messages c)
                     (getDisplayError (env_t e) err) code (Some (env_t e API_REQUEST_ERROR))\<rparr>))"

text \<open>The messages of a plain response that goes on with tools.\<close>

definition show_choice :: "int \<Rightarrow> ChatCompletionChoice \<Rightarrow> Message \<Rightarrow> Message" where
  "show_choice now choice message =
     (let m = (case choice_reasoning choice of
            Some rc \<Rightarrow> (if rc = [] then message else applyStreamingChunk now message ReasoningChunk rc)
          | None \<Rightarrow> message);
          content = or_value (choice_content choice) [] in
      if content = [] then m else applyStreamingChunk now m ContentChunk content)"

text \<open>The body of \<^verbatim>\<open>runNonStreamingRound\<close> once the response is there: the new state, and whether the
  generation goes on.\<close>

definition plain_response ::
  "env \<Rightarrow> int \<Rightarrow> string \<Rightarrow> int \<Rightarrow> nat \<Rightarrow> ChatCompletionResponse \<Rightarrow> chat \<Rightarrow> bool \<times> chat" where
  "plain_response e now fresh g r response c =
     (case response of
        [] \<Rightarrow> (False, handleStreamError e now g API_REQUEST_ERROR None c)
      | choice # _ \<Rightarrow>
          (let toolCalls = or_empty (choice_tool_calls choice);
               content = or_value (choice_content choice) [];
               c1 = c\<lparr>ch_produced := (ch_produced c \<or> trim content \<noteq> [])\<rparr> in
           if toolCalls \<noteq> [] \<and> r < MAX_TOOL_ROUNDS \<and> \<not> ch_forced c
           then (True, runToolCalls e now fresh g r (update_last (show_choice now choice)
                   (c1\<lparr>ch_round := \<lparr>rd_content = content, rd_calls = map Some toolCalls\<rparr>\<rparr>)))
           else if (toolCalls \<noteq> [] \<or> trim content = []) \<and> \<not> ch_forced c1 \<and>
                   (ch_produced c1 \<or> toolCalls \<noteq> [])
           then (True, forceFinalAnswerRound e g r c1)
           else (let (retried, c2) = (if trim content = [] \<and> \<not> ch_produced c1
                       then retryWithFallbackModel e g c1 else (False, c1)) in
                 if retried then (True, c2)
                 else (False, update_last (\<lambda>m. or_value (applyChatCompletionResponse now m response) m) c2))))"

text \<open>A failed request: the message and code \<^verbatim>\<open>parseRequestErrorDetails\<close> reads off the error.\<close>

datatype post_result = PostFailed string "string option" | PostAnswered ChatCompletionResponse

definition post_settled :: "env \<Rightarrow> int \<Rightarrow> string \<Rightarrow> post \<Rightarrow> post_result \<Rightarrow> chat \<Rightarrow> chat" where
  "post_settled e now fresh p result c =
     (let c = c\<lparr>ch_posts := remove1 p (ch_posts c)\<rparr>; g = post_generation p;
          (continued, c) =
            (if post_abort p \<in> set (ch_aborted c) \<or> ch_generation c \<noteq> g then (False, c)
             else (case result of
                 PostFailed message code \<Rightarrow> (False, handleStreamError e now g message code c)
               | PostAnswered response \<Rightarrow> plain_response e now fresh g (post_round p) response c));
          c = (if ch_abort c = Some (post_abort p) then c\<lparr>ch_abort := None\<rparr> else c) in
      if \<not> continued \<and> ch_generation c = g then c\<lparr>ch_requesting := False\<rparr> else c)"

section \<open>Sending, stopping, leaving\<close>

definition sendChat :: "env \<Rightarrow> Message list \<Rightarrow> chat \<Rightarrow> chat" where
  "sendChat e messages c =
     (let g = ch_generation c + 1;
          c = (abort_current (c\<lparr>ch_generation := g\<rparr>))\<lparr>ch_abort := None\<rparr>;
          c = (discardPendingStreamUpdates g c)\<lparr>ch_stream := None\<rparr>;
          native = supportsNativeThinking (cfg_model (env_config e));
          useThinkTool = (env_thinking e \<and> \<not> native);
          transcript = (if env_thinking e
            then [api_message (Role System) (Some (PlainText (env_prompt e native (env_level e))))] else []) @
            buildApiTranscript messages in
      startRound e g 0
        (c\<lparr>ch_transcript := Some transcript,
           ch_effort := (if env_thinking e \<and> native
             then Some (THINKING_LEVEL_REASONING_EFFORT (env_level e)) else None),
           ch_tools := buildPlaygroundToolDefinitions (env_toolsEnabled e) useThinkTool,
           ch_round := no_round, ch_modelOverride := None, ch_produced := False, ch_forced := False,
           ch_retried := False, ch_currentRound := 0, ch_requesting := True\<rparr>))"

definition stopGeneration :: "int \<Rightarrow> chat \<Rightarrow> chat" where
  "stopGeneration now c =
     (let stopped = ch_generation c;
          c = flushStreamUpdates now stopped c;
          c = discardPendingStreamUpdates (stopped + 1) (c\<lparr>ch_generation := stopped + 1\<rparr>);
          c = c\<lparr>ch_transcript := None, ch_round := no_round, ch_stream := None\<rparr>;
          c = (abort_current c)\<lparr>ch_abort := None, ch_requesting := False\<rparr> in
      update_last (\<lambda>m. if isAssistantMessagePending m then completeAssistantMessage now m else m) c)"

definition unmount :: "chat \<Rightarrow> chat" where
  "unmount c = (abort_current (c\<lparr>ch_generation := ch_generation c + 1, ch_timer := None\<rparr>))\<lparr>ch_abort := None\<rparr>"

text \<open>Taking the terminal callback of the stream off the request it belongs to.\<close>

definition stream_completed :: "env \<Rightarrow> int \<Rightarrow> string \<Rightarrow> int \<Rightarrow> nat \<Rightarrow> chat \<Rightarrow> chat" where
  "stream_completed e now fresh g r c = handleStreamComplete e now fresh g r (c\<lparr>ch_stream := None\<rparr>)"

definition stream_errored :: "env \<Rightarrow> int \<Rightarrow> int \<Rightarrow> string \<Rightarrow> string option \<Rightarrow> chat \<Rightarrow> chat" where
  "stream_errored e now g err code c = handleStreamError e now g err code (c\<lparr>ch_stream := None\<rparr>)"

section \<open>What can happen\<close>

text \<open>What the platform and the services do while a generation runs.\<close>

inductive event_step :: "env \<Rightarrow> chat \<Rightarrow> chat \<Rightarrow> bool" for e where
  StreamUpdate: "ch_stream c = Some (g, r) \<Longrightarrow> event_step e c (handleStreamUpdate g ty chunk c)"
| ToolDelta: "ch_stream c = Some (g, r) \<Longrightarrow> event_step e c (handleToolCallDelta g deltas c)"
| FlushTimer: "ch_timer c = Some g \<Longrightarrow> event_step e c (flushStreamUpdates now g c)"
| StreamDone: "ch_stream c = Some (g, r) \<Longrightarrow> event_step e c (stream_completed e now fresh g r c)"
| StreamError: "ch_stream c = Some (g, r) \<Longrightarrow> event_step e c (stream_errored e now g err code c)"
| PostSettled: "p \<in> set (ch_posts c) \<Longrightarrow> event_step e c (post_settled e now fresh p result c)"
| ToolFinished: "run \<in> set (ch_runs c) \<Longrightarrow>
    event_step e c (tool_finished e now fresh run
      (executePlaygroundTool (env_json e) (env_stringify e) (tc_name (run_call run))
        (tc_arguments (run_call run)) ctx) c)"

text \<open>What the user does: sending a conversation, which is shown first, stopping, editing, leaving.\<close>

inductive user_step :: "env \<Rightarrow> chat \<Rightarrow> chat \<Rightarrow> bool" for e where
  SendChat: "user_step e c (sendChat e ms (c\<lparr>ch_messages := ms\<rparr>))"
| StopGeneration: "user_step e c (stopGeneration now c)"
| EditMessages: "user_step e c (c\<lparr>ch_messages := ms\<rparr>)"
| Unmount: "user_step e c (unmount c)"

inductive chat_step :: "env \<Rightarrow> chat \<Rightarrow> chat \<Rightarrow> bool" for e where
  ByEvent: "event_step e c c' \<Longrightarrow> chat_step e c c'"
| ByUser: "user_step e c c' \<Longrightarrow> chat_step e c c'"

inductive_cases event_stepE: "event_step e c c'"
inductive_cases user_stepE: "user_step e c c'"
inductive_cases chat_stepE: "chat_step e c c'"

section \<open>The plan of a generation\<close>

text \<open>What a step leaves alone: the fields that say which requests were sent and what is in progress.\<close>

definition plan_of :: "chat \<Rightarrow> int \<times> (int \<times> nat) option \<times> post list \<times> tool_run list \<times>
    (int \<times> nat \<times> ChatCompletionRequest) list \<times> nat \<times> bool \<times> bool" where
  "plan_of c = (ch_generation c, ch_stream c, ch_posts c, ch_runs c, ch_requests c, ch_currentRound c,
     ch_forced c, ch_retried c)"

lemma plan_of_eq:
  assumes "plan_of c = plan_of d"
  shows "ch_generation c = ch_generation d" "ch_stream c = ch_stream d" "ch_posts c = ch_posts d"
    "ch_runs c = ch_runs d" "ch_requests c = ch_requests d" "ch_currentRound c = ch_currentRound d"
    "ch_forced c = ch_forced d" "ch_retried c = ch_retried d"
  using assms by (simp_all add: plan_of_def)

named_theorems chat_frame \<open>operations that leave the plan and the transcript alone\<close>

lemma field_frame [chat_frame, simp]:
  "plan_of (c\<lparr>ch_round := rd\<rparr>) = plan_of c" "plan_of (c\<lparr>ch_produced := b\<rparr>) = plan_of c"
  "plan_of (c\<lparr>ch_requesting := b\<rparr>) = plan_of c" "plan_of (c\<lparr>ch_messages := ms\<rparr>) = plan_of c"
  "plan_of (c\<lparr>ch_abort := a\<rparr>) = plan_of c" "plan_of (c\<lparr>ch_pending := ps\<rparr>) = plan_of c"
  "plan_of (c\<lparr>ch_timer := t\<rparr>) = plan_of c"
  by (simp_all add: plan_of_def)

lemma update_last_frame [chat_frame, simp]:
  "plan_of (update_last f c) = plan_of c" "ch_transcript (update_last f c) = ch_transcript c"
  "ch_aborted (update_last f c) = ch_aborted c" "ch_requesting (update_last f c) = ch_requesting c"
  by (simp_all add: update_last_def plan_of_def)

lemma abort_frame [chat_frame, simp]:
  "plan_of (abort_current c) = plan_of c" "ch_transcript (abort_current c) = ch_transcript c"
  "plan_of (new_abort c) = plan_of c" "ch_transcript (new_abort c) = ch_transcript c"
  "ch_requesting (new_abort c) = ch_requesting c"
  by (simp_all add: abort_current_def new_abort_def plan_of_def split: option.split)

lemma flush_frame [chat_frame, simp]:
  "plan_of (flushStreamUpdates now g c) = plan_of c"
  "ch_transcript (flushStreamUpdates now g c) = ch_transcript c"
  "ch_requesting (flushStreamUpdates now g c) = ch_requesting c"
  "ch_round (flushStreamUpdates now g c) = ch_round c"
  "ch_produced (flushStreamUpdates now g c) = ch_produced c"
  by (simp_all add: flushStreamUpdates_def plan_of_def Let_def)

lemma push_frame [chat_frame, simp]:
  "plan_of (push_transcript m c) = plan_of c"
  "ch_transcript (push_transcript m c) = map_option (\<lambda>ts. ts @ [m]) (ch_transcript c)"
  by (simp_all add: push_transcript_def plan_of_def)

text \<open>What is in progress for the current generation, by round.\<close>

definition tokens :: "chat \<Rightarrow> nat list" where
  "tokens c =
     (case ch_stream c of None \<Rightarrow> [] | Some (g, r) \<Rightarrow> (if g = ch_generation c then [r] else [])) @
     map post_round (filter (\<lambda>p. post_generation p = ch_generation c) (ch_posts c)) @
     map run_round (filter (\<lambda>r. run_generation r = ch_generation c) (ch_runs c))"

definition sent :: "int \<Rightarrow> chat \<Rightarrow> nat" where
  "sent g c = length (filter (\<lambda>x. fst x = g) (ch_requests c))"

text \<open>How many more requests the generation may send: the tool rounds and the forced answer that are
  left, and the retry.\<close>

definition reserve :: "nat \<Rightarrow> chat \<Rightarrow> nat" where
  "reserve r c = (if ch_forced c then 0 else Suc MAX_TOOL_ROUNDS - r) + (if ch_retried c then 0 else 1)"

definition budget_ok :: "nat \<Rightarrow> chat \<Rightarrow> bool" where
  "budget_ok r c \<longleftrightarrow> sent (ch_generation c) c + reserve r c \<le> 8 \<and> (\<not> ch_forced c \<longrightarrow> r \<le> MAX_TOOL_ROUNDS)"

definition filler :: "ToolCall \<Rightarrow> ChatCompletionMessage" where
  "filler call = tool_message call []"

text \<open>The transcript, completed by the results that the running tool calls still owe, is paired.\<close>

definition owed :: "chat \<Rightarrow> ToolCall list" where
  "owed c = concat (map (\<lambda>r. run_call r # known_calls (run_rest r))
     (filter (\<lambda>r. run_generation r = ch_generation c) (ch_runs c)))"

definition transcript_ok :: "ToolCall list \<Rightarrow> chat \<Rightarrow> bool" where
  "transcript_ok calls c \<longleftrightarrow>
     (case ch_transcript c of None \<Rightarrow> True | Some ts \<Rightarrow> paired (ts @ map filler calls))"

definition history_ok :: "chat \<Rightarrow> bool" where
  "history_ok c \<longleftrightarrow>
     (\<forall>x \<in> set (ch_requests c). fst x \<le> ch_generation c \<and> paired (rq_messages (snd (snd x)))) \<and>
     (\<forall>g. sent g c \<le> 8) \<and>
     (\<forall>g r. ch_stream c = Some (g, r) \<longrightarrow> g \<le> ch_generation c) \<and>
     (\<forall>p \<in> set (ch_posts c). post_generation p \<le> ch_generation c) \<and>
     (\<forall>r \<in> set (ch_runs c). run_generation r \<le> ch_generation c)"

text \<open>Calls run only before the forced answer and below the bound on the rounds.\<close>

definition may_call :: "chat \<Rightarrow> bool" where
  "may_call c \<longleftrightarrow> \<not> ch_forced c \<and> ch_currentRound c < MAX_TOOL_ROUNDS"

definition chat_inv :: "chat \<Rightarrow> bool" where
  "chat_inv c \<longleftrightarrow> history_ok c \<and>
     (tokens c = [] \<or> tokens c = [ch_currentRound c] \<and> budget_ok (ch_currentRound c) c \<and>
        transcript_ok (owed c) c \<and> (owed c \<noteq> [] \<longrightarrow> may_call c))"

text \<open>Between two things in progress: nothing is, and the next round may start.\<close>

definition ready :: "nat \<Rightarrow> ToolCall list \<Rightarrow> chat \<Rightarrow> bool" where
  "ready r calls c \<longleftrightarrow> history_ok c \<and> tokens c = [] \<and> ch_currentRound c = r \<and> budget_ok r c \<and>
     transcript_ok calls c"

lemma plan_cong:
  assumes "plan_of c = plan_of d"
  shows "tokens c = tokens d" "sent g c = sent g d" "budget_ok r c = budget_ok r d" "owed c = owed d"
    "history_ok c = history_ok d" "may_call c = may_call d"
  unfolding tokens_def sent_def budget_ok_def reserve_def owed_def history_ok_def may_call_def plan_of_eq [OF assms]
  by (rule refl)+

lemma chat_inv_cong:
  assumes "plan_of c = plan_of d" "ch_transcript c = ch_transcript d"
  shows "chat_inv c = chat_inv d"
  unfolding chat_inv_def transcript_ok_def plan_cong [OF assms(1)] plan_of_eq(6) [OF assms(1)] assms(2)
  by (rule refl)

lemma ready_cong:
  assumes "plan_of c = plan_of d" "ch_transcript c = ch_transcript d"
  shows "ready r calls c = ready r calls d"
  unfolding ready_def transcript_ok_def plan_cong [OF assms(1)] plan_of_eq(6) [OF assms(1)] assms(2)
  by (rule refl)

lemma ready_chat_inv: "ready r calls c \<Longrightarrow> chat_inv c"
  by (simp add: ready_def chat_inv_def)

lemma round_payload_messages [simp]: "rq_messages (round_payload e ts c) = ts"
  by (simp add: round_payload_def buildChatApiPayload_def Let_def split: option.split)

lemma startRound_frame:
  assumes "ch_transcript c = Some ts"
  shows "ch_generation (startRound e g r c) = ch_generation c"
    "ch_requests (startRound e g r c) = ch_requests c @ [(g, r, round_payload e ts c)]"
    "ch_currentRound (startRound e g r c) = r" "ch_forced (startRound e g r c) = ch_forced c"
    "ch_retried (startRound e g r c) = ch_retried c" "ch_transcript (startRound e g r c) = Some ts"
    "ch_runs (startRound e g r c) = ch_runs c" "ch_requesting (startRound e g r c) = ch_requesting c"
    "ch_messages (startRound e g r c) = ch_messages c"
  using assms
  by (simp_all add: startRound_def startStreamRound_def runNonStreamingRound_def new_abort_def
      abort_current_def Let_def split: option.split)

lemma startRound_none: "ch_transcript c = None \<Longrightarrow> startRound e g r c = c"
  by (simp add: startRound_def startStreamRound_def runNonStreamingRound_def)

lemma startRound_progress:
  assumes "ch_transcript c = Some ts"
  shows "ch_stream (startRound e g r c) = Some (g, r) \<and> ch_posts (startRound e g r c) = ch_posts c \<or>
    ch_stream (startRound e g r c) = ch_stream c \<and>
      (\<exists>n. ch_posts (startRound e g r c) = ch_posts c @
         [\<lparr>post_generation = g, post_round = r, post_abort = n\<rparr>])"
  using assms
  by (simp add: startRound_def startStreamRound_def runNonStreamingRound_def new_abort_def
      abort_current_def Let_def split: option.split)

lemma tokens_Nil:
  "tokens c = [] \<longleftrightarrow> (\<forall>r. ch_stream c \<noteq> Some (ch_generation c, r)) \<and>
     filter (\<lambda>p. post_generation p = ch_generation c) (ch_posts c) = [] \<and>
     filter (\<lambda>r. run_generation r = ch_generation c) (ch_runs c) = []"
  by (auto simp: tokens_def split: option.split)

lemma startRound_inv:
  assumes hist: "history_ok c" and idle: "tokens c = []" and g: "ch_generation c = g"
    and ts: "transcript_ok [] c" and budget: "sent g c + 1 + reserve r c \<le> 8"
    and round: "\<not> ch_forced c \<longrightarrow> r \<le> MAX_TOOL_ROUNDS"
  shows "chat_inv (startRound e g r c)"
proof (cases "ch_transcript c")
  case None
  then show ?thesis
    using hist idle by (simp add: startRound_none chat_inv_def)
next
  case (Some ts)
  let ?c = "startRound e g r c"
  note frame = startRound_frame [OF Some]
  have paired: "paired ts" using assms(4) Some by (simp add: transcript_ok_def)
  have sent: "sent h ?c = sent h c + (if h = g then 1 else 0)" for h
    by (simp add: sent_def frame)
  have tok: "tokens ?c = [r]"
    using startRound_progress [OF Some, of e g r] idle g
    unfolding tokens_Nil by (cases "ch_stream c") (auto simp: tokens_def frame)
  have owed: "owed ?c = []"
    using idle unfolding tokens_Nil by (simp add: owed_def frame)
  have "sent g c + 1 \<le> 8" using budget by simp
  then have "history_ok ?c"
    using hist g paired startRound_progress [OF Some, of e g r]
    unfolding history_ok_def sent by (cases "ch_stream c") (auto simp: frame)
  moreover have "budget_ok r ?c"
    using budget round by (simp add: budget_ok_def sent reserve_def frame g)
  ultimately show ?thesis
    using tok owed paired by (simp add: chat_inv_def transcript_ok_def frame)
qed

text \<open>Pairing looks at roles, calls and call identifiers only.\<close>

definition turn_view :: "ChatCompletionMessage \<Rightarrow> ApiRole \<times> ToolCall list option \<times> string option" where
  "turn_view m = (cm_role m, cm_tool_calls m, cm_tool_call_id m)"

lemma turn_view_results:
  "map turn_view xs = map turn_view ys \<Longrightarrow>
   map (\<lambda>r. (cm_role r, cm_tool_call_id r)) (take n xs) = map (\<lambda>r. (cm_role r, cm_tool_call_id r)) (take n ys)"
  by (auto simp: list_eq_iff_nth_eq turn_view_def)

lemma paired_view: "map turn_view xs = map turn_view ys \<Longrightarrow> paired xs = paired ys"
proof (induction xs arbitrary: ys rule: paired.induct)
  case (2 m ms)
  then obtain m' ms' where ys: "ys = m' # ms'" by (cases ys) auto
  with 2(3) have ms: "map turn_view ms = map turn_view ms'" by simp
  from 2(3) ys have m': "cm_role m' = cm_role m" "cm_tool_calls m' = cm_tool_calls m"
    by (simp_all add: turn_view_def)
  have "map turn_view (drop n ms) = map turn_view (drop n ms')" for n
    using ms by (simp add: drop_map [symmetric])
  with 2(1) [OF _ ms] 2(2) turn_view_results [OF ms] show ?case
    unfolding ys by (simp add: m' split: option.split)
qed simp

lemma paired_append: "paired xs \<Longrightarrow> paired (xs @ ys) = paired ys"
proof (induction xs rule: paired.induct)
  case (2 m ms)
  show ?case
  proof (cases "cm_tool_calls m")
    case None
    with 2 show ?thesis by simp
  next
    case (Some calls)
    then have results: "map (\<lambda>r. (cm_role r, cm_tool_call_id r)) (take (length calls) ms) =
        map (\<lambda>c. (ToolRole, Some (tc_id c))) calls" using 2(3) by simp
    have "length calls \<le> length ms"
      using arg_cong [OF results, of length] unfolding length_map length_take by simp
    with 2(2) [OF Some] 2(3) Some results show ?thesis by simp
  qed
qed simp

lemma paired_calls:
  assumes "paired ts" "cm_tool_calls m = Some calls" "cm_role m = Role Assistant"
  shows "paired ((ts @ [m]) @ map filler calls)"
  using paired_append [OF assms(1), of "m # map filler calls"] assms(2,3)
  by (simp add: filler_def tool_message_def api_message_def comp_def)

lemma paired_answered: "paired (ts @ filler call # ms) = paired (ts @ tool_message call s # ms)"
  by (rule paired_view) (simp add: turn_view_def filler_def tool_message_def api_message_def)

lemma ready_next_round:
  assumes "ready r [] c" "may_call c" "g = ch_generation c"
  shows "chat_inv (startRound e g (r + 1) c)"
proof (rule startRound_inv)
  show "sent g c + 1 + reserve (r + 1) c \<le> 8"
    using assms by (cases "ch_retried c") (auto simp: ready_def budget_ok_def reserve_def may_call_def)
qed (use assms in \<open>simp_all add: ready_def may_call_def\<close>)

lemma ready_answered:
  "ready r (call # calls) c \<Longrightarrow> ready r calls (update_last f (push_transcript (tool_message call s) c))"
  unfolding ready_def transcript_ok_def
  by (simp add: plan_cong [of "update_last f (push_transcript m c)" c for m]
      plan_of_eq(6) [of "update_last f (push_transcript m c)" c for m]
      paired_answered [of _ call _ s] split: option.splits)

lemma ready_awaiting:
  assumes "ready r (call # known_calls calls) c" "may_call c"
  shows "chat_inv (c\<lparr>ch_runs := ch_runs c @ [\<lparr>run_generation = ch_generation c, run_round = r,
     run_abort = n, run_call = call, run_rest = calls\<rparr>]\<rparr>)" (is "chat_inv ?c")
proof -
  have history: "history_ok ?c"
    using assms(1) by (simp add: ready_def history_ok_def sent_def)
  have budget: "budget_ok r ?c" "may_call ?c"
    using assms by (simp_all add: ready_def sent_def budget_ok_def reserve_def may_call_def)
  have idle: "\<forall>r. ch_stream c \<noteq> Some (ch_generation c, r)"
      "filter (\<lambda>p. post_generation p = ch_generation c) (ch_posts c) = []"
      "filter (\<lambda>r. run_generation r = ch_generation c) (ch_runs c) = []"
    using assms(1) unfolding ready_def tokens_Nil by simp_all
  have tok: "tokens ?c = [r]"
    unfolding tokens_def using idle(1) by (cases "ch_stream c") (auto simp: idle(2,3))
  have owed: "owed ?c = call # known_calls calls"
    by (simp add: owed_def idle(3))
  have round: "ch_currentRound ?c = r" and ts: "transcript_ok (call # known_calls calls) ?c"
    using assms(1) by (simp_all add: ready_def transcript_ok_def)
  show ?thesis
    unfolding chat_inv_def tok owed round using history budget ts by blast
qed

lemma known_calls_simps [simp]:
  "known_calls [] = []" "known_calls (None # cs) = known_calls cs"
  "known_calls (Some c # cs) = c # known_calls cs"
  by (simp_all add: known_calls_def List.map_filter_def)

lemma may_call_cong: "plan_of c = plan_of d \<Longrightarrow> may_call c = may_call d"
  by (rule plan_cong)

lemma finish_frame [chat_frame, simp]:
  "plan_of (finishWithError e now fresh call err c) = plan_of c"
  "plan_of (finish_with_outcome now fresh call outcome c) = plan_of c"
  by (simp_all add: finishWithError_def finish_with_outcome_def Let_def)

lemma run_calls_inv:
  assumes "ready r (known_calls calls) c" "may_call c"
  shows "chat_inv (run_calls e now fresh g r n calls c)"
  using assms
proof (induction calls arbitrary: c)
  case Nil
  then show ?case
    using ready_next_round [of r c g e] ready_chat_inv [of r "[]" c] by (auto simp: run_isCurrent_def)
next
  case (Cons x calls)
  show ?case
  proof (cases x)
    case None
    then show ?thesis using Cons.prems ready_chat_inv by simp
  next
    case (Some call)
    define c1 where "c1 = update_last (\<lambda>m. applyToolEventStart m (running_event e now call)) c"
    have c1: "plan_of c1 = plan_of c" "ch_transcript c1 = ch_transcript c" by (simp_all add: c1_def)
    have r1: "ready r (call # known_calls calls) c1"
      using Cons.prems(1) Some ready_cong [OF c1] by simp
    have m1: "may_call c1" using Cons.prems(2) may_call_cong [OF c1(1)] by simp
    have answered: "chat_inv (run_calls e now fresh g r n calls (finishWithError e now fresh call err c1))" for err
    proof (rule Cons.IH)
      show "ready r (known_calls calls) (finishWithError e now fresh call err c1)"
        unfolding finishWithError_def Let_def by (rule ready_answered [OF r1])
      show "may_call (finishWithError e now fresh call err c1)"
        using m1 may_call_cong [of "finishWithError e now fresh call err c1" c1] by simp
    qed
    have "chat_inv c" using Cons.prems(1) by (rule ready_chat_inv)
    with answered ready_awaiting [OF r1 m1] plan_of_eq(1) [OF c1(1)] show ?thesis
      by (auto simp: Some run_isCurrent_def Let_def c1_def)
  qed
qed

lemma runToolCalls_inv:
  assumes "ready r [] c" "may_call c"
  shows "chat_inv (runToolCalls e now fresh g r c)"
proof (cases "ch_transcript c")
  case None
  then show ?thesis using ready_chat_inv [OF assms(1)] by (simp add: runToolCalls_def)
next
  case (Some ts)
  let ?calls = "known_calls (rd_calls (ch_round c))"
  define m where "m = (api_message (Role Assistant)
      (if rd_content (ch_round c) = [] then None else Some (PlainText (rd_content (ch_round c)))))
        \<lparr>cm_tool_calls := Some ?calls\<rparr>"
  define c1 where "c1 = new_abort (push_transcript m (c\<lparr>ch_round := no_round\<rparr>))"
  have plan: "plan_of c1 = plan_of c" by (simp add: c1_def)
  have "paired ((ts @ [m]) @ map filler ?calls)"
    using assms(1) Some by (intro paired_calls) (simp_all add: ready_def transcript_ok_def m_def api_message_def)
  then have "ready r ?calls c1"
    using assms(1) plan_cong [OF plan] plan_of_eq(6) [OF plan] Some
    by (simp add: ready_def transcript_ok_def c1_def)
  moreover have "may_call c1" using assms(2) may_call_cong [OF plan] by simp
  ultimately have "chat_inv (run_calls e now fresh g r n (rd_calls (ch_round c)) c1)" for n
    by (rule run_calls_inv)
  then show ?thesis
    using Some by (simp add: runToolCalls_def Let_def c1_def m_def)
qed

lemma forceFinalAnswerRound_inv:
  assumes "ready r [] c" "\<not> ch_forced c" "g = ch_generation c"
  shows "chat_inv (forceFinalAnswerRound e g r c)"
proof (cases "ch_transcript c")
  case None
  then show ?thesis using ready_chat_inv [OF assms(1)] by (simp add: forceFinalAnswerRound_def)
next
  case (Some ts)
  define m where "m = api_message (Role User) (Some (PlainText FINAL_ANSWER_NUDGE))"
  define c1 where "c1 = (push_transcript m (c\<lparr>ch_forced := True\<rparr>))\<lparr>ch_round := no_round\<rparr>"
  have c1: "ch_transcript c1 = Some (ts @ [m])" "ch_forced c1" "ch_retried c1 = ch_retried c"
      "ch_generation c1 = ch_generation c" "tokens c1 = tokens c" "sent h c1 = sent h c"
      "history_ok c1 = history_ok c" for h
    using Some by (simp_all add: c1_def push_transcript_def tokens_def sent_def history_ok_def
        cong: option.case_cong)
  have "paired (ts @ [m])"
    using assms(1) Some paired_append [of ts "[m]"]
    by (simp add: ready_def transcript_ok_def m_def api_message_def)
  then have "chat_inv (startRound e g (r + 1) c1)"
    using assms by (intro startRound_inv)
      (auto simp: c1 ready_def transcript_ok_def budget_ok_def reserve_def)
  then show ?thesis using Some by (simp add: forceFinalAnswerRound_def c1_def m_def)
qed

lemma retryWithFallbackModel_inv:
  assumes "ready (ch_currentRound c) [] c" "g = ch_generation c"
  shows "chat_inv (snd (retryWithFallbackModel e g c))"
proof -
  let ?m = "or_value (ch_modelOverride c) (cfg_model (env_config e))"
  have retry: "chat_inv (startRound e g (ch_currentRound c) c1)" "chat_inv c1"
    if "c1 = c\<lparr>ch_retried := True, ch_modelOverride := o1, ch_round := rd\<rparr>" "\<not> ch_retried c" for c1 o1 rd
  proof -
    have c1: "ch_transcript c1 = ch_transcript c" "ch_forced c1 = ch_forced c" "ch_retried c1"
        "ch_generation c1 = ch_generation c" "tokens c1 = tokens c" "sent h c1 = sent h c"
        "history_ok c1 = history_ok c" for h
      using that(1) by (simp_all add: tokens_def sent_def history_ok_def cong: option.case_cong)
    show "chat_inv (startRound e g (ch_currentRound c) c1)"
      using assms that(2) by (intro startRound_inv)
        (auto simp: c1 ready_def transcript_ok_def budget_ok_def reserve_def)
    show "chat_inv c1" using assms(1) by (simp add: chat_inv_def ready_def c1)
  qed
  have "c\<lparr>ch_retried := True\<rparr> =
      c\<lparr>ch_retried := True, ch_modelOverride := ch_modelOverride c, ch_round := ch_round c\<rparr>" by simp
  from retry(2) [OF this] retry(1) [OF refl] ready_chat_inv [OF assms(1)] show ?thesis
    by (simp add: retryWithFallbackModel_def pickFallbackModel_def Let_def)
qed

lemma flushed_ready: "ready r calls (flushStreamUpdates now g c) = ready r calls c"
  by (rule ready_cong) simp_all

lemma handleStreamComplete_inv:
  assumes "ready r [] c" "g = ch_generation c"
  shows "chat_inv (handleStreamComplete e now fresh g r c)"
proof -
  define d where "d = flushStreamUpdates now g c"
  have d: "ready r [] d" "g = ch_generation d" "ch_currentRound d = r"
    using assms plan_of_eq(1,6) [of d c] by (simp_all add: d_def flushed_ready) (simp add: ready_def)
  note handlers = runToolCalls_inv [OF d(1)] forceFinalAnswerRound_inv [OF d(1) _ d(2)] ready_chat_inv [OF d(1)]
  have may: "r < MAX_TOOL_ROUNDS \<Longrightarrow> \<not> ch_forced d \<Longrightarrow> may_call d"
    using d(1) by (simp add: may_call_def ready_def)
  have ended: "chat_inv (update_last f (x\<lparr>ch_requesting := False\<rparr>)) = chat_inv x" for f x
    by (rule chat_inv_cong) simp_all
  have retry: "chat_inv (snd (retryWithFallbackModel e g d))"
    using d by (intro retryWithFallbackModel_inv) simp_all
  show ?thesis
    using handlers may retry
    unfolding handleStreamComplete_def Let_def d_def [symmetric] assms(2) [symmetric]
    by (cases "retryWithFallbackModel e g d") (simp add: ended)
qed

lemma handleStreamError_inv:
  assumes "ready (ch_currentRound c) [] c" "g = ch_generation c"
  shows "chat_inv (handleStreamError e now g err code c)"
proof -
  define d where "d = flushStreamUpdates now g c"
  have plan: "plan_of d = plan_of c" by (simp add: d_def)
  have "chat_inv (snd (retryWithFallbackModel e g d))"
    using assms plan_of_eq(1,6) [OF plan] by (intro retryWithFallbackModel_inv) (simp_all add: d_def flushed_ready)
  moreover have "chat_inv (x\<lparr>ch_requesting := False, ch_messages := ms\<rparr>) = chat_inv x" for ms x
    by (rule chat_inv_cong) (simp_all add: plan_of_def)
  ultimately show ?thesis
    by (cases "retryWithFallbackModel e g d")
      (simp add: handleStreamError_def assms(2) [symmetric] d_def [symmetric])
qed

lemma plain_response_inv:
  assumes "ready r [] c" "g = ch_generation c"
  shows "chat_inv (snd (plain_response e now fresh g r response c))"
proof (cases response)
  case Nil
  have "ch_currentRound c = r" using assms(1) by (simp add: ready_def)
  then show ?thesis
    using handleStreamError_inv [of c g] assms by (simp add: plain_response_def Nil)
next
  case (Cons choice rest)
  let ?content = "or_value (choice_content choice) []"
  define d where "d = c\<lparr>ch_produced := (ch_produced c \<or> trim ?content \<noteq> [])\<rparr>"
  have d: "ready r [] d" "g = ch_generation d" "ch_forced d = ch_forced c"
    using assms ready_cong [of d c] by (simp_all add: d_def plan_of_def)
  have round: "ch_currentRound d = r" using d(1) by (simp add: ready_def)
  have calls: "ready r [] (update_last f (d\<lparr>ch_round := rd\<rparr>))" "may_call (update_last f (d\<lparr>ch_round := rd\<rparr>))"
    if "r < MAX_TOOL_ROUNDS" "\<not> ch_forced c" for f rd
    using d that ready_cong [of "update_last f (d\<lparr>ch_round := rd\<rparr>)" d]
      may_call_cong [of "update_last f (d\<lparr>ch_round := rd\<rparr>)" d] round
    by (simp_all add: may_call_def [of d])
  have "chat_inv (runToolCalls e now fresh g r (update_last f (d\<lparr>ch_round := rd\<rparr>)))"
    if "r < MAX_TOOL_ROUNDS" "\<not> ch_forced c" for f rd
    using calls [OF that] by (rule runToolCalls_inv)
  moreover have "chat_inv (forceFinalAnswerRound e g r d)" if "\<not> ch_forced c"
    using forceFinalAnswerRound_inv [OF d(1) _ d(2)] that d(3) by simp
  moreover have "chat_inv (snd (retryWithFallbackModel e g d))"
    using d round by (intro retryWithFallbackModel_inv) simp_all
  moreover have "chat_inv (update_last f x) = chat_inv x" for f x
    by (rule chat_inv_cong) simp_all
  ultimately show ?thesis
    using ready_chat_inv [OF d(1)] d(3)
    unfolding plain_response_def Cons Let_def list.case d_def [symmetric]
    by (cases "retryWithFallbackModel e g d") simp
qed

text \<open>A finished stream, response or tool call is taken off the state.\<close>

lemma take_stream:
  assumes "chat_inv c" "ch_stream c = Some (g, r)"
  shows "g = ch_generation c \<Longrightarrow> ready r [] (c\<lparr>ch_stream := None\<rparr>)"
    "g \<noteq> ch_generation c \<Longrightarrow> chat_inv (c\<lparr>ch_stream := None\<rparr>)"
proof -
  let ?c = "c\<lparr>ch_stream := None\<rparr>"
  have same: "history_ok ?c" "budget_ok r ?c = budget_ok r c" "owed ?c = owed c" "may_call ?c = may_call c"
      "transcript_ok calls ?c = transcript_ok calls c" for r calls
    using assms(1) by (simp_all add: chat_inv_def history_ok_def budget_ok_def reserve_def sent_def
        owed_def may_call_def transcript_ok_def)
  have tok: "tokens c = (if g = ch_generation c then [r] else []) @ tokens ?c"
    using assms(2) by (simp add: tokens_def)
  have none: "tokens ?c = [] \<Longrightarrow> owed c = []"
    unfolding tokens_Nil by (simp add: owed_def)
  show "ready r [] ?c" if "g = ch_generation c"
    using that assms(1) tok same none by (auto simp: ready_def chat_inv_def)
  show "chat_inv ?c" if "g \<noteq> ch_generation c"
    using that assms(1) tok same by (auto simp: chat_inv_def)
qed

lemma single_token:
  assumes "x \<in> set ys" "xs @ map f ys @ zs = [a]"
  shows "xs = [] \<and> ys = [x] \<and> zs = [] \<and> f x = a"
  using assms by (cases ys) (auto simp: append_eq_Cons_conv)

lemma take_post:
  assumes "chat_inv c" "p \<in> set (ch_posts c)" and c': "c' = c\<lparr>ch_posts := remove1 p (ch_posts c)\<rparr>"
  shows "post_generation p = ch_generation c \<Longrightarrow> ready (post_round p) [] c'"
    "post_generation p \<noteq> ch_generation c \<Longrightarrow> chat_inv c'"
proof -
  let ?cur = "filter (\<lambda>p. post_generation p = ch_generation c)"
  have same: "history_ok c'" "budget_ok r c' = budget_ok r c" "owed c' = owed c" "may_call c' = may_call c"
      "transcript_ok calls c' = transcript_ok calls c" "ch_currentRound c' = ch_currentRound c" for r calls
    using assms(1) unfolding c'
    by (auto simp: chat_inv_def history_ok_def budget_ok_def reserve_def sent_def
        owed_def may_call_def transcript_ok_def dest: notin_set_remove1)
  have cur: "?cur (remove1 p (ch_posts c)) = remove1 p (?cur (ch_posts c))" by (rule filter_remove1)
  show "ready (post_round p) [] c'" if p: "post_generation p = ch_generation c"
  proof -
    have here: "p \<in> set (?cur (ch_posts c))" using assms(2) p by simp
    then have "tokens c \<noteq> []" using length_pos_if_in_set [OF here] by (simp add: tokens_def)
    then have tok: "tokens c = [ch_currentRound c]" using assms(1) by (simp add: chat_inv_def)
    note only = single_token [OF here tok [unfolded tokens_def]]
    then have "tokens c' = []" "owed c = []"
      by (simp_all add: tokens_def owed_def c' cur cong: option.case_cong)
    then show ?thesis
      using assms(1) same tok only by (simp add: ready_def chat_inv_def)
  qed
  show "chat_inv c'" if "post_generation p \<noteq> ch_generation c"
  proof -
    have "tokens c' = tokens c" using that by (simp add: tokens_def c' cur remove1_idem cong: option.case_cong)
    then show ?thesis using assms(1) same by (simp add: chat_inv_def)
  qed
qed

lemma take_run:
  assumes "chat_inv c" "run \<in> set (ch_runs c)" and c': "c' = c\<lparr>ch_runs := remove1 run (ch_runs c)\<rparr>"
  shows "run_generation run = ch_generation c \<Longrightarrow>
      ready (run_round run) (run_call run # known_calls (run_rest run)) c' \<and> may_call c'"
    "run_generation run \<noteq> ch_generation c \<Longrightarrow> chat_inv c'"
proof -
  let ?cur = "filter (\<lambda>r. run_generation r = ch_generation c)"
  have same: "history_ok c'" "budget_ok r c' = budget_ok r c" "may_call c' = may_call c"
      "transcript_ok calls c' = transcript_ok calls c" "ch_currentRound c' = ch_currentRound c" for r calls
    using assms(1) unfolding c'
    by (auto simp: chat_inv_def history_ok_def budget_ok_def reserve_def sent_def
        may_call_def transcript_ok_def dest: notin_set_remove1)
  have cur: "?cur (remove1 run (ch_runs c)) = remove1 run (?cur (ch_runs c))" by (rule filter_remove1)
  show "ready (run_round run) (run_call run # known_calls (run_rest run)) c' \<and> may_call c'"
    if p: "run_generation run = ch_generation c"
  proof -
    have here: "run \<in> set (?cur (ch_runs c))" using assms(2) p by simp
    then have "tokens c \<noteq> []" using length_pos_if_in_set [OF here] by (simp add: tokens_def)
    then have tok: "tokens c = [ch_currentRound c]" using assms(1) by (simp add: chat_inv_def)
    note only = single_token [OF here, where f = run_round and zs = "[]", simplified,
        OF tok [unfolded tokens_def append_assoc [symmetric]]]
    then have "tokens c' = []" by (simp add: tokens_def c' cur cong: option.case_cong)
    then show ?thesis
      using assms(1) same tok only by (simp add: ready_def chat_inv_def owed_def)
  qed
  show "chat_inv c'" if "run_generation run \<noteq> ch_generation c"
  proof -
    have "tokens c' = tokens c" "owed c' = owed c"
      using that by (simp_all add: tokens_def owed_def c' cur remove1_idem cong: option.case_cong)
    then show ?thesis using assms(1) same by (simp add: chat_inv_def)
  qed
qed

section \<open>Every step keeps the plan\<close>

lemma post_settled_inv:
  assumes "chat_inv c" "p \<in> set (ch_posts c)"
  shows "chat_inv (post_settled e now fresh p result c)"
proof -
  define c1 where "c1 = c\<lparr>ch_posts := remove1 p (ch_posts c)\<rparr>"
  have gen: "ch_generation c1 = ch_generation c" by (simp add: c1_def)
  define res where "res =
      (if post_abort p \<in> set (ch_aborted c1) \<or> ch_generation c1 \<noteq> post_generation p then (False, c1)
       else (case result of
           PostFailed message code \<Rightarrow> (False, handleStreamError e now (post_generation p) message code c1)
         | PostAnswered response \<Rightarrow>
             plain_response e now fresh (post_generation p) (post_round p) response c1))"
  note taken = take_post [OF assms c1_def]
  have "chat_inv c1"
    using taken ready_chat_inv by (cases "post_generation p = ch_generation c") blast+
  moreover have "chat_inv (handleStreamError e now (post_generation p) m code c1)"
    "chat_inv (snd (plain_response e now fresh (post_generation p) (post_round p) response c1))"
    if "post_generation p = ch_generation c" for m code response
    using taken(1) [OF that] that gen handleStreamError_inv [of c1] plain_response_inv [of "post_round p" c1]
    by (simp_all add: ready_def)
  ultimately have "chat_inv (snd res)"
    by (auto simp: res_def gen split: post_result.split)
  moreover have "chat_inv (x\<lparr>ch_abort := a\<rparr>) = chat_inv x" "chat_inv (x\<lparr>ch_requesting := b\<rparr>) = chat_inv x"
    for x a b by (rule chat_inv_cong; simp)+
  ultimately show ?thesis
    unfolding post_settled_def Let_def c1_def [symmetric] res_def [symmetric]
    by (cases res) simp
qed

lemma tool_finished_inv:
  assumes "chat_inv c" "run \<in> set (ch_runs c)"
  shows "chat_inv (tool_finished e now fresh run result c)"
proof -
  define c1 where "c1 = c\<lparr>ch_runs := remove1 run (ch_runs c)\<rparr>"
  have gen: "ch_generation c1 = ch_generation c" by (simp add: c1_def)
  note taken = take_run [OF assms c1_def]
  have "chat_inv c1"
    using taken ready_chat_inv by (cases "run_generation run = ch_generation c") blast+
  moreover have "chat_inv (run_calls e now fresh g (run_round run) n (run_rest run) d)"
    if "run_generation run = ch_generation c" "d = update_last f (push_transcript (tool_message (run_call run) s) c1)"
    for g n d f s
  proof (rule run_calls_inv)
    show "ready (run_round run) (known_calls (run_rest run)) d"
      unfolding that(2) using taken(1) [OF that(1)] by (intro ready_answered) simp
    show "may_call d"
      using taken(1) [OF that(1)] may_call_cong [of d c1] by (simp add: that(2))
  qed
  ultimately show ?thesis
    unfolding tool_finished_def Let_def c1_def [symmetric] run_isCurrent_def gen
    by (auto simp: finishWithError_def finish_with_outcome_def Let_def split: tool_result.split)
qed

lemma new_generation:
  assumes "history_ok c" "ch_generation d = ch_generation c + 1" "ch_stream d = None \<or> ch_stream d = ch_stream c"
    "ch_posts d = ch_posts c" "ch_runs d = ch_runs c" "ch_requests d = ch_requests c"
  shows "history_ok d" "tokens d = []" "sent (ch_generation d) d = 0"
proof -
  have later: "x \<le> ch_generation c \<Longrightarrow> x \<le> ch_generation c + 1" for x by simp
  have le: "fst x \<le> ch_generation c" if "x \<in> set (ch_requests c)" for x
    using assms(1) that by (simp add: history_ok_def)
  show "history_ok d"
    using assms(1,3) unfolding history_ok_def sent_def assms(2,4,5,6)
    by (cases "ch_stream c") (auto intro!: later)
  show "tokens d = []"
    using assms(1,3) unfolding tokens_Nil assms(2,4,5)
    by (cases "ch_stream c") (auto simp: history_ok_def filter_empty_conv)
  show "sent (ch_generation d) d = 0"
    using le unfolding sent_def assms(2,6) by (fastforce simp: filter_empty_conv)
qed

lemma stream_update_frame [chat_frame]:
  "plan_of (handleStreamUpdate g ty chunk c) = plan_of c"
  "ch_transcript (handleStreamUpdate g ty chunk c) = ch_transcript c"
  "plan_of (handleToolCallDelta g deltas c) = plan_of c"
  "ch_transcript (handleToolCallDelta g deltas c) = ch_transcript c"
  by (simp_all add: handleStreamUpdate_def handleToolCallDelta_def scheduleStreamFlush_def plan_of_def Let_def
      split: StreamChunkType.split)

lemma chat_inv_updates:
  "chat_inv (handleStreamUpdate g ty chunk c) = chat_inv c"
  "chat_inv (handleToolCallDelta g deltas c) = chat_inv c"
  "chat_inv (flushStreamUpdates now g c) = chat_inv c"
  by (rule chat_inv_cong; simp add: chat_frame)+

lemma event_step_inv:
  assumes "event_step e c c'" "chat_inv c"
  shows "chat_inv c'"
  using assms
proof cases
  case (StreamDone g r now fresh)
  then show ?thesis
    using take_stream [OF assms(2) StreamDone(2)] handleStreamComplete_inv [of r "c\<lparr>ch_stream := None\<rparr>" g]
    by (cases "g = ch_generation c") (simp_all add: stream_completed_def handleStreamComplete_def)
next
  case (StreamError g r now err code)
  then show ?thesis
    using take_stream [OF assms(2) StreamError(2)] handleStreamError_inv [of "c\<lparr>ch_stream := None\<rparr>" g]
    by (cases "g = ch_generation c") (simp_all add: stream_errored_def handleStreamError_def ready_def)
qed (simp_all only: chat_inv_updates post_settled_inv tool_finished_inv)

text \<open>What sending prepares before its first round.\<close>

lemma sendChat_prepared:
  obtains d ts where "sendChat e ms c = startRound e (ch_generation c + 1) 0 d"
    "ch_generation d = ch_generation c + 1" "ch_stream d = None" "ch_posts d = ch_posts c"
    "ch_runs d = ch_runs c" "ch_requests d = ch_requests c" "\<not> ch_forced d" "\<not> ch_retried d"
    "ch_requesting d" "ch_transcript d = Some (ts @ buildApiTranscript ms)" "paired ts"
proof (rule that)
  let ?native = "supportsNativeThinking (cfg_model (env_config e))"
  show "paired (if env_thinking e
      then [api_message (Role System) (Some (PlainText (env_prompt e ?native (env_level e))))] else [])"
    by (simp add: api_message_def)
  show "sendChat e ms c = startRound e (ch_generation c + 1) 0
      (((discardPendingStreamUpdates (ch_generation c + 1)
          ((abort_current (c\<lparr>ch_generation := ch_generation c + 1\<rparr>))\<lparr>ch_abort := None\<rparr>))\<lparr>ch_stream := None\<rparr>)
        \<lparr>ch_transcript := Some ((if env_thinking e
             then [api_message (Role System) (Some (PlainText (env_prompt e ?native (env_level e))))] else []) @
             buildApiTranscript ms),
           ch_effort := (if env_thinking e \<and> ?native
             then Some (THINKING_LEVEL_REASONING_EFFORT (env_level e)) else None),
           ch_tools := buildPlaygroundToolDefinitions (env_toolsEnabled e) (env_thinking e \<and> \<not> ?native),
           ch_round := no_round, ch_modelOverride := None, ch_produced := False, ch_forced := False,
           ch_retried := False, ch_currentRound := 0, ch_requesting := True\<rparr>)"
    unfolding sendChat_def Let_def by (rule refl)
qed (simp_all add: discardPendingStreamUpdates_def abort_current_def split: option.split)

lemma sendChat_inv:
  assumes "history_ok c"
  shows "chat_inv (sendChat e ms c)"
proof -
  obtain d ts where d: "sendChat e ms c = startRound e (ch_generation c + 1) 0 d"
    "ch_generation d = ch_generation c + 1" "ch_stream d = None" "ch_posts d = ch_posts c"
    "ch_runs d = ch_runs c" "ch_requests d = ch_requests c" "\<not> ch_forced d" "\<not> ch_retried d"
    "ch_transcript d = Some (ts @ buildApiTranscript ms)" "paired ts"
    by (rule sendChat_prepared)
  note fresh = new_generation [OF assms d(2) _ d(4,5,6)]
  have "chat_inv (startRound e (ch_generation d) 0 d)"
    by (rule startRound_inv)
      (use fresh d paired_append [OF d(10)] paired_transcript in
        \<open>simp_all add: transcript_ok_def reserve_def MAX_TOOL_ROUNDS_def\<close>)
  then show ?thesis using d(1,2) by simp
qed

lemma stopGeneration_frame:
  "ch_generation (stopGeneration now c) = ch_generation c + 1" "ch_stream (stopGeneration now c) = None"
  "ch_posts (stopGeneration now c) = ch_posts c" "ch_runs (stopGeneration now c) = ch_runs c"
  "ch_requests (stopGeneration now c) = ch_requests c" "\<not> ch_requesting (stopGeneration now c)"
  "ch_transcript (stopGeneration now c) = None"
  using plan_of_eq [OF flush_frame(1), of now "ch_generation c" c]
  by (simp_all add: stopGeneration_def update_last_def abort_current_def discardPendingStreamUpdates_def
      Let_def split: option.split)

lemma unmount_frame:
  "ch_generation (unmount c) = ch_generation c + 1" "ch_stream (unmount c) = ch_stream c"
  "ch_posts (unmount c) = ch_posts c" "ch_runs (unmount c) = ch_runs c" "ch_requests (unmount c) = ch_requests c"
  by (simp_all add: unmount_def abort_current_def split: option.split)

lemma user_step_inv:
  assumes "user_step e c c'" "chat_inv c"
  shows "chat_inv c'"
  using assms
proof cases
  case (SendChat ms)
  then show ?thesis
    using assms(2) sendChat_inv plan_cong(5) [of "c\<lparr>ch_messages := ms\<rparr>" c] by (simp add: chat_inv_def)
next
  case (EditMessages ms)
  then show ?thesis using assms(2) chat_inv_cong [of c' c] by simp
qed (use assms(2) new_generation [of c c'] in \<open>simp_all add: chat_inv_def stopGeneration_frame unmount_frame\<close>)

lemma chat_step_inv: "chat_step e c c' \<Longrightarrow> chat_inv c \<Longrightarrow> chat_inv c'"
  using event_step_inv user_step_inv by (blast elim: chat_stepE)

end
