(* ===== verification/ChatBehaviour.thy ===== *)
theory ChatBehaviour
  imports ChatHandler
begin

text \<open>
  What the chat handler promises, over every sequence of its steps: the requests of one send are
  bounded and each carries a complete transcript, only one thing is in progress at a time, stopping
  is final, a streamed generation is marked as running exactly while something is in progress, and
  batching the stream updates changes the text only where a piece can be taken for a repetition.
\<close>

section \<open>Every request is bounded and complete\<close>

text \<open>The settings may be others at every step.\<close>

definition any_step :: "chat \<Rightarrow> chat \<Rightarrow> bool" where
  "any_step c c' \<longleftrightarrow> (\<exists>e. chat_step e c c')"

lemma chat_reachable_inv: "any_step\<^sup>*\<^sup>* (initial_chat ms) c \<Longrightarrow> chat_inv c"
proof (induction rule: rtranclp_induct)
  case base
  show ?case by (simp add: chat_inv_def history_ok_def tokens_def sent_def initial_chat_def)
qed (auto simp: any_step_def intro: chat_step_inv)

text \<open>Settings used to show that the hypotheses of the properties can hold.\<close>

definition sample_env :: "bool \<Rightarrow> env" where
  "sample_env stream =
     \<lparr>env_config = \<lparr>cfg_model = ''m'', cfg_group = ''g'', cfg_temperature = 1, cfg_top_p = 1,
        cfg_max_tokens = 1, cfg_frequency_penalty = 0, cfg_presence_penalty = 0, cfg_seed = None,
        cfg_stream = stream\<rparr>,
      env_enabled = \<lparr>en_temperature = False, en_top_p = False, en_max_tokens = False,
        en_frequency_penalty = False, en_presence_penalty = False, en_seed = False\<rparr>,
      env_toolsEnabled = [], env_thinking = False, env_level = Low, env_prompt = \<lambda>_ _. [],
      env_json = \<lambda>_. None, env_stringify = \<lambda>_. [], env_t = id, env_ellipsis = [], env_type_error = []\<rparr>"

definition sample_sent :: "bool \<Rightarrow> chat" where
  "sample_sent stream = sendChat (sample_env stream) [] (initial_chat [])"

lemma sample_send: "any_step (initial_chat []) (sample_sent b)"
  using SendChat [of "sample_env b" "initial_chat []" "[]"]
  by (auto simp: any_step_def sample_sent_def initial_chat_def intro!: ByUser exI [of _ "sample_env b"])

lemma sample_sent_reachable: "any_step\<^sup>*\<^sup>* (initial_chat []) (sample_sent b)"
  using sample_send by (rule r_into_rtranclp)

text \<open>C1. However the model, the tools and the user behave, one send makes at most eight requests: the
  first, one per tool round, one forced final answer and one silent retry.\<close>

theorem requests_bounded:
  assumes "any_step\<^sup>*\<^sup>* (initial_chat ms) c"
  shows "length (filter (\<lambda>x. fst x = g) (ch_requests c)) \<le> MAX_TOOL_ROUNDS + 3"
  using chat_reachable_inv [OF assms]
  by (simp add: chat_inv_def history_ok_def sent_def MAX_TOOL_ROUNDS_def)

theorem requests_bounded_witness:
  "length (filter (\<lambda>x. fst x = 1) (ch_requests (sample_sent True))) \<le> MAX_TOOL_ROUNDS + 3"
  by (rule requests_bounded [OF sample_sent_reachable])

text \<open>C2. Every request that is ever sent carries a transcript in which each assistant turn with tool
  calls is followed at once by exactly one result per call, in order, and no other tool result
  appears; this includes the transcripts the tool loop has extended itself, and those sent again
  by the silent retry.\<close>

theorem requests_paired:
  assumes "any_step\<^sup>*\<^sup>* (initial_chat ms) c" "(g, r, p) \<in> set (ch_requests c)"
  shows "paired (rq_messages p)"
  using chat_reachable_inv [OF assms(1)] assms(2) by (auto simp: chat_inv_def history_ok_def)

theorem requests_paired_witness:
  "paired (rq_messages (snd (snd (hd (ch_requests (sample_sent True))))))"
  by (rule requests_paired [OF sample_sent_reachable [of True],
        where g = "fst (hd (ch_requests (sample_sent True)))" and
          r = "fst (snd (hd (ch_requests (sample_sent True))))"])
    (simp add: sample_sent_def sendChat_def initial_chat_def sample_env_def startRound_def
      startStreamRound_def discardPendingStreamUpdates_def abort_current_def Let_def)

text \<open>At most one thing is in progress for the current send: its stream, or one plain request, or
  one tool call. What is left over from earlier sends carries an older generation.\<close>

theorem one_in_progress:
  assumes "any_step\<^sup>*\<^sup>* (initial_chat ms) c"
  shows "length (filter (\<lambda>s. fst s = ch_generation c) (case ch_stream c of None \<Rightarrow> [] | Some s \<Rightarrow> [s])) +
      length (filter (\<lambda>p. post_generation p = ch_generation c) (ch_posts c)) +
      length (filter (\<lambda>r. run_generation r = ch_generation c) (ch_runs c)) \<le> 1"
proof -
  have "length (tokens c) \<le> 1" using chat_reachable_inv [OF assms] by (auto simp: chat_inv_def)
  then show ?thesis by (cases "ch_stream c") (auto simp: tokens_def)
qed

theorem one_in_progress_witness:
  "length (filter (\<lambda>s. fst s = ch_generation (sample_sent True))
       (case ch_stream (sample_sent True) of None \<Rightarrow> [] | Some s \<Rightarrow> [s])) +
     length (filter (\<lambda>p. post_generation p = ch_generation (sample_sent True)) (ch_posts (sample_sent True))) +
     length (filter (\<lambda>r. run_generation r = ch_generation (sample_sent True)) (ch_runs (sample_sent True))) \<le> 1"
  by (rule one_in_progress [OF sample_sent_reachable])

section \<open>Stopping is final\<close>

definition quiet :: "chat \<Rightarrow> bool" where
  "quiet c \<longleftrightarrow> ch_stream c = None \<and> ch_timer c = None \<and>
     (\<forall>p \<in> set (ch_posts c). post_generation p < ch_generation c) \<and>
     (\<forall>r \<in> set (ch_runs c). run_generation r < ch_generation c)"

definition visible :: "chat \<Rightarrow> int \<times> Message list \<times> (int \<times> nat \<times> ChatCompletionRequest) list \<times> bool" where
  "visible c = (ch_generation c, ch_messages c, ch_requests c, ch_requesting c)"

lemma quiet_step:
  assumes "event_step e c c'" "quiet c"
  shows "quiet c' \<and> visible c' = visible c"
  using assms
  by cases (auto simp: quiet_def visible_def post_settled_def tool_finished_def run_isCurrent_def Let_def
      dest: notin_set_remove1)

definition any_event :: "chat \<Rightarrow> chat \<Rightarrow> bool" where
  "any_event c c' \<longleftrightarrow> (\<exists>e. event_step e c c')"

lemma quiet_steps: "any_event\<^sup>*\<^sup>* c c' \<Longrightarrow> quiet c \<Longrightarrow> quiet c' \<and> visible c' = visible c"
proof (induction rule: rtranclp_induct)
  case (step d d')
  then show ?case using quiet_step [of _ d d'] by (auto simp: any_event_def)
qed simp

lemma stop_quiet:
  assumes "chat_inv c"
  shows "quiet (stopGeneration now c)"
proof -
  have "ch_timer (stopGeneration now c) = None"
    by (simp add: stopGeneration_def update_last_def abort_current_def discardPendingStreamUpdates_def
        Let_def split: option.split)
  then show ?thesis
    using assms by (auto simp: quiet_def stopGeneration_frame chat_inv_def history_ok_def)
qed

lemma last_updated:
  "ms \<noteq> [] \<Longrightarrow> from_role (last ms) = Assistant \<Longrightarrow> last (updateLastAssistantMessage ms f) = f (last ms)"
  by (simp add: updateLastAssistantMessage_def last_list_update)

lemma role_updated:
  "(\<And>m. from_role (f m) = from_role m) \<Longrightarrow> updateLastAssistantMessage ms f \<noteq> [] \<Longrightarrow>
     from_role (last (updateLastAssistantMessage ms f)) = from_role (last ms)"
  by (auto simp: updateLastAssistantMessage_def last_list_update)

lemma stop_settles:
  fixes now c
  defines "ms \<equiv> ch_messages (stopGeneration now c)"
  assumes "ms \<noteq> []" "from_role (last ms) = Assistant"
  shows "\<not> isAssistantMessagePending (last ms)"
proof -
  define f where "f = (\<lambda>m. if isAssistantMessagePending m then completeAssistantMessage now m else m)"
  obtain ms' where ms: "ms = updateLastAssistantMessage ms' f"
    by (simp add: ms_def stopGeneration_def Let_def update_last_def f_def)
  have role: "from_role (f m) = from_role m" and settled: "\<not> isAssistantMessagePending (f m)" for m
    by (simp_all add: f_def completeAssistantMessage_def isAssistantMessagePending_def)
  have "ms' \<noteq> []" "from_role (last ms') = Assistant"
    using assms(2,3) role_updated [of f ms'] role unfolding ms
    by (auto simp: updateLastAssistantMessage_def)
  then show ?thesis unfolding ms by (simp add: last_updated settled)
qed

text \<open>C9. Stopping is final: whatever was in progress, nothing that still arrives afterwards changes a
  message, sends a request or marks the chat as generating again, and the last assistant message is
  no longer pending.\<close>

theorem stop_is_final:
  assumes "any_step\<^sup>*\<^sup>* (initial_chat ms) c" "any_event\<^sup>*\<^sup>* (stopGeneration now c) d"
  shows "ch_messages d = ch_messages (stopGeneration now c) \<and> ch_requests d = ch_requests c \<and>
    \<not> ch_requesting d \<and>
    (ch_messages d \<noteq> [] \<and> from_role (last (ch_messages d)) = Assistant \<longrightarrow>
       \<not> isAssistantMessagePending (last (ch_messages d)))"
proof -
  have "visible d = visible (stopGeneration now c)"
    using quiet_steps [OF assms(2) stop_quiet [OF chat_reachable_inv [OF assms(1)]]] by simp
  then show ?thesis
    using stop_settles [of now c] by (auto simp: visible_def stopGeneration_frame)
qed

text \<open>The example sends without streaming and stops while the request is in flight; its failure then
  arrives.\<close>

definition sample_post :: post where
  "sample_post = \<lparr>post_generation = 1, post_round = 0, post_abort = 0\<rparr>"

lemma sample_posts: "ch_posts (sample_sent False) = [sample_post]"
  by (simp add: sample_sent_def sendChat_def initial_chat_def sample_env_def startRound_def sample_post_def
      runNonStreamingRound_def discardPendingStreamUpdates_def abort_current_def new_abort_def Let_def)

theorem stop_is_final_witness:
  "any_event (stopGeneration 9 (sample_sent False))
     (post_settled (sample_env False) 9 [] sample_post (PostFailed ''e'' None) (stopGeneration 9 (sample_sent False))) \<and>
   \<not> ch_requesting
     (post_settled (sample_env False) 9 [] sample_post (PostFailed ''e'' None) (stopGeneration 9 (sample_sent False)))"
proof -
  let ?d = "post_settled (sample_env False) 9 [] sample_post (PostFailed ''e'' None) (stopGeneration 9 (sample_sent False))"
  have "any_event (stopGeneration 9 (sample_sent False)) ?d"
    unfolding any_event_def
    by (intro exI [of _ "sample_env False"] PostSettled) (simp add: stopGeneration_frame sample_posts)
  moreover from this have "\<not> ch_requesting ?d"
    using stop_is_final [OF sample_sent_reachable [of False] r_into_rtranclp] by blast
  ultimately show ?thesis by (rule conjI)
qed

section \<open>Generating exactly while something is in progress\<close>

text \<open>Abort controllers are fresh: those aborted or current were numbered before.\<close>

definition aborts_of :: "chat \<Rightarrow> nat option \<times> nat list \<times> nat" where
  "aborts_of c = (ch_abort c, ch_aborted c, ch_nextAbort c)"

definition abort_ok :: "chat \<Rightarrow> bool" where
  "abort_ok c \<longleftrightarrow> (\<forall>n \<in> set (ch_aborted c) \<union> set_option (ch_abort c). n < ch_nextAbort c)"

lemma abort_ok_cong: "aborts_of c = aborts_of d \<Longrightarrow> abort_ok c = abort_ok d"
  by (simp add: abort_ok_def aborts_of_def)

lemma abort_ok_frame [simp]:
  "abort_ok (update_last f c) = abort_ok c" "abort_ok (push_transcript m c) = abort_ok c"
  "abort_ok (flushStreamUpdates now g c) = abort_ok c"
  "abort_ok (handleStreamUpdate g ty chunk c) = abort_ok c"
  "abort_ok (handleToolCallDelta g deltas c) = abort_ok c"
  "abort_ok (finishWithError e now fresh call err c) = abort_ok c"
  "abort_ok (finish_with_outcome now fresh call outcome c) = abort_ok c"
  by (rule abort_ok_cong; simp add: aborts_of_def update_last_def push_transcript_def flushStreamUpdates_def
      handleStreamUpdate_def handleToolCallDelta_def scheduleStreamFlush_def finishWithError_def
      finish_with_outcome_def Let_def split: StreamChunkType.split)+

lemma abort_ok_fields [simp]:
  "abort_ok (c\<lparr>ch_round := rd\<rparr>) = abort_ok c" "abort_ok (c\<lparr>ch_forced := b\<rparr>) = abort_ok c"
  "abort_ok (c\<lparr>ch_retried := b\<rparr>) = abort_ok c" "abort_ok (c\<lparr>ch_modelOverride := o1\<rparr>) = abort_ok c"
  "abort_ok (c\<lparr>ch_requesting := b\<rparr>) = abort_ok c" "abort_ok (c\<lparr>ch_messages := ms\<rparr>) = abort_ok c"
  "abort_ok (c\<lparr>ch_produced := b\<rparr>) = abort_ok c" "abort_ok (c\<lparr>ch_runs := rs\<rparr>) = abort_ok c"
  "abort_ok (c\<lparr>ch_posts := ps\<rparr>) = abort_ok c" "abort_ok (c\<lparr>ch_stream := st\<rparr>) = abort_ok c"
  by (simp_all add: abort_ok_def)

lemma abort_ok_new: "abort_ok c \<Longrightarrow> abort_ok (new_abort c)"
  by (auto simp: abort_ok_def new_abort_def abort_current_def less_SucI split: option.split)

lemma abort_ok_startRound: "abort_ok c \<Longrightarrow> abort_ok (startRound e g r c)"
  using abort_ok_new [of c]
  by (simp add: startRound_def startStreamRound_def runNonStreamingRound_def Let_def abort_ok_def
      new_abort_def abort_current_def split: option.split)

lemma abort_ok_run_calls: "abort_ok c \<Longrightarrow> abort_ok (run_calls e now fresh g r n calls c)"
proof (induction calls arbitrary: c)
  case (Cons x calls)
  then show ?case by (cases x) (simp_all add: Let_def)
qed (simp add: abort_ok_startRound)

lemma abort_ok_rounds:
  assumes "abort_ok c"
  shows "abort_ok (runToolCalls e now fresh g r c)" "abort_ok (forceFinalAnswerRound e g r c)"
    "abort_ok (snd (retryWithFallbackModel e g c))"
  using assms by (simp_all add: runToolCalls_def forceFinalAnswerRound_def retryWithFallbackModel_def
      pickFallbackModel_def Let_def abort_ok_run_calls abort_ok_new abort_ok_startRound)

lemma abort_ok_ends:
  assumes "abort_ok c"
  shows "abort_ok (handleStreamComplete e now fresh g r c)" "abort_ok (handleStreamError e now g err code c)"
proof -
  define d where "d = flushStreamUpdates now g c"
  have d: "abort_ok d" using assms by (simp add: d_def)
  note rounds = abort_ok_rounds [OF d]
  show "abort_ok (handleStreamComplete e now fresh g r c)"
    unfolding handleStreamComplete_def Let_def d_def [symmetric]
    using assms d rounds(1,2) rounds(3) [of e g]
    by (cases "g = ch_generation c"; cases "retryWithFallbackModel e g d") simp_all
  show "abort_ok (handleStreamError e now g err code c)"
    unfolding handleStreamError_def Let_def d_def [symmetric]
    using assms rounds(3) [of e g]
    by (cases "g = ch_generation c"; cases "retryWithFallbackModel e g d") simp_all
qed

lemma abort_ok_plain:
  assumes "abort_ok c"
  shows "abort_ok (snd (plain_response e now fresh g r response c))"
proof (cases response)
  case Nil
  then show ?thesis using assms by (simp add: plain_response_def abort_ok_ends)
next
  case (Cons choice rest)
  define d where "d = c\<lparr>ch_produced := (ch_produced c \<or> trim (or_value (choice_content choice) []) \<noteq> [])\<rparr>"
  have d: "abort_ok d" "ch_forced d = ch_forced c" using assms by (simp_all add: d_def)
  note rounds = abort_ok_rounds [OF d(1)]
  have "abort_ok (runToolCalls e now fresh g r (update_last f (d\<lparr>ch_round := rd\<rparr>)))" for f rd
    using d by (intro abort_ok_rounds) simp
  then show ?thesis
    unfolding plain_response_def Cons Let_def list.case d_def [symmetric]
    using d rounds(2) rounds(3) [of e g] by (cases "retryWithFallbackModel e g d") simp
qed

lemma abort_ok_settled:
  assumes "abort_ok c"
  shows "abort_ok (post_settled e now fresh p result c)" "abort_ok (tool_finished e now fresh run res c)"
proof -
  define c1 where "c1 = c\<lparr>ch_posts := remove1 p (ch_posts c)\<rparr>"
  define out where "out =
      (if post_abort p \<in> set (ch_aborted c1) \<or> ch_generation c1 \<noteq> post_generation p then (False, c1)
       else (case result of
           PostFailed message code \<Rightarrow> (False, handleStreamError e now (post_generation p) message code c1)
         | PostAnswered response \<Rightarrow>
             plain_response e now fresh (post_generation p) (post_round p) response c1))"
  have "abort_ok c1" using assms by (simp add: c1_def)
  then have "abort_ok (snd out)"
    by (simp add: out_def abort_ok_ends abort_ok_plain split: post_result.split)
  moreover have "abort_ok x \<Longrightarrow> abort_ok (x\<lparr>ch_abort := None\<rparr>)" for x by (simp add: abort_ok_def)
  ultimately show "abort_ok (post_settled e now fresh p result c)"
    unfolding post_settled_def Let_def c1_def [symmetric] out_def [symmetric]
    by (cases out) simp
  show "abort_ok (tool_finished e now fresh run res c)"
    using assms by (simp add: tool_finished_def Let_def abort_ok_run_calls split: tool_result.split)
qed

lemma abort_ok_user:
  assumes "abort_ok c"
  shows "abort_ok (sendChat e ms c)" "abort_ok (stopGeneration now c)" "abort_ok (unmount c)"
proof -
  have "abort_ok ((abort_current (c\<lparr>ch_generation := g\<rparr>))\<lparr>ch_abort := None\<rparr>)" for g
    using assms by (auto simp: abort_ok_def abort_current_def split: option.split)
  then show "abort_ok (sendChat e ms c)"
    unfolding sendChat_def Let_def
    by (intro abort_ok_startRound) (simp add: abort_ok_def discardPendingStreamUpdates_def)
  have "aborts_of (flushStreamUpdates now g c) = aborts_of c" for g
    by (simp add: aborts_of_def flushStreamUpdates_def Let_def)
  then show "abort_ok (stopGeneration now c)"
    using assms by (auto simp: aborts_of_def abort_ok_def stopGeneration_def update_last_def abort_current_def
        discardPendingStreamUpdates_def Let_def split: option.split)
  show "abort_ok (unmount c)"
    using assms by (auto simp: abort_ok_def unmount_def abort_current_def split: option.split)
qed

lemma abort_ok_step: "any_step c c' \<Longrightarrow> abort_ok c \<Longrightarrow> abort_ok c'"
  unfolding any_step_def
  by (elim exE chat_stepE event_stepE user_stepE)
    (simp_all add: abort_ok_settled abort_ok_ends abort_ok_user stream_completed_def stream_errored_def)

lemma reachable_abort_ok: "any_step\<^sup>*\<^sup>* (initial_chat ms) c \<Longrightarrow> abort_ok c"
proof (induction rule: rtranclp_induct)
  case base
  show ?case by (simp add: abort_ok_def initial_chat_def)
qed (rule abort_ok_step)

text \<open>A generation between two things in progress, and one that is under way or over.\<close>

definition paused :: "chat \<Rightarrow> bool" where
  "paused c \<longleftrightarrow> ch_transcript c \<noteq> None \<and> tokens c = [] \<and> ch_requesting c"

definition runs_ok :: "chat \<Rightarrow> bool" where
  "runs_ok c \<longleftrightarrow> (\<forall>r \<in> set (ch_runs c). run_generation r = ch_generation c \<longrightarrow>
     None \<notin> set (run_rest r) \<and> run_abort r \<notin> set (ch_aborted c))"

definition alive :: "chat \<Rightarrow> bool" where
  "alive c \<longleftrightarrow> ch_transcript c \<noteq> None \<and> runs_ok c \<and> (ch_requesting c \<longleftrightarrow> tokens c \<noteq> []) \<and>
     (\<forall>p \<in> set (ch_posts c). post_generation p \<noteq> ch_generation c)"

definition whole :: "chat \<Rightarrow> bool" where
  "whole c \<longleftrightarrow> None \<notin> set (rd_calls (ch_round c))"

lemma tokens_none:
  assumes "tokens c = []"
  shows "runs_ok c" "p \<in> set (ch_posts c) \<Longrightarrow> post_generation p \<noteq> ch_generation c"
  using assms unfolding tokens_Nil runs_ok_def filter_empty_conv by blast+

lemma paused_cong:
  "plan_of c = plan_of d \<Longrightarrow> (ch_transcript c = None) = (ch_transcript d = None) \<Longrightarrow>
     ch_requesting c = ch_requesting d \<Longrightarrow> paused c = paused d"
  using plan_cong(1) [of c d] by (simp add: paused_def)

lemma alive_cong:
  assumes "plan_of c = plan_of d" "ch_transcript c = ch_transcript d" "ch_requesting c = ch_requesting d"
    "ch_aborted c = ch_aborted d"
  shows "alive c = alive d"
  unfolding alive_def runs_ok_def plan_cong(1) [OF assms(1)] plan_of_eq [OF assms(1)] assms(2,3,4) by (rule refl)

lemma over_alive: "ch_transcript c \<noteq> None \<Longrightarrow> tokens c = [] \<Longrightarrow> \<not> ch_requesting c \<Longrightarrow> alive c"
  using tokens_none by (simp add: alive_def)

lemma startRound_alive:
  assumes "paused c" "cfg_stream (env_config e)" "g = ch_generation c"
  shows "alive (startRound e g r c)"
proof -
  obtain ts where ts: "ch_transcript c = Some ts" using assms(1) by (auto simp: paused_def)
  have "tokens c = []" using assms(1) by (simp add: paused_def)
  note none = tokens_none [OF this]
  have "ch_stream (startRound e g r c) = Some (g, r)" "ch_posts (startRound e g r c) = ch_posts c"
    "ch_aborted (startRound e g r c) = ch_aborted c"
    using ts assms(2) by (simp_all add: startRound_def startStreamRound_def)
  note fields = this startRound_frame [OF ts]
  have "tokens (startRound e g r c) \<noteq> []" by (simp add: tokens_def fields assms(3) [symmetric])
  moreover have "runs_ok (startRound e g r c)" using none(1) by (simp add: runs_ok_def fields)
  moreover have "ch_requesting c" using assms(1) by (simp add: paused_def)
  ultimately show ?thesis using none(2) by (simp add: alive_def fields)
qed

lemma awaiting_alive:
  assumes "paused c" "None \<notin> set calls" "run_isCurrent g n c"
  shows "alive (c\<lparr>ch_runs := ch_runs c @ [\<lparr>run_generation = g, run_round = r, run_abort = n,
     run_call = call, run_rest = calls\<rparr>]\<rparr>)" (is "alive ?c")
proof -
  have "tokens c = []" using assms(1) by (simp add: paused_def)
  note none = tokens_none [OF this]
  have "tokens ?c \<noteq> []" using assms(3) by (simp add: tokens_def run_isCurrent_def)
  moreover have "runs_ok ?c" using none(1) assms(2,3) by (auto simp: runs_ok_def run_isCurrent_def)
  moreover have "ch_requesting c" "ch_transcript c \<noteq> None" using assms(1) by (simp_all add: paused_def)
  ultimately show ?thesis using none(2) by (simp add: alive_def)
qed

lemma answered_paused [simp]:
  "paused (update_last f c) = paused c" "run_isCurrent g n (update_last f c) = run_isCurrent g n c"
  "paused (push_transcript m c) = paused c" "run_isCurrent g n (push_transcript m c) = run_isCurrent g n c"
  by (simp_all add: paused_def run_isCurrent_def plan_cong(1) [OF update_last_frame(1)]
      plan_cong(1) [OF push_frame(1)])
    (simp_all add: update_last_def push_transcript_def)

lemma finish_paused [simp]:
  "paused (finishWithError e now fresh call err c) = paused c"
  "run_isCurrent g n (finishWithError e now fresh call err c) = run_isCurrent g n c"
  "paused (finish_with_outcome now fresh call outcome c) = paused c"
  "run_isCurrent g n (finish_with_outcome now fresh call outcome c) = run_isCurrent g n c"
  by (simp_all add: finishWithError_def finish_with_outcome_def Let_def)

lemma run_calls_alive:
  assumes "paused c" "None \<notin> set calls" "run_isCurrent g n c" "cfg_stream (env_config e)"
  shows "alive (run_calls e now fresh g r n calls c)"
  using assms(1,2,3)
proof (induction calls arbitrary: c)
  case Nil
  then show ?case using startRound_alive [OF Nil(1) assms(4), of g] by (simp add: run_isCurrent_def)
next
  case (Cons x calls)
  from Cons.prems(2) obtain call where x: "x = Some call" by (cases x) auto
  define c1 where "c1 = update_last (\<lambda>m. applyToolEventStart m (running_event e now call)) c"
  have c1: "paused c1" "run_isCurrent g n c1" using Cons.prems by (simp_all add: c1_def)
  have rest: "None \<notin> set calls" using Cons.prems(2) by simp
  have "alive (run_calls e now fresh g r n calls (finishWithError e now fresh call err c1))" for err
    by (rule Cons.IH) (simp_all add: c1 rest)
  with awaiting_alive [OF c1(1) rest c1(2)] Cons.prems(3) show ?case
    by (simp add: x Let_def c1_def)
qed

lemma runToolCalls_alive:
  assumes "paused c" "whole c" "abort_ok c" "cfg_stream (env_config e)" "g = ch_generation c"
  shows "alive (runToolCalls e now fresh g r c)"
proof -
  define m where "m = (api_message (Role Assistant)
      (if rd_content (ch_round c) = [] then None else Some (PlainText (rd_content (ch_round c)))))
        \<lparr>cm_tool_calls := Some (known_calls (rd_calls (ch_round c)))\<rparr>"
  define c1 where "c1 = push_transcript m (c\<lparr>ch_round := no_round\<rparr>)"
  have fields: "ch_nextAbort c1 = ch_nextAbort c" "ch_generation c1 = ch_generation c" "abort_ok c1"
    using assms(3) by (simp_all add: c1_def) (simp_all add: push_transcript_def)
  have "paused c1" using assms(1) paused_cong [of "c\<lparr>ch_round := no_round\<rparr>" c] by (simp add: c1_def)
  then have "paused (new_abort c1)" using paused_cong [of "new_abort c1" c1] by simp
  moreover have "run_isCurrent g (ch_nextAbort c1) (new_abort c1)"
    using fields(2,3) assms(5)
    by (auto simp: run_isCurrent_def new_abort_def abort_current_def abort_ok_def split: option.split)
  ultimately have "alive (run_calls e now fresh g r (ch_nextAbort c1) (rd_calls (ch_round c)) (new_abort c1))"
    using assms(2,4) by (intro run_calls_alive) (simp_all add: whole_def)
  then show ?thesis
    using assms(1) by (auto simp: runToolCalls_def Let_def c1_def m_def paused_def)
qed

lemma forceFinalAnswerRound_alive:
  assumes "paused c" "cfg_stream (env_config e)" "g = ch_generation c"
  shows "alive (forceFinalAnswerRound e g r c)"
proof -
  define c1 where "c1 = (push_transcript (api_message (Role User) (Some (PlainText FINAL_ANSWER_NUDGE)))
      (c\<lparr>ch_forced := True\<rparr>))\<lparr>ch_round := no_round\<rparr>"
  have "tokens c1 = tokens c"
    by (simp add: c1_def push_transcript_def tokens_def cong: option.case_cong)
  then have "paused c1" "g = ch_generation c1"
    using assms(1,3) by (simp_all add: paused_def c1_def push_transcript_def)
  from startRound_alive [OF this(1) assms(2) this(2)] assms(1) show ?thesis
    by (auto simp: forceFinalAnswerRound_def c1_def paused_def)
qed

lemma retryWithFallbackModel_alive:
  assumes "paused c" "cfg_stream (env_config e)" "g = ch_generation c" "retryWithFallbackModel e g c = (b, d)"
  shows "if b then alive d else paused d"
proof -
  let ?m = "or_value (ch_modelOverride c) (cfg_model (env_config e))"
  let ?c = "\<lambda>o1 rd. c\<lparr>ch_retried := True, ch_modelOverride := o1, ch_round := rd\<rparr>"
  have tok: "tokens (?c o1 rd) = tokens c" "tokens (c\<lparr>ch_retried := True\<rparr>) = tokens c" for o1 rd
    by (simp_all add: tokens_def cong: option.case_cong)
  have "alive (startRound e g r (?c o1 rd))" for r o1 rd
    using assms(1,3) tok by (intro startRound_alive [OF _ assms(2)]) (simp_all add: paused_def)
  moreover have "paused (c\<lparr>ch_retried := True\<rparr>)" using assms(1) tok by (simp add: paused_def)
  ultimately show ?thesis
    using assms(1,4) by (auto simp: retryWithFallbackModel_def pickFallbackModel_def Let_def split: if_splits)
qed

lemma ended_alive: "paused c \<Longrightarrow> alive (c\<lparr>ch_requesting := False\<rparr>)"
  using plan_cong(1) [OF field_frame(3) [where c = c and b = False]] by (intro over_alive) (simp_all add: paused_def)

lemma handleStreamComplete_alive:
  assumes "paused c" "whole c" "abort_ok c" "cfg_stream (env_config e)" "g = ch_generation c"
  shows "alive (handleStreamComplete e now fresh g r c)"
proof -
  define d where "d = flushStreamUpdates now g c"
  have d: "paused d" "whole d" "abort_ok d" "g = ch_generation d"
    using assms paused_cong [of d c] plan_of_eq(1) [of d c] by (simp_all add: d_def whole_def)
  obtain b x where retry: "retryWithFallbackModel e g d = (b, x)" by fastforce
  have quiet: "alive (update_last f y) = alive y" for f y by (rule alive_cong) simp_all
  show ?thesis
    unfolding handleStreamComplete_def Let_def d_def [symmetric]
    using runToolCalls_alive [OF d(1-3) assms(4) d(4)] forceFinalAnswerRound_alive [OF d(1) assms(4) d(4)]
      retryWithFallbackModel_alive [OF d(1) assms(4) d(4) retry] ended_alive d(1) assms(5) retry
    by (simp add: quiet split: if_splits)
qed

lemma handleStreamError_alive:
  assumes "paused c" "cfg_stream (env_config e)" "g = ch_generation c"
  shows "alive (handleStreamError e now g err code c)"
proof -
  define d where "d = flushStreamUpdates now g c"
  have d: "paused d" "g = ch_generation d"
    using assms paused_cong [of d c] plan_of_eq(1) [of d c] by (simp_all add: d_def)
  obtain b x where retry: "retryWithFallbackModel e g d = (b, x)" by fastforce
  have quiet: "alive (y\<lparr>ch_requesting := False, ch_messages := ms\<rparr>) = alive (y\<lparr>ch_requesting := False\<rparr>)" for y ms
    by (rule alive_cong) (simp_all add: plan_of_def)
  show ?thesis
    unfolding handleStreamError_def Let_def d_def [symmetric]
    using retryWithFallbackModel_alive [OF d(1) assms(2) d(2) retry] ended_alive assms(3) retry
    by (simp add: quiet split: if_splits)
qed

text \<open>What a provider of well-formed calls can make of a streamed generation: the tool calls collected
  so far have no gap.\<close>

definition served :: "chat \<Rightarrow> chat \<Rightarrow> bool" where
  "served c c' \<longleftrightarrow> (\<exists>e. cfg_stream (env_config e) \<and> event_step e c c' \<and> whole c')"

lemma in_progress_paused:
  assumes "alive c" "tokens c \<noteq> []" "ch_transcript d = ch_transcript c" "ch_requesting d = ch_requesting c"
    "tokens d = []"
  shows "paused d"
  using assms by (simp add: alive_def paused_def)

lemma alive_taken:
  assumes "alive c" "tokens d = tokens c" "ch_transcript d = ch_transcript c" "ch_requesting d = ch_requesting c"
    "ch_generation d = ch_generation c" "set (ch_posts d) \<subseteq> set (ch_posts c)" "set (ch_runs d) \<subseteq> set (ch_runs c)"
    "ch_aborted d = ch_aborted c"
  shows "alive d"
  using assms(1,6,7) unfolding alive_def runs_ok_def assms(2,3,4,5,8) by blast

lemma stream_end_alive:
  assumes "alive c" "chat_inv c" "ch_stream c = Some (g, r)"
  shows "g = ch_generation c \<Longrightarrow> paused (c\<lparr>ch_stream := None\<rparr>)"
    "g \<noteq> ch_generation c \<Longrightarrow> alive (c\<lparr>ch_stream := None\<rparr>)"
proof -
  have tok: "tokens c = (if g = ch_generation c then [r] else []) @ tokens (c\<lparr>ch_stream := None\<rparr>)"
    using assms(3) by (simp add: tokens_def)
  show "paused (c\<lparr>ch_stream := None\<rparr>)" if "g = ch_generation c"
    using tok that take_stream(1) [OF assms(2,3)] assms(1)
    by (intro in_progress_paused [OF assms(1)]) (simp_all add: ready_def)
  show "alive (c\<lparr>ch_stream := None\<rparr>)" if "g \<noteq> ch_generation c"
    using tok that by (intro alive_taken [OF assms(1)]) simp_all
qed

lemma post_settled_alive:
  assumes "alive c" "p \<in> set (ch_posts c)"
  shows "alive (post_settled e now fresh p result c)"
proof -
  have old: "post_generation p \<noteq> ch_generation c" using assms by (simp add: alive_def)
  let ?c = "c\<lparr>ch_posts := remove1 p (ch_posts c)\<rparr>"
  have "tokens ?c = tokens c"
    using old by (simp add: tokens_def filter_remove1 remove1_idem cong: option.case_cong)
  then have "alive ?c"
    by (intro alive_taken [OF assms(1)]) (simp_all add: set_remove1_subset)
  moreover have "alive (x\<lparr>ch_abort := a\<rparr>) = alive x" for x a by (rule alive_cong) simp_all
  ultimately show ?thesis using old by (simp add: post_settled_def Let_def)
qed

lemma tool_finished_alive:
  assumes "alive c" "chat_inv c" "run \<in> set (ch_runs c)" "cfg_stream (env_config e)"
  shows "alive (tool_finished e now fresh run result c)"
proof -
  define c1 where "c1 = c\<lparr>ch_runs := remove1 run (ch_runs c)\<rparr>"
  show ?thesis
  proof (cases "run_generation run = ch_generation c")
    case True
    then have "tokens c \<noteq> []" using assms(3) by (auto simp: tokens_def filter_empty_conv)
    moreover have "tokens c1 = []" using take_run(1) [OF assms(2,3) c1_def True] by (simp add: ready_def)
    ultimately have "paused c1" by (intro in_progress_paused [OF assms(1)]) (simp_all add: c1_def)
    moreover have "run_isCurrent (run_generation run) (run_abort run) c1" "None \<notin> set (run_rest run)"
      using assms(1,3) True by (auto simp: alive_def runs_ok_def run_isCurrent_def c1_def)
    ultimately show ?thesis
      unfolding tool_finished_def Let_def c1_def [symmetric]
      using assms(4) by (auto intro!: run_calls_alive split: tool_result.split)
  next
    case False
    then have "tokens c1 = tokens c"
      by (simp add: tokens_def c1_def filter_remove1 remove1_idem cong: option.case_cong)
    then have "alive c1"
      by (intro alive_taken [OF assms(1)]) (simp_all add: c1_def set_remove1_subset)
    then show ?thesis using False by (simp add: tool_finished_def c1_def run_isCurrent_def Let_def)
  qed
qed

lemma event_alive:
  assumes "event_step e c c'" "cfg_stream (env_config e)" "alive c" "chat_inv c" "abort_ok c" "whole c"
  shows "alive c'"
  using assms(1)
proof cases
  case (StreamUpdate g r ty chunk)
  have "alive c' = alive c"
    unfolding StreamUpdate(1)
    by (rule alive_cong) (simp_all add: stream_update_frame, simp_all add: handleStreamUpdate_def scheduleStreamFlush_def
        Let_def split: StreamChunkType.split)
  then show ?thesis using assms(3) by simp
next
  case (ToolDelta g r deltas)
  have "alive c' = alive c"
    unfolding ToolDelta(1) by (rule alive_cong) (simp_all add: stream_update_frame, simp_all add: handleToolCallDelta_def)
  then show ?thesis using assms(3) by simp
next
  case (FlushTimer g now)
  have "alive c' = alive c"
    unfolding FlushTimer(1) by (rule alive_cong) (simp_all, simp add: flushStreamUpdates_def Let_def)
  then show ?thesis using assms(3) by simp
next
  case (StreamDone g r now fresh)
  let ?c = "c\<lparr>ch_stream := None\<rparr>"
  have "whole ?c" using assms(6) by (simp add: whole_def)
  then show ?thesis
    using stream_end_alive [OF assms(3,4) StreamDone(2)] handleStreamComplete_alive [of ?c e g] assms(2,5)
    by (cases "g = ch_generation c") (simp_all add: StreamDone(1) stream_completed_def handleStreamComplete_def)
next
  case (StreamError g r now err code)
  then show ?thesis
    using stream_end_alive [OF assms(3,4) StreamError(2)] handleStreamError_alive [of "c\<lparr>ch_stream := None\<rparr>" e g]
      assms(2)
    by (cases "g = ch_generation c") (simp_all add: stream_errored_def handleStreamError_def)
next
  case (PostSettled p now fresh result)
  then show ?thesis using post_settled_alive [OF assms(3)] by simp
next
  case (ToolFinished run now fresh ctx)
  then show ?thesis using tool_finished_alive [OF assms(3,4) _ assms(2)] by simp
qed

lemma served_alive:
  assumes "served\<^sup>*\<^sup>* c d" "alive c" "chat_inv c" "abort_ok c" "whole c"
  shows "alive d \<and> chat_inv d \<and> abort_ok d \<and> whole d"
  using assms(1)
proof (induction rule: rtranclp_induct)
  case (step d d')
  then obtain e where e: "cfg_stream (env_config e)" "event_step e d d'" "whole d'" by (auto simp: served_def)
  have "any_step d d'" using e(2) by (auto simp: any_step_def intro: ByEvent)
  then have "abort_ok d'" using abort_ok_step step.IH by blast
  moreover have "alive d'" "chat_inv d'"
    using event_alive [OF e(2,1)] event_step_inv [OF e(2)] step.IH by simp_all
  ultimately show ?case using e(3) by simp
qed (use assms in simp)

lemma sendChat_alive:
  assumes "history_ok c" "abort_ok c" "cfg_stream (env_config e)"
  shows "alive (sendChat e ms c)" "whole (sendChat e ms c)"
proof -
  obtain d ts where d: "sendChat e ms c = startRound e (ch_generation c + 1) 0 d"
    "ch_generation d = ch_generation c + 1" "ch_stream d = None" "ch_posts d = ch_posts c"
    "ch_runs d = ch_runs c" "ch_requests d = ch_requests c" "ch_requesting d"
    "ch_transcript d = Some (ts @ buildApiTranscript ms)"
    by (rule sendChat_prepared)
  have "paused d"
    using new_generation(2) [OF assms(1) d(2) _ d(4,5,6)] d(3,7,8) by (simp add: paused_def)
  then show "alive (sendChat e ms c)"
    unfolding d(1) d(2) [symmetric] by (rule startRound_alive [OF _ assms(3) refl])
  show "whole (sendChat e ms c)"
    using assms(3) by (simp add: sendChat_def startRound_def startStreamRound_def whole_def no_round_def Let_def)
qed

text \<open>C20. A streamed generation never hangs and never runs unnoticed: as long as the tool calls the model
  streams have no gaps, the chat is marked as generating exactly while a stream or a tool call of
  the current send is still in progress, through every retry, tool round and forced answer.\<close>

theorem generating_iff_in_progress:
  assumes "any_step\<^sup>*\<^sup>* (initial_chat ms0) c" "cfg_stream (env_config e)" "served\<^sup>*\<^sup>* (sendChat e ms c) d"
  shows "ch_requesting d \<longleftrightarrow>
    (\<exists>r. ch_stream d = Some (ch_generation d, r)) \<or> (\<exists>r \<in> set (ch_runs d). run_generation r = ch_generation d)"
proof -
  note inv = chat_reachable_inv [OF assms(1)] and ok = reachable_abort_ok [OF assms(1)]
  have hist: "history_ok c" using inv by (simp add: chat_inv_def)
  have "alive d"
    using served_alive [OF assms(3)] sendChat_alive [OF hist ok assms(2)] sendChat_inv [OF hist]
      abort_ok_user(1) [OF ok] by blast
  then show ?thesis
    unfolding alive_def tokens_Nil by (auto simp: filter_empty_conv)
qed

theorem generating_iff_in_progress_witness:
  "ch_requesting (handleStreamUpdate 1 ContentChunk ''a'' (sample_sent True))"
proof -
  let ?d = "handleStreamUpdate 1 ContentChunk ''a'' (sample_sent True)"
  have fields: "ch_stream (sample_sent True) = Some (1, 0)" "ch_generation (sample_sent True) = 1"
    "whole (sample_sent True)" "cfg_stream (env_config (sample_env True))"
    by (simp_all add: sample_sent_def sendChat_def initial_chat_def sample_env_def startRound_def whole_def
        startStreamRound_def discardPendingStreamUpdates_def abort_current_def no_round_def Let_def)
  have "whole ?d"
    using fields(3) by (simp add: whole_def handleStreamUpdate_def scheduleStreamFlush_def Let_def)
  then have "served (sendChat (sample_env True) [] (initial_chat [])) ?d"
    unfolding served_def sample_sent_def [symmetric] using fields(1,4) StreamUpdate by blast
  from generating_iff_in_progress [OF rtranclp.rtrancl_refl fields(4) r_into_rtranclp [where r = served, OF this]] fields(1,2)
  show ?thesis by (simp add: plan_of_eq(1,2) [OF stream_update_frame(1)])
qed

text \<open>Tool calls with a gap, as a model that does not number its calls from zero streams them, end the
  loop at the gap: nothing is in progress any more, and the chat stays marked as generating.\<close>

lemma gap_stalls:
  assumes "paused c" "g = ch_generation c" "rd_calls (ch_round c) = None # calls" "r < MAX_TOOL_ROUNDS"
    "\<not> ch_forced c"
  shows "paused (handleStreamComplete e now fresh g r c)"
proof -
  define d where "d = flushStreamUpdates now g c"
  have plan: "plan_of d = plan_of c" by (simp add: d_def)
  have d: "paused d" "ch_transcript d \<noteq> None" "rd_calls (ch_round d) = None # calls" "\<not> ch_forced d"
    using assms paused_cong [OF plan] plan_of_eq(7) [OF plan] by (auto simp: d_def paused_def)
  have "ch_requesting (push_transcript m x) = ch_requesting x" for m x by (simp add: push_transcript_def)
  then have "paused (new_abort (push_transcript m (d\<lparr>ch_round := no_round\<rparr>)))" for m
    using d(1) paused_cong [of "new_abort (push_transcript m (d\<lparr>ch_round := no_round\<rparr>))" d] by simp
  then show ?thesis
    unfolding handleStreamComplete_def Let_def d_def [symmetric]
    using d assms(4) by (simp add: runToolCalls_def Let_def assms(2) [symmetric])
qed

text \<open>A plain request that fails for the first time is sent again, but the chat is then no longer marked
  as generating while the second request is in flight.\<close>

lemma plain_retry_unmarked:
  assumes "\<not> cfg_stream (env_config e)" "cfg_model (env_config e) \<noteq> []" "\<not> ch_retried c"
    "ch_modelOverride c = None" "ch_transcript c \<noteq> None" "post_generation p = ch_generation c"
    "post_abort p \<notin> set (ch_aborted c)"
  shows "\<not> ch_requesting (post_settled e now fresh p (PostFailed message code) c) \<and>
    tokens (post_settled e now fresh p (PostFailed message code) c) \<noteq> []"
proof -
  define c1 where "c1 = flushStreamUpdates now (ch_generation c) (c\<lparr>ch_posts := remove1 p (ch_posts c)\<rparr>)"
  have c1: "ch_generation c1 = ch_generation c" "\<not> ch_retried c1" "ch_modelOverride c1 = None"
    "ch_transcript c1 \<noteq> None"
    using assms(3,4,5) by (simp_all add: c1_def) (simp_all add: flushStreamUpdates_def Let_def)
  define c2 where "c2 = c1\<lparr>ch_retried := True, ch_modelOverride := Some (cfg_model (env_config e)),
      ch_round := (ch_round c1)\<lparr>rd_calls := []\<rparr>\<rparr>"
  define c3 where "c3 = startRound e (ch_generation c) (ch_currentRound c1) c2"
  have c2: "ch_generation c2 = ch_generation c" "ch_transcript c2 \<noteq> None" using c1 by (simp_all add: c2_def)
  then obtain n where posts: "ch_posts c3 = ch_posts c2 @
      [\<lparr>post_generation = ch_generation c, post_round = ch_currentRound c1, post_abort = n\<rparr>]"
    using assms(1) by (auto simp: c3_def startRound_def runNonStreamingRound_def new_abort_def abort_current_def
        Let_def split: option.split)
  have gen: "ch_generation c3 = ch_generation c"
    using c2 startRound_frame(1) [of c2 _ e] by (auto simp: c3_def)
  have "retryWithFallbackModel e (ch_generation c) c1 = (True, c3)"
    using c1 assms(2) by (simp add: retryWithFallbackModel_def pickFallbackModel_def or_value_def c2_def c3_def Let_def)
  then have "handleStreamError e now (ch_generation c) message code
      (c\<lparr>ch_posts := remove1 p (ch_posts c)\<rparr>) = c3"
    by (simp add: handleStreamError_def c1_def)
  then show ?thesis
    using assms(6,7) gen posts by (simp add: post_settled_def Let_def tokens_Nil)
qed

section \<open>Silent retry\<close>

text \<open>C21. The first error of a generation is silent: with a model chosen, the same round is requested once
  more with the same transcript and no message is touched but by flushing what had arrived. The
  second error is shown: the last assistant message fails with the error, and the chat stops.\<close>

theorem first_error_retried:
  assumes "g = ch_generation c" "cfg_model (env_config e) \<noteq> []" "ch_modelOverride c = None \<or> ch_retried c"
    "ch_transcript c = Some ts"
  shows "(\<not> ch_retried c \<longrightarrow>
      (\<exists>p. ch_requests (handleStreamError e now g err code c) = ch_requests c @ [(g, ch_currentRound c, p)] \<and>
         rq_messages p = ts \<and> rq_model p = cfg_model (env_config e)) \<and>
      ch_messages (handleStreamError e now g err code c) = ch_messages (flushStreamUpdates now g c) \<and>
      ch_retried (handleStreamError e now g err code c)) \<and>
    (ch_retried c \<longrightarrow>
      ch_requests (handleStreamError e now g err code c) = ch_requests c \<and>
      \<not> ch_requesting (handleStreamError e now g err code c) \<and>
      ch_messages (handleStreamError e now g err code c) =
        updateAssistantMessageWithError now (ch_messages (flushStreamUpdates now g c))
          (getDisplayError (env_t e) err) code (Some (env_t e API_REQUEST_ERROR)))"
proof -
  define d where "d = flushStreamUpdates now g c"
  have plan: "plan_of d = plan_of c" by (simp add: d_def)
  have d: "ch_modelOverride d = ch_modelOverride c" "ch_transcript d = Some ts"
    using assms(4) by (simp_all add: d_def) (simp add: flushStreamUpdates_def Let_def)
  have eq: "handleStreamError e now g err code c = (case retryWithFallbackModel e g d of (retried, c) \<Rightarrow>
      if retried then c
      else c\<lparr>ch_requesting := False, ch_messages := updateAssistantMessageWithError now (ch_messages c)
          (getDisplayError (env_t e) err) code (Some (env_t e API_REQUEST_ERROR))\<rparr>)"
    by (simp add: handleStreamError_def assms(1) d_def)
  show ?thesis
  proof (cases "ch_retried c")
    case True
    then have "retryWithFallbackModel e g d = (False, d)"
      using plan_of_eq(8) [OF plan] by (simp add: retryWithFallbackModel_def pickFallbackModel_def Let_def)
    with True plan_of_eq(5) [OF plan] show ?thesis by (simp add: eq d_def [symmetric])
  next
    case False
    let ?c = "d\<lparr>ch_retried := True, ch_modelOverride := Some (cfg_model (env_config e)),
        ch_round := (ch_round d)\<lparr>rd_calls := []\<rparr>\<rparr>"
    have "retryWithFallbackModel e g d = (True, startRound e g (ch_currentRound d) ?c)"
      using False d assms(2,3) plan_of_eq(8) [OF plan]
      by (simp add: retryWithFallbackModel_def pickFallbackModel_def or_value_def Let_def)
    moreover have "rq_model (round_payload e ts ?c) = cfg_model (env_config e)"
      using assms(2) by (simp add: round_payload_def buildChatApiPayload_def Let_def split: option.split)
    ultimately show ?thesis
      using False plan_of_eq(5,6) [OF plan] startRound_frame [of ?c ts e g "ch_currentRound d"] d(2)
      by (simp add: eq d_def [symmetric])
  qed
qed

theorem first_error_retried_witness:
  "length (ch_requests (handleStreamError (sample_env True) 5 1 ''e'' None (sample_sent True))) = 2"
proof -
  have fields: "ch_generation (sample_sent True) = 1" "ch_modelOverride (sample_sent True) = None"
    "ch_transcript (sample_sent True) = Some (buildApiTranscript [])" "\<not> ch_retried (sample_sent True)"
    "length (ch_requests (sample_sent True)) = 1"
    by (simp_all add: sample_sent_def sendChat_def initial_chat_def sample_env_def startRound_def
        startStreamRound_def discardPendingStreamUpdates_def abort_current_def Let_def)
  have "cfg_model (env_config (sample_env True)) \<noteq> []" by (simp add: sample_env_def)
  from first_error_retried [of 1 "sample_sent True", OF _ this _ fields(3), of 5 "''e''" None] fields
  show ?thesis by auto
qed

section \<open>Batching\<close>

text \<open>Deliveries between two rounds, each with the time it happens: a piece of content, or the flush timer.
  Without batching, each piece would be flushed at once.\<close>

type_synonym delivery = "int \<times> string option"


definition arrived :: "delivery list \<Rightarrow> string list" where
  "arrived ops = List.map_filter snd ops"

definition at_once :: "int \<Rightarrow> string list \<Rightarrow> delivery list" where
  "at_once now pieces = concat (map (\<lambda>piece. [(now, Some piece), (now, None)]) pieces)"

















lemma arrived_simps [simp]:
  "arrived [] = []" "arrived ((t, Some p) # ops) = p # arrived ops" "arrived ((t, None) # ops) = arrived ops"
  "arrived (xs @ ys) = arrived xs @ arrived ys" "arrived (map (\<lambda>p. (t, Some p)) ps) = ps" "arrived (at_once t ps) = ps"
  by (simp_all add: arrived_def List.map_filter_def at_once_def comp_def) (induction ps; simp)













end
