(* ===== verification/ChatStream.thy ===== *)
theory ChatStream
  imports ChatBehaviour
begin

text \<open>
  The chat handler and the stream controller as one program: \<^verbatim>\<open>useChatHandler\<close> starts a streamed round
  with \<^verbatim>\<open>sendStreamRequest\<close> and hands over four closures, and \<^verbatim>\<open>createStreamRequestController\<close> calls them
  back. The handler's model marks by itself which request the controller serves; here that mark is
  shown to be what the controller does, so what is proved of the handler holds of the two together.
\<close>

section \<open>The two machines as one\<close>

text \<open>The controller passes on values of the wire; the handler takes them for strings and calls.
  How they are read is an argument.\<close>

record glue =
  gl_text :: "jsval \<Rightarrow> string"
  gl_code :: "jsval \<Rightarrow> string option"
  gl_deltas :: "jsval list \<Rightarrow> (string \<times> ToolCallDelta) list"

text \<open>\<open>sys_closures\<close> holds, for each generation of the controller, the generation and the round of the
  handler that the closures of that request captured.\<close>

record system =
  sys_ctl :: controller
  sys_chat :: chat
  sys_closures :: "(int \<times> int \<times> nat) list"

definition initial_system :: "Message list \<Rightarrow> system" where
  "initial_system ms = \<lparr>sys_ctl = initial_controller, sys_chat = initial_chat ms, sys_closures = []\<rparr>"

text \<open>The closures of one call of \<^verbatim>\<open>sendStreamRequest\<close>.\<close>

definition chat_callback :: "glue \<Rightarrow> env \<Rightarrow> int \<Rightarrow> string \<Rightarrow> int \<times> nat \<Rightarrow> callback \<Rightarrow> chat \<Rightarrow> chat" where
  "chat_callback gl e now fresh gr cb h =
     (case cb of
        OnUpdate type chunk \<Rightarrow> handleStreamUpdate (fst gr) type (gl_text gl chunk) h
      | OnToolCallDelta deltas \<Rightarrow> handleToolCallDelta (fst gr) (gl_deltas gl deltas) h
      | OnComplete \<Rightarrow> stream_completed e now fresh (fst gr) (snd gr) h
      | OnError err code \<Rightarrow> stream_errored e now (fst gr) (gl_text gl err) (gl_code gl code) h)"

text \<open>The handler after the callbacks of a step, in their order.\<close>

definition told ::
  "glue \<Rightarrow> env \<Rightarrow> int \<Rightarrow> string \<Rightarrow> (int \<times> int \<times> nat) list \<Rightarrow> (int \<times> callback) list \<Rightarrow> chat \<Rightarrow> chat" where
  "told gl e now fresh closures entries h =
     foldl (\<lambda>h (k, cb). case map_of closures k of None \<Rightarrow> h
         | Some gr \<Rightarrow> chat_callback gl e now fresh gr cb h) h entries"

text \<open>A step of the handler has called \<^verbatim>\<open>sendStreamRequest\<close>: it started a round, and rounds are
  streamed.\<close>

definition issued :: "env \<Rightarrow> chat \<Rightarrow> chat \<Rightarrow> bool" where
  "issued e h h' \<longleftrightarrow> cfg_stream (env_config e) \<and> ch_requests h' \<noteq> ch_requests h"

definition capture :: "chat \<Rightarrow> controller \<Rightarrow> (int \<times> int \<times> nat) list \<Rightarrow> (int \<times> int \<times> nat) list" where
  "capture h c closures =
     (case last (ch_requests h) of (g, r, _) \<Rightarrow> AList.update (ctl_generation c) (g, r) closures)"

definition sendStreamRequest :: "env \<Rightarrow> chat \<Rightarrow> system \<Rightarrow> system" where
  "sendStreamRequest e h s =
     (if issued e (sys_chat s) h
      then (let c = send (sys_ctl s) in
            \<lparr>sys_ctl = c, sys_chat = h, sys_closures = capture h c (sys_closures s)\<rparr>)
      else s\<lparr>sys_chat := h\<rparr>)"

text \<open>What a source or the fetch of the headers can do, by the request it belongs to.\<close>

datatype source_event =
    NoHeaders int "string option"
  | GotHeaders int
  | GotMessage int "string option"
  | GotError int "int option" "string option"
  | GotReadyState int "int option" "nat option"
  | NotStarted int

definition at_source :: "int \<Rightarrow> (nat \<Rightarrow> controller) \<Rightarrow> controller \<Rightarrow> controller" where
  "at_source g f c = (case map_of (ctl_live c) g of None \<Rightarrow> c | Some (n, _) \<Rightarrow> f n)"

fun source_step :: "reaction \<Rightarrow> (string \<Rightarrow> jsval option) \<Rightarrow> source_event \<Rightarrow> controller \<Rightarrow> controller" where
  "source_step react json (NoHeaders g m) c =
     (if g \<in> set (ctl_awaiting c) then headers_failed react g m c else c)"
| "source_step react json (GotHeaders g) c =
     (if g \<in> set (ctl_awaiting c) then headers_arrived g c else c)"
| "source_step react json (GotMessage g d) c = at_source g (\<lambda>n. on_message react json g n d c) c"
| "source_step react json (GotError g rs d) c = at_source g (\<lambda>n. on_error react json g n rs d c) c"
| "source_step react json (GotReadyState g rs st) c =
     at_source g (\<lambda>n. on_readystatechange react g n rs st c) c"
| "source_step react json (NotStarted g) c = at_source g (\<lambda>n. stream_failed react g n c) c"

text \<open>A handler that is told of the end of a request may send the next one before the controller goes
  on; \<open>again\<close> says when, from what has been told.\<close>

definition resend :: "((int \<times> callback) list \<Rightarrow> bool) \<Rightarrow> reaction" where
  "resend again g cb c = (if terminal cb \<and> again (ctl_log c) then send c else c)"

definition on_source_event ::
  "glue \<Rightarrow> env \<Rightarrow> int \<Rightarrow> string \<Rightarrow> source_event \<Rightarrow> system \<Rightarrow> system" where
  "on_source_event gl e now fresh ev s =
     (let c = sys_ctl s; h = sys_chat s;
          heard = (\<lambda>l. told gl e now fresh (sys_closures s) (drop (length (ctl_log c)) l) h);
          c' = source_step (resend (\<lambda>l. issued e h (heard l))) (env_json e) ev c;
          h' = heard (ctl_log c') in
      \<lparr>sys_ctl = c', sys_chat = h',
       sys_closures = (if ctl_generation c' = ctl_generation c then sys_closures s
         else capture h' c' (sys_closures s))\<rparr>)"

definition send_message :: "env \<Rightarrow> Message list \<Rightarrow> system \<Rightarrow> system" where
  "send_message e ms s =
     sendStreamRequest e (sendChat e ms ((sys_chat s)\<lparr>ch_messages := ms\<rparr>)) (s\<lparr>sys_ctl := stop (sys_ctl s)\<rparr>)"

definition stop_all :: "int \<Rightarrow> system \<Rightarrow> system" where
  "stop_all now s = s\<lparr>sys_ctl := stop (sys_ctl s), sys_chat := stopGeneration now (sys_chat s)\<rparr>"

definition leave :: "system \<Rightarrow> system" where
  "leave s = s\<lparr>sys_ctl := dispose (sys_ctl s), sys_chat := unmount (sys_chat s)\<rparr>"

inductive arrival :: "glue \<Rightarrow> system \<Rightarrow> system \<Rightarrow> bool" for gl where
  FromSource: "arrival gl s (on_source_event gl e now fresh ev s)"
| FromTimer: "ch_timer (sys_chat s) = Some g \<Longrightarrow>
    arrival gl s (s\<lparr>sys_chat := flushStreamUpdates now g (sys_chat s)\<rparr>)"
| FromPost: "p \<in> set (ch_posts (sys_chat s)) \<Longrightarrow>
    arrival gl s (sendStreamRequest e (post_settled e now fresh p result (sys_chat s)) s)"
| FromTool: "run \<in> set (ch_runs (sys_chat s)) \<Longrightarrow>
    arrival gl s (sendStreamRequest e (tool_finished e now fresh run
      (executePlaygroundTool (env_json e) (env_stringify e) (tc_name (run_call run))
        (tc_arguments (run_call run)) ctx) (sys_chat s)) s)"

inductive system_step :: "glue \<Rightarrow> system \<Rightarrow> system \<Rightarrow> bool" for gl where
  Arrives: "arrival gl s s' \<Longrightarrow> system_step gl s s'"
| Sends: "system_step gl s (send_message e ms s)"
| Stops: "system_step gl s (stop_all now s)"
| Edits: "system_step gl s (s\<lparr>sys_chat := (sys_chat s)\<lparr>ch_messages := ms\<rparr>\<rparr>)"
| Leaves: "system_step gl s (leave s)"

inductive_cases arrivalE: "arrival gl s s'"
inductive_cases system_stepE: "system_step gl s s'"

section \<open>A round is started at most once in a step\<close>

definition still :: "(int \<times> nat) option \<times> (int \<times> nat \<times> ChatCompletionRequest) list \<Rightarrow> chat \<Rightarrow> bool" where
  "still b h \<longleftrightarrow> (ch_stream h, ch_requests h) = b"

definition moved ::
  "env \<Rightarrow> (int \<times> nat) option \<times> (int \<times> nat \<times> ChatCompletionRequest) list \<Rightarrow> chat \<Rightarrow> bool" where
  "moved e b h \<longleftrightarrow> still b h \<or>
     (\<exists>g r p. ch_requests h = snd b @ [(g, r, p)] \<and>
        ch_stream h = (if cfg_stream (env_config e) then Some (g, r) else fst b))"

lemma still_cong: "plan_of c = plan_of d \<Longrightarrow> still b c = still b d"
  by (simp add: still_def plan_of_def)

lemma moved_cong: "plan_of c = plan_of d \<Longrightarrow> moved e b c = moved e b d"
  by (simp add: moved_def still_def plan_of_def)

lemma still_fields [simp]:
  "still b (c\<lparr>ch_forced := x1\<rparr>) = still b c" "still b (c\<lparr>ch_retried := x1\<rparr>) = still b c"
  "still b (c\<lparr>ch_modelOverride := x2\<rparr>) = still b c" "still b (c\<lparr>ch_runs := rs\<rparr>) = still b c"
  "still b (c\<lparr>ch_posts := ps\<rparr>) = still b c"
  by (simp_all add: still_def)

lemma still_frame [simp]:
  "still b (update_last f c) = still b c" "still b (push_transcript m c) = still b c"
  "still b (flushStreamUpdates now g c) = still b c" "still b (new_abort c) = still b c"
  "still b (finishWithError e now fresh call err c) = still b c"
  "still b (finish_with_outcome now fresh call outcome c) = still b c"
  "still b (c\<lparr>ch_round := rd\<rparr>) = still b c" "still b (c\<lparr>ch_requesting := x1\<rparr>) = still b c"
  "still b (c\<lparr>ch_produced := x1\<rparr>) = still b c" "still b (c\<lparr>ch_messages := ms\<rparr>) = still b c"
  by (rule still_cong; simp add: finishWithError_def finish_with_outcome_def Let_def)+

lemma moved_frame [simp]:
  "moved e b (update_last f c) = moved e b c" "moved e b (c\<lparr>ch_requesting := x1\<rparr>) = moved e b c"
  "moved e b (c\<lparr>ch_messages := ms\<rparr>) = moved e b c" "moved e b (c\<lparr>ch_abort := a\<rparr>) = moved e b c"
  by (rule moved_cong; simp)+

lemma still_moved: "still b c \<Longrightarrow> moved e b c"
  by (simp add: moved_def)

lemma moved_startRound: "still b c \<Longrightarrow> moved e b (startRound e g r c)"
  by (auto simp: moved_def still_def startRound_def startStreamRound_def runNonStreamingRound_def
      new_abort_def abort_current_def Let_def split: option.split)

lemma moved_run_calls: "still b c \<Longrightarrow> moved e b (run_calls e now fresh g r n calls c)"
proof (induction calls arbitrary: c)
  case (Cons x calls)
  then show ?case by (cases x) (simp_all add: Let_def still_moved)
qed (simp add: moved_startRound still_moved)

lemma moved_rounds:
  assumes "still b c"
  shows "moved e b (runToolCalls e now fresh g r c)" "moved e b (forceFinalAnswerRound e g r c)"
    "moved e b (snd (retryWithFallbackModel e g c))"
  using assms by (simp_all add: runToolCalls_def forceFinalAnswerRound_def retryWithFallbackModel_def
      pickFallbackModel_def Let_def moved_run_calls moved_startRound still_moved)

lemma moved_ends:
  assumes "still b c"
  shows "moved e b (handleStreamComplete e now fresh g r c)" "moved e b (handleStreamError e now g err code c)"
proof -
  define d where "d = flushStreamUpdates now g c"
  have d: "still b d" using assms by (simp add: d_def)
  note rounds = moved_rounds [OF d]
  show "moved e b (handleStreamComplete e now fresh g r c)"
    unfolding handleStreamComplete_def Let_def d_def [symmetric]
    using assms d rounds(1,2) rounds(3) [of e g]
    by (cases "g = ch_generation c"; cases "retryWithFallbackModel e g d") (simp_all add: still_moved)
  show "moved e b (handleStreamError e now g err code c)"
    unfolding handleStreamError_def Let_def d_def [symmetric]
    using assms rounds(3) [of e g]
    by (cases "g = ch_generation c"; cases "retryWithFallbackModel e g d") (simp_all add: still_moved)
qed

lemma moved_plain:
  assumes "still b c"
  shows "moved e b (snd (plain_response e now fresh g r response c))"
proof (cases response)
  case Nil
  then show ?thesis using assms by (simp add: plain_response_def moved_ends)
next
  case (Cons choice rest)
  define d where "d = c\<lparr>ch_produced := (ch_produced c \<or> trim (or_value (choice_content choice) []) \<noteq> [])\<rparr>"
  have d: "still b d" "ch_forced d = ch_forced c" using assms by (simp_all add: d_def)
  note rounds = moved_rounds [OF d(1)]
  have "moved e b (runToolCalls e now fresh g r (update_last f (d\<lparr>ch_round := rd\<rparr>)))" for f rd
    using d by (intro moved_rounds) simp
  then show ?thesis
    unfolding plain_response_def Cons Let_def list.case d_def [symmetric]
    using d rounds(2) rounds(3) [of e g] by (cases "retryWithFallbackModel e g d") (simp add: still_moved)
qed

lemma moved_settled:
  assumes "still b c"
  shows "moved e b (post_settled e now fresh p result c)" "moved e b (tool_finished e now fresh run res c)"
proof -
  define c1 where "c1 = c\<lparr>ch_posts := remove1 p (ch_posts c)\<rparr>"
  define out where "out =
      (if post_abort p \<in> set (ch_aborted c1) \<or> ch_generation c1 \<noteq> post_generation p then (False, c1)
       else (case result of
           PostFailed message code \<Rightarrow> (False, handleStreamError e now (post_generation p) message code c1)
         | PostAnswered response \<Rightarrow>
             plain_response e now fresh (post_generation p) (post_round p) response c1))"
  have "still b c1" using assms by (simp add: c1_def)
  then have "moved e b (snd out)"
    by (simp add: out_def moved_ends moved_plain still_moved split: post_result.split)
  then show "moved e b (post_settled e now fresh p result c)"
    unfolding post_settled_def Let_def c1_def [symmetric] out_def [symmetric]
    by (cases out) simp
  show "moved e b (tool_finished e now fresh run res c)"
    using assms by (simp add: tool_finished_def Let_def moved_run_calls still_moved split: tool_result.split)
qed

section \<open>What a source event does to the controller\<close>

lemma reactive_resend: "reactive (resend again)"
  by (simp add: reactive_def resend_def api_step.Send r_into_rtranclp)

lemma source_step_ctl: "source_step react json ev c = c \<or> ctl_step react json c (source_step react json ev c)"
  by (cases ev) (auto simp: at_source_def intro: ctl_step.intros split: option.split)

lemma source_step_sound:
  assumes "reactive react" "ctl_inv c" "at_rest c"
  shows "sound_step c (source_step react json ev c)"
  using source_step_ctl [of react json ev c] ctl_step_sound [OF assms(1) _ assms(2,3)] sound_step_refl [OF assms(2,3)]
  by auto

text \<open>A request that is over is told nothing any more.\<close>

lemma over_at_source:
  assumes "request_over (ctl_generation c) c"
  shows "at_source g (\<lambda>n. on_message react json g n data c) c = c"
    "at_source g (\<lambda>n. on_error react json g n rs data c) c = c"
    "at_source g (\<lambda>n. on_readystatechange react g n rs st c) c = c"
    "at_source g (\<lambda>n. stream_failed react g n c) c = c"
proof -
  have "\<not> isCurrent g n c \<or> completed g c" if "map_of (ctl_live c) g = Some x" for n x
    using assms that by (auto simp: isCurrent_def request_over_def)
  then show "at_source g (\<lambda>n. on_message react json g n data c) c = c"
    "at_source g (\<lambda>n. on_error react json g n rs data c) c = c"
    "at_source g (\<lambda>n. on_readystatechange react g n rs st c) c = c"
    "at_source g (\<lambda>n. stream_failed react g n c) c = c"
    unfolding at_source_def on_message_def on_error_def on_readystatechange_def stream_failed_def
    by (auto split: option.split)
qed

lemma over_silent:
  fixes react json ev c
  defines "d \<equiv> source_step react json ev c"
  assumes "request_over (ctl_generation c) c"
  shows "ctl_log d = ctl_log c \<and> ctl_generation d = ctl_generation c \<and>
    request_over (ctl_generation c) d \<and> ctl_source d = ctl_source c \<and> ctl_streaming d = ctl_streaming c"
proof (cases ev)
  case (NoHeaders g m)
  then show ?thesis
    using assms(2) by (auto simp: d_def headers_failed_def request_over_def completed_def Let_def)
next
  case (GotHeaders g)
  then show ?thesis
    using assms(2) by (auto simp: d_def headers_arrived_def request_over_def completed_def Let_def)
qed (simp_all add: d_def assms(2) over_at_source [OF assms(2)])

text \<open>The generation moves on exactly when an end is reported and the handler sends again.\<close>

definition reports :: "((int \<times> callback) list \<Rightarrow> bool) \<Rightarrow> controller \<Rightarrow> controller \<Rightarrow> bool" where
  "reports again c c' \<longleftrightarrow> (\<exists>new. ctl_log c' = ctl_log c @ new \<and>
     ctl_generation c' = ctl_generation c +
       (if (\<exists>x \<in> set new. terminal (snd x)) \<and> again (ctl_log c') then 1 else 0))"

lemma reports_refl [simp]: "reports again c c"
  by (simp add: reports_def)

lemma reports_updates:
  assumes "reports again (c\<lparr>ctl_log := ctl_log c @ us\<rparr>) c'" "\<forall>x \<in> set us. \<not> terminal (snd x)"
  shows "reports again c c'"
proof -
  obtain new where "ctl_log c' = ctl_log c @ us @ new"
    "ctl_generation c' = ctl_generation c +
       (if (\<exists>x \<in> set new. terminal (snd x)) \<and> again (ctl_log c') then 1 else 0)"
    using assms(1) by (auto simp: reports_def)
  then show ?thesis
    unfolding reports_def using assms(2) by (intro exI [of _ "us @ new"]) auto
qed

lemma send_frame [simp]:
  "ctl_log (send c) = ctl_log c" "ctl_generation (send c) = ctl_generation c + 1"
  by (simp_all add: send_def close_source_def Let_def split: option.split)

lemma close_frame [simp]:
  "ctl_log (closeActiveSource n c) = ctl_log c" "ctl_generation (closeActiveSource n c) = ctl_generation c"
  by (simp_all add: closeActiveSource_def close_source_def Let_def)

lemma reports_frame [simp]:
  "reports again (set_completed g n c) c' = reports again c c'"
  "reports again (closeActiveSource n c) c' = reports again c c'"
  "reports again (c\<lparr>ctl_awaiting := ws\<rparr>) c' = reports again c c'"
  "reports again c (closeActiveSource n c') = reports again c c'"
  by (simp_all add: reports_def)

lemma reports_fire: "reports again c (fire (resend again) g cb c)"
  by (simp add: reports_def fire_def resend_def)

lemma reports_handleError: "reports again c (handleError (resend again) g n m code c)"
  using reports_fire [of again "set_completed g n c" g "OnError m code"]
  by (simp add: handleError_def)

lemma reports_on_message: "reports again c (on_message (resend again) json g n data c)"
proof -
  let ?done = "closeActiveSource n (set_completed g n c)"
  have finished: "reports again c (fire (resend again) g OnComplete ?done)"
    using reports_fire [of again ?done g OnComplete] by simp
  define logged where "logged ups = c\<lparr>ctl_log := ctl_log c @ map (Pair g) (map (\<lambda>(ty, chunk). OnUpdate ty chunk) ups)\<rparr>"
    for ups
  have quiet: "\<forall>x \<in> set (map (Pair g) (map (\<lambda>(ty, chunk). OnUpdate ty chunk) ups)). \<not> terminal (snd x)" for ups
    by auto
  have more: "reports again (logged ups) c' \<Longrightarrow> reports again c c'" for ups c'
    unfolding logged_def by (rule reports_updates [OF _ quiet])
  show ?thesis
    unfolding on_message_def fire_updates [OF reactive_resend] logged_def [symmetric] Let_def
    by (auto intro: finished reports_handleError more reports_fire reports_refl split: option.split)
qed

lemma reports_source_step: "reports again c (source_step (resend again) json ev c)"
proof (cases ev)
  case (NoHeaders g m)
  then show ?thesis
    using reports_fire [of again "c\<lparr>ctl_awaiting := removeAll g (ctl_awaiting c)\<rparr>" g]
    by (simp add: headers_failed_def Let_def) (simp add: reports_def)
next
  case (GotHeaders g)
  then show ?thesis by (simp add: headers_arrived_def Let_def reports_def)
qed (auto simp: at_source_def reports_on_message on_error_def on_readystatechange_def stream_failed_def
      reports_handleError Let_def split: option.split)

section \<open>What the handler is told\<close>

lemma callback_event:
  assumes "ch_stream h = Some gr"
  shows "any_event h (chat_callback gl e now fresh gr cb h)"
  using assms unfolding any_event_def
  by (cases gr; cases cb) (auto simp: chat_callback_def intro: event_step.intros exI [of _ e])

lemma callback_update: "\<not> terminal cb \<Longrightarrow> plan_of (chat_callback gl e now fresh gr cb h) = plan_of h"
  by (cases cb) (simp_all add: chat_callback_def stream_update_frame)

lemma callback_end: "terminal cb \<Longrightarrow> moved e (None, ch_requests h) (chat_callback gl e now fresh gr cb h)"
  by (cases cb) (simp_all add: chat_callback_def stream_completed_def stream_errored_def moved_ends still_def)

lemma told_simps [simp]:
  "told gl e now fresh cls [] h = h"
  "map_of cls k = Some gr \<Longrightarrow>
     told gl e now fresh cls ((k, cb) # es) h = told gl e now fresh cls es (chat_callback gl e now fresh gr cb h)"
  "told gl e now fresh cls (es @ fs) h = told gl e now fresh cls fs (told gl e now fresh cls es h)"
  by (simp_all add: told_def)

lemma told_updates:
  assumes "map_of cls k = Some gr" "ch_stream h = Some gr" "\<forall>x \<in> set us. fst x = k \<and> \<not> terminal (snd x)"
  shows "any_event\<^sup>*\<^sup>* h (told gl e now fresh cls us h) \<and> plan_of (told gl e now fresh cls us h) = plan_of h"
  using assms(2,3)
proof (induction us arbitrary: h)
  case (Cons x us)
  then obtain cb where x: "x = (k, cb)" "\<not> terminal cb" by (cases x) auto
  let ?h = "chat_callback gl e now fresh gr cb h"
  have "plan_of ?h = plan_of h" by (rule callback_update [OF x(2)])
  with Cons show ?case
    using assms(1) callback_event [OF Cons.prems(1), of gl e now fresh cb] plan_of_eq(2) [of ?h h]
    by (auto simp: x intro: converse_rtranclp_into_rtranclp)
qed simp

text \<open>What one step tells is of the current request, and an end only comes last.\<close>

lemma log_split:
  assumes "log_ok (l @ new)" "\<forall>x \<in> set new. fst x = k"
  obtains (updates) "\<forall>x \<in> set new. fst x = k \<and> \<not> terminal (snd x)"
    | (ended) us cb where "new = us @ [(k, cb)]" "terminal cb" "\<forall>x \<in> set us. fst x = k \<and> \<not> terminal (snd x)"
proof (cases new rule: rev_cases)
  case Nil
  then show ?thesis using updates by simp
next
  case (snoc us x)
  then have "\<forall>y \<in> set us. fst y = k \<and> \<not> terminal (snd y)"
    using assms by (auto simp: log_ok_def sorted_wrt_append)
  then show ?thesis
    using assms(2) snoc updates ended [of us "snd x"] by (cases "terminal (snd x)"; cases x) auto
qed

definition over_for :: "(int \<times> callback) list \<Rightarrow> bool" where
  "over_for new \<longleftrightarrow> (\<exists>x \<in> set new. terminal (snd x))"

lemma told_step:
  fixes gl e now fresh cls new h
  assumes "map_of cls k = Some gr" "ch_stream h = Some gr" "log_ok (l @ new)" "\<forall>x \<in> set new. fst x = k"
  defines "h' \<equiv> told gl e now fresh cls new h"
  shows "any_event\<^sup>*\<^sup>* h h'" "\<not> over_for new \<Longrightarrow> plan_of h' = plan_of h"
    "over_for new \<Longrightarrow> moved e (None, ch_requests h) h'"
proof -
  have "any_event\<^sup>*\<^sup>* h h' \<and> (\<not> over_for new \<longrightarrow> plan_of h' = plan_of h) \<and>
      (over_for new \<longrightarrow> moved e (None, ch_requests h) h')"
    using assms(3,4)
  proof (cases rule: log_split)
    case updates
    then show ?thesis
      using told_updates [OF assms(1,2)] by (auto simp: h'_def over_for_def)
  next
    case (ended us cb)
    let ?h = "told gl e now fresh cls us h"
    have told: "any_event\<^sup>*\<^sup>* h ?h" "plan_of ?h = plan_of h"
      using told_updates [OF assms(1,2) ended(3)] by blast+
    then have "ch_stream ?h = Some gr" "ch_requests ?h = ch_requests h"
      using assms(2) plan_of_eq by (metis, metis)
    then show ?thesis
      using told(1) callback_event [of ?h gr gl e now fresh cb] callback_end [OF ended(2), of e ?h]
      by (auto simp: h'_def ended over_for_def assms(1) intro: rtranclp.rtrancl_into_rtrancl)
  qed
  then show "any_event\<^sup>*\<^sup>* h h'" "\<not> over_for new \<Longrightarrow> plan_of h' = plan_of h"
    "over_for new \<Longrightarrow> moved e (None, ch_requests h) h'" by blast+
qed

section \<open>The handler's mark is the controller's request\<close>

definition linked :: "system \<Rightarrow> bool" where
  "linked s \<longleftrightarrow> ctl_inv (sys_ctl s) \<and> at_rest (sys_ctl s) \<and>
     (request_over (ctl_generation (sys_ctl s)) (sys_ctl s) \<or>
      (\<exists>gr. ch_stream (sys_chat s) = Some gr \<and>
            map_of (sys_closures s) (ctl_generation (sys_ctl s)) = Some gr))"

lemma issued_moved:
  assumes "moved e b h'" "snd b = ch_requests h" "issued e h h'"
  obtains g r p where "ch_requests h' = ch_requests h @ [(g, r, p)]" "ch_stream h' = Some (g, r)"
    "\<And>c cls. capture h' c cls = AList.update (ctl_generation c) (g, r) cls"
  using assms by (auto simp: moved_def still_def issued_def capture_def)

lemma not_issued_moved: "moved e b h' \<Longrightarrow> snd b = ch_requests h \<Longrightarrow> \<not> issued e h h' \<Longrightarrow> ch_stream h' = fst b"
  by (auto simp: moved_def still_def issued_def)

lemma linked_send:
  assumes "linked s" "moved e (ch_stream (sys_chat s), ch_requests (sys_chat s)) h"
  shows "linked (sendStreamRequest e h s)"
proof (cases "issued e (sys_chat s) h")
  case True
  with assms(2) obtain g r p where "ch_stream h = Some (g, r)"
    "\<And>c cls. capture h c cls = AList.update (ctl_generation c) (g, r) cls"
    by (elim issued_moved) simp_all
  moreover have "ctl_inv (send (sys_ctl s)) \<and> at_rest (send (sys_ctl s))"
    using assms(1) api_inv [OF api_step.Send] api_frame(5) [OF api_step.Send, of "sys_ctl s"]
    by (simp add: linked_def at_rest_def)
  ultimately show ?thesis
    using True by (simp add: linked_def sendStreamRequest_def Let_def update_conv')
next
  case False
  with assms(2) have "ch_stream h = ch_stream (sys_chat s)"
    by (auto dest: not_issued_moved)
  then show ?thesis
    using assms(1) False by (simp add: linked_def sendStreamRequest_def)
qed

lemma source_event_parts:
  fixes gl e now fresh ev s
  defines "s' \<equiv> on_source_event gl e now fresh ev s" and "c \<equiv> sys_ctl s"
  assumes "linked s"
  obtains new where "ctl_log (sys_ctl s') = ctl_log c @ new" "\<forall>x \<in> set new. fst x = ctl_generation c"
    "sys_chat s' = told gl e now fresh (sys_closures s) new (sys_chat s)"
    "ctl_generation (sys_ctl s') = ctl_generation c +
       (if over_for new \<and> issued e (sys_chat s) (sys_chat s') then 1 else 0)"
    "ctl_inv (sys_ctl s')" "at_rest (sys_ctl s')"
    "request_over (ctl_generation c) c \<longrightarrow> new = [] \<and> request_over (ctl_generation c) (sys_ctl s')"
proof -
  define heard where "heard l = told gl e now fresh (sys_closures s) (drop (length (ctl_log c)) l) (sys_chat s)" for l
  let ?again = "\<lambda>l. issued e (sys_chat s) (heard l)"
  have ctl: "sys_ctl s' = source_step (resend ?again) (env_json e) ev c"
    and chat: "sys_chat s' = heard (ctl_log (sys_ctl s'))"
    by (simp_all add: s'_def on_source_event_def heard_def c_def Let_def)
  have "ctl_inv c" "at_rest c" using assms(3) by (simp_all add: linked_def c_def)
  then have sound: "sound_step c (sys_ctl s')"
    unfolding ctl by (rule source_step_sound [OF reactive_resend])
  then obtain new where new: "ctl_log (sys_ctl s') = ctl_log c @ new" "\<forall>x \<in> set new. fst x = ctl_generation c"
    by (auto simp: sound_step_def advances_def)
  have "reports ?again c (sys_ctl s')" unfolding ctl by (rule reports_source_step)
  then have "ctl_generation (sys_ctl s') = ctl_generation c +
       (if over_for new \<and> issued e (sys_chat s) (sys_chat s') then 1 else 0)"
    by (auto simp: reports_def new(1) over_for_def chat)
  moreover have "sys_chat s' = told gl e now fresh (sys_closures s) new (sys_chat s)"
    by (simp add: chat heard_def new(1))
  ultimately show thesis
    using that [OF new] sound over_silent [of c "resend ?again" "env_json e" ev] new(1)
    by (auto simp: sound_step_def ctl [symmetric])
qed

lemma source_event_linked:
  fixes gl e now fresh ev s
  defines "s' \<equiv> on_source_event gl e now fresh ev s"
  assumes "linked s"
  shows "any_event\<^sup>*\<^sup>* (sys_chat s) (sys_chat s') \<and> linked s'"
proof -
  let ?g = "ctl_generation (sys_ctl s)"
  obtain new where new: "ctl_log (sys_ctl s') = ctl_log (sys_ctl s) @ new" "\<forall>x \<in> set new. fst x = ?g"
    and chat: "sys_chat s' = told gl e now fresh (sys_closures s) new (sys_chat s)"
    and gen: "ctl_generation (sys_ctl s') = ?g +
       (if over_for new \<and> issued e (sys_chat s) (sys_chat s') then 1 else 0)"
    and inv: "ctl_inv (sys_ctl s')" "at_rest (sys_ctl s')"
    and over: "request_over ?g (sys_ctl s) \<longrightarrow> new = [] \<and> request_over ?g (sys_ctl s')"
    unfolding s'_def by (rule source_event_parts [OF assms(2), of gl e now fresh ev])
  have closures: "sys_closures s' = (if ctl_generation (sys_ctl s') = ?g then sys_closures s
      else capture (sys_chat s') (sys_ctl s') (sys_closures s))"
    by (simp add: s'_def on_source_event_def Let_def)
  show ?thesis
  proof (cases "request_over ?g (sys_ctl s)")
    case True
    then show ?thesis using over gen inv chat by (simp add: linked_def over_for_def)
  next
    case False
    then obtain gr where gr: "map_of (sys_closures s) ?g = Some gr" "ch_stream (sys_chat s) = Some gr"
      using assms(2) by (auto simp: linked_def)
    have "log_ok (ctl_log (sys_ctl s) @ new)"
      using inv(1) by (simp add: ctl_inv_def log_inv_def new(1))
    note told = told_step [OF gr this new(2), where gl = gl and e = e and now = now and fresh = fresh, folded chat]
    consider (quiet) "\<not> over_for new" | (last) "over_for new" "\<not> issued e (sys_chat s) (sys_chat s')"
      | (again) "over_for new" "issued e (sys_chat s) (sys_chat s')" by blast
    then have "linked s'"
    proof cases
      case quiet
      then show ?thesis
        using told(2) gen gr inv plan_of_eq(2) [of "sys_chat s'"] by (simp add: linked_def closures)
    next
      case last
      then have "request_over ?g (sys_ctl s')"
        using inv(1) new unfolding ctl_inv_def log_inv_def over_for_def by (metis UnI2 set_append)
      then show ?thesis using last gen inv by (simp add: linked_def)
    next
      case again
      obtain g r p where "ch_stream (sys_chat s') = Some (g, r)"
        "\<And>c cls. capture (sys_chat s') c cls = AList.update (ctl_generation c) (g, r) cls"
        by (rule issued_moved [OF told(3) [OF again(1)] _ again(2)]) simp_all
      then show ?thesis
        using again gen inv by (simp add: linked_def closures update_conv')
    qed
    with told(1) show ?thesis by blast
  qed
qed

section \<open>Every step of the two together\<close>

lemma api_over:
  assumes "ctl_inv c"
  shows "request_over (ctl_generation (stop c)) (stop c)" "request_over (ctl_generation (dispose c)) (dispose c)"
proof -
  have "request_over (ctl_generation c + 1) c"
    using assms requests_inv_fresh [of c "ctl_generation c + 1"]
    by (force simp: request_over_def ctl_inv_def requests_inv_def)
  then show "request_over (ctl_generation (stop c)) (stop c)" "request_over (ctl_generation (dispose c)) (dispose c)"
    by (auto simp: request_over_def completed_def api_defs Let_def split: option.split)
qed

lemma linked_api:
  assumes "linked s" "c = stop (sys_ctl s) \<or> c = dispose (sys_ctl s)"
  shows "linked (s\<lparr>sys_ctl := c\<rparr>)" "linked (s\<lparr>sys_ctl := c, sys_chat := h\<rparr>)"
proof -
  have "api_step (sys_ctl s) c" "request_over (ctl_generation c) c"
    using assms api_over by (auto simp: linked_def intro: api_step.intros)
  then show "linked (s\<lparr>sys_ctl := c\<rparr>)" "linked (s\<lparr>sys_ctl := c, sys_chat := h\<rparr>)"
    using assms(1) api_inv [of "sys_ctl s" c] api_frame(5) [of "sys_ctl s" c]
    by (simp_all add: linked_def at_rest_def)
qed

lemma any_eventI: "event_step e h h' \<Longrightarrow> any_event\<^sup>*\<^sup>* h h'"
  unfolding any_event_def by (blast intro: r_into_rtranclp)

lemma any_userI: "user_step e h h' \<Longrightarrow> any_step\<^sup>*\<^sup>* h h'"
  unfolding any_step_def by (blast intro: r_into_rtranclp chat_step.ByUser)

lemma any_eventD: "any_event\<^sup>*\<^sup>* h h' \<Longrightarrow> any_step\<^sup>*\<^sup>* h h'"
  by (erule rtranclp_mono [THEN predicate2D, rotated])
    (unfold any_event_def any_step_def, blast intro: chat_step.ByEvent)

lemma sendStreamRequest_chat [simp]: "sys_chat (sendStreamRequest e h s) = h"
  by (simp add: sendStreamRequest_def Let_def)

lemma linked_arrival:
  assumes "arrival gl s s'" "linked s"
  shows "any_event\<^sup>*\<^sup>* (sys_chat s) (sys_chat s') \<and> linked s'"
  using assms
proof cases
  case (FromSource e now fresh ev)
  then show ?thesis using source_event_linked [OF assms(2)] by simp
next
  case (FromTimer g now)
  then have "any_event\<^sup>*\<^sup>* (sys_chat s) (sys_chat s')"
    using any_eventI [OF event_step.FlushTimer] by simp
  moreover have "ch_stream (sys_chat s') = ch_stream (sys_chat s)"
    using FromTimer(1) plan_of_eq(2) [OF flush_frame(1)] by simp
  ultimately show ?thesis using assms(2) FromTimer(1) by (auto simp: linked_def)
next
  case (FromPost p e now fresh result)
  then show ?thesis
    using linked_send [OF assms(2) moved_settled(1)] any_eventI [OF event_step.PostSettled]
    by (simp add: still_def)
next
  case (FromTool run e now fresh ctx)
  then show ?thesis
    using linked_send [OF assms(2) moved_settled(2)] any_eventI [OF event_step.ToolFinished]
    by (simp add: still_def)
qed

lemma linked_send_message:
  assumes "linked s"
  shows "linked (send_message e ms s)"
proof -
  obtain d ts where d: "sendChat e ms ((sys_chat s)\<lparr>ch_messages := ms\<rparr>) = startRound e (ch_generation (sys_chat s) + 1) 0 d"
    "ch_stream d = None" "ch_requests d = ch_requests (sys_chat s)"
    using sendChat_prepared [of e ms "(sys_chat s)\<lparr>ch_messages := ms\<rparr>"] by auto
  let ?s = "s\<lparr>sys_ctl := stop (sys_ctl s), sys_chat := (sys_chat s)\<lparr>ch_stream := None\<rparr>\<rparr>"
  have "linked ?s" using assms by (intro linked_api) auto
  moreover have "moved e (None, ch_requests (sys_chat s)) (startRound e (ch_generation (sys_chat s) + 1) 0 d)"
    using d(2,3) by (intro moved_startRound) (simp add: still_def)
  moreover have "send_message e ms s = sendStreamRequest e (startRound e (ch_generation (sys_chat s) + 1) 0 d) ?s"
    by (simp add: send_message_def sendStreamRequest_def issued_def d(1))
  ultimately show ?thesis by (simp add: linked_send)
qed

lemma linked_step:
  assumes "system_step gl s s'" "linked s"
  shows "any_step\<^sup>*\<^sup>* (sys_chat s) (sys_chat s') \<and> linked s'"
  using assms
proof cases
  case Arrives
  then show ?thesis
    using linked_arrival [OF Arrives assms(2)] any_eventD by blast
next
  case (Sends e ms)
  then show ?thesis
    using linked_send_message [OF assms(2)]
    by (auto simp: send_message_def intro: any_userI user_step.SendChat)
next
  case (Stops now)
  then show ?thesis
    using linked_api(2) [OF assms(2)]
    by (auto simp: stop_all_def intro: any_userI user_step.StopGeneration)
next
  case (Edits ms)
  then show ?thesis
    using assms(2)
    by (auto simp: linked_def intro: any_userI user_step.EditMessages)
next
  case Leaves
  then show ?thesis
    using linked_api(2) [OF assms(2)]
    by (auto simp: leave_def intro: any_userI user_step.Unmount)
qed

lemma linked_reachable:
  assumes "(system_step gl)\<^sup>*\<^sup>* (initial_system ms) s"
  shows "any_step\<^sup>*\<^sup>* (initial_chat ms) (sys_chat s) \<and> linked s"
  using assms
proof (induction rule: rtranclp_induct)
  case base
  show ?case
    using ctl_inv_initial
    by (simp add: initial_system_def linked_def request_over_def initial_controller_def)
next
  case (step s s')
  then show ?case using linked_step [of gl s s'] by (auto dest: rtranclp_trans)
qed

section \<open>Nothing starts again after a stop\<close>

definition silent :: "system \<Rightarrow> bool" where
  "silent s \<longleftrightarrow> quiet (sys_chat s) \<and> request_over (ctl_generation (sys_ctl s)) (sys_ctl s) \<and>
     ctl_source (sys_ctl s) = None \<and> \<not> ctl_streaming (sys_ctl s)"

lemma silent_arrival:
  assumes "arrival gl s s'" "linked s" "silent s"
  shows "silent s' \<and> visible (sys_chat s') = visible (sys_chat s)"
proof -
  have quiet: "quiet (sys_chat s')" "visible (sys_chat s') = visible (sys_chat s)"
    using linked_arrival [OF assms(1,2)] quiet_steps assms(3) by (auto simp: silent_def)
  then have none: "\<not> issued e (sys_chat s) (sys_chat s')" for e
    by (simp add: issued_def visible_def)
  from assms(1) have "request_over (ctl_generation (sys_ctl s')) (sys_ctl s') \<and>
    ctl_source (sys_ctl s') = None \<and> \<not> ctl_streaming (sys_ctl s')"
  proof cases
    case (FromSource e now fresh ev)
    then obtain react where "sys_ctl s' = source_step react (env_json e) ev (sys_ctl s)"
      by (auto simp: on_source_event_def Let_def)
    then show ?thesis
      using over_silent [of "sys_ctl s" react "env_json e" ev] assms(3) by (simp add: silent_def)
  qed (use assms(3) none in \<open>auto simp: silent_def sendStreamRequest_def Let_def\<close>)
  with quiet show ?thesis by (simp add: silent_def)
qed

lemma silent_arrivals:
  assumes "(arrival gl)\<^sup>*\<^sup>* s s'" "linked s" "silent s"
  shows "linked s' \<and> silent s' \<and> visible (sys_chat s') = visible (sys_chat s)"
  using assms(1)
proof (induction rule: rtranclp_induct)
  case (step s1 s2)
  then show ?case using silent_arrival [of gl s1 s2] linked_arrival [of gl s1 s2] by simp
qed (use assms in simp)

lemma stop_all_silent:
  assumes "linked s" "chat_inv (sys_chat s)"
  shows "linked (stop_all now s) \<and> silent (stop_all now s)"
proof -
  have "linked (stop_all now s)" unfolding stop_all_def using assms(1) by (intro linked_api) simp_all
  moreover have "ctl_source (stop (sys_ctl s)) = None" "\<not> ctl_streaming (stop (sys_ctl s))"
    by (simp_all add: stop_def cancel_def close_source_def Let_def split: option.split)
  moreover have "request_over (ctl_generation (stop (sys_ctl s))) (stop (sys_ctl s))"
    using assms(1) api_over(1) by (simp add: linked_def)
  ultimately show ?thesis
    using stop_quiet [OF assms(2)] by (simp add: silent_def stop_all_def)
qed

section \<open>How many sources are opened\<close>

definition known :: "controller \<Rightarrow> int set" where
  "known c = set (map fst (ctl_live c)) \<union> set (ctl_awaiting c)"

text \<open>A step learns of no request but the one it sends, and makes at most one source for a request.\<close>

definition keeps :: "controller \<Rightarrow> controller \<Rightarrow> bool" where
  "keeps c c' \<longleftrightarrow> known c' \<subseteq> known c \<union> (if ctl_generation c' = ctl_generation c then {} else {ctl_generation c'})"

definition numbered :: "controller \<Rightarrow> bool" where
  "numbered c \<longleftrightarrow> distinct (map fst (ctl_live c)) \<and> ctl_next c = length (ctl_live c) \<and>
     set (map fst (ctl_live c)) \<inter> set (ctl_awaiting c) = {} \<and> (\<forall>k \<in> known c. k \<le> ctl_generation c)"

lemma keeps_from: "keeps d c' \<Longrightarrow> known d \<subseteq> known c \<Longrightarrow> ctl_generation d = ctl_generation c \<Longrightarrow> keeps c c'"
  by (cases "ctl_generation c' = ctl_generation c") (auto simp: keeps_def)

lemma keeps_refl [simp]: "keeps c c"
  by (simp add: keeps_def)

lemma keeps_close [simp]: "keeps c (closeActiveSource n d) = keeps c d"
  by (simp add: keeps_def known_def closeActiveSource_def close_source_def Let_def)

lemma known_send [simp]: "known (send c) = insert (ctl_generation c + 1) (known c)"
  by (auto simp: known_def send_def close_source_def Let_def split: option.split)

lemma numbered_send: "numbered c \<Longrightarrow> numbered (send c)"
  unfolding numbered_def known_send
  by (force simp: known_def send_def close_source_def Let_def split: option.split)

lemma close_keeps [simp]:
  "known (closeActiveSource n c) = known c" "numbered (closeActiveSource n c) = numbered c"
  by (simp_all add: known_def numbered_def closeActiveSource_def close_source_def Let_def)

lemma completed_keeps:
  assumes "map_of (ctl_live c) g = Some (n, b)"
  shows "known (set_completed g m c) = known c" "numbered (set_completed g m c) = numbered c"
proof -
  have "g \<in> fst ` set (ctl_live c)" using map_of_SomeD [OF assms] by force
  then have keys: "map fst (AList.update g (m, True) (ctl_live c)) = map fst (ctl_live c)"
    by (simp add: update_keys)
  then have "length (AList.update g (m, True) (ctl_live c)) = length (ctl_live c)"
    by (metis length_map)
  with keys show "known (set_completed g m c) = known c" "numbered (set_completed g m c) = numbered c"
    unfolding known_def numbered_def set_completed_def by simp_all
qed

lemma fire_keeps:
  "keeps c (fire (resend again) g cb c)" "numbered c \<Longrightarrow> numbered (fire (resend again) g cb c)"
proof -
  let ?c = "c\<lparr>ctl_log := ctl_log c @ [(g, cb)]\<rparr>"
  have "known ?c = known c" "numbered ?c = numbered c" "ctl_generation ?c = ctl_generation c"
    by (simp_all add: known_def numbered_def)
  then show "keeps c (fire (resend again) g cb c)" "numbered c \<Longrightarrow> numbered (fire (resend again) g cb c)"
    unfolding fire_def resend_def keeps_def by (auto simp: numbered_send)
qed

lemma handleError_keeps:
  assumes "map_of (ctl_live c) g = Some (n, b)"
  shows "keeps c (handleError (resend again) g n m code c)"
    "numbered c \<Longrightarrow> numbered (handleError (resend again) g n m code c)"
  using fire_keeps [of "set_completed g n c" again g "OnError m code"] completed_keeps [OF assms, of n]
    keeps_from [of "set_completed g n c" _ c]
  by (auto simp: handleError_def)

lemma on_message_keeps:
  assumes "map_of (ctl_live c) g = Some (n, b)"
  shows "keeps c (on_message (resend again) json g n data c)"
    "numbered c \<Longrightarrow> numbered (on_message (resend again) json g n data c)"
proof -
  let ?done = "closeActiveSource n (set_completed g n c)"
  have finished: "keeps c (fire (resend again) g OnComplete ?done)"
    "numbered c \<Longrightarrow> numbered (fire (resend again) g OnComplete ?done)"
    using fire_keeps [of ?done again g OnComplete] completed_keeps [OF assms, of n] keeps_from [of ?done _ c]
    by auto
  define logged where "logged ups = c\<lparr>ctl_log := ctl_log c @ map (Pair g) (map (\<lambda>(ty, chunk). OnUpdate ty chunk) ups)\<rparr>"
    for ups
  have same: "keeps (logged ups) d = keeps c d" "keeps c (logged ups)" "numbered (logged ups) = numbered c"
    "map_of (ctl_live (logged ups)) g = Some (n, b)" for ups d
    using assms by (simp_all add: logged_def keeps_def known_def numbered_def)
  note later = handleError_keeps [OF same(4), unfolded same(1,3)] fire_keeps [of "logged ups" for ups, unfolded same(1,3)]
  show "keeps c (on_message (resend again) json g n data c)"
    "numbered c \<Longrightarrow> numbered (on_message (resend again) json g n data c)"
    unfolding on_message_def fire_updates [OF reactive_resend] logged_def [symmetric] Let_def
    using finished handleError_keeps [OF assms]
    by (auto simp: later same split: option.split)
qed

lemma update_fresh: "k \<notin> fst ` set al \<Longrightarrow> AList.update k v al = al @ [(k, v)]"
  by (induction al) auto

lemma awaited_keeps:
  assumes "g \<in> set (ctl_awaiting c)"
  shows "keeps c (headers_arrived g c)" "numbered c \<Longrightarrow> numbered (headers_arrived g c)"
    "keeps c (headers_failed (resend again) g m c)" "numbered c \<Longrightarrow> numbered (headers_failed (resend again) g m c)"
proof -
  let ?c = "c\<lparr>ctl_awaiting := removeAll g (ctl_awaiting c)\<rparr>"
  have less: "known ?c \<subseteq> known c" "numbered c \<Longrightarrow> numbered ?c"
    by (auto simp: known_def numbered_def)
  show "keeps c (headers_failed (resend again) g m c)" "numbered c \<Longrightarrow> numbered (headers_failed (resend again) g m c)"
    using less fire_keeps [of ?c again g] keeps_from [of ?c _ c] unfolding headers_failed_def Let_def by auto
  have new: "known (headers_arrived g c) \<subseteq> known c" "ctl_generation (headers_arrived g c) = ctl_generation c"
    using assms by (auto simp: known_def headers_arrived_def Let_def dom_update)
  then show "keeps c (headers_arrived g c)" by (auto simp: keeps_def)
  assume c: "numbered c"
  then have "g \<notin> fst ` set (ctl_live c)" using assms by (auto simp: numbered_def)
  then show "numbered (headers_arrived g c)"
    using c assms by (auto simp: numbered_def headers_arrived_def known_def Let_def update_fresh)
qed

lemma source_step_keeps:
  "keeps c (source_step (resend again) json ev c)"
  "numbered c \<Longrightarrow> numbered (source_step (resend again) json ev c)"
  by (cases ev; auto simp: awaited_keeps at_source_def on_message_keeps handleError_keeps on_error_def
      on_readystatechange_def stream_failed_def Let_def split: option.split)+

text \<open>Every request the controller knows was sent for a round, and no two for the same one.\<close>

definition counted :: "system \<Rightarrow> bool" where
  "counted s \<longleftrightarrow> numbered (sys_ctl s) \<and> known (sys_ctl s) \<subseteq> set (map fst (sys_closures s)) \<and>
     (\<forall>k \<in> set (map fst (sys_closures s)). k \<le> ctl_generation (sys_ctl s)) \<and>
     distinct (map fst (sys_closures s)) \<and>
     (\<forall>g. length (filter (\<lambda>x. fst (snd x) = g) (sys_closures s)) \<le> sent g (sys_chat s))"

definition sources_of :: "int \<Rightarrow> system \<Rightarrow> nat" where
  "sources_of g s =
     length (filter (\<lambda>x. map_option fst (map_of (sys_closures s) (fst x)) = Some g) (ctl_live (sys_ctl s)))"

lemma sources_of_sent:
  assumes "counted s"
  shows "sources_of g s \<le> sent g (sys_chat s)"
proof -
  let ?live = "map fst (ctl_live (sys_ctl s))"
  let ?cls = "sys_closures s"
  have d: "distinct ?live" "distinct (map fst ?cls)"
    using assms by (simp_all add: counted_def numbered_def)
  have in_closures: "{k \<in> set ?live. map_option fst (map_of ?cls k) = Some g} \<subseteq>
      fst ` set (filter (\<lambda>x. fst (snd x) = g) ?cls)"
  proof
    fix k assume "k \<in> {k \<in> set ?live. map_option fst (map_of ?cls k) = Some g}"
    then obtain x where "map_of ?cls k = Some x" "fst x = g" by auto
    then have "(k, x) \<in> set (filter (\<lambda>x. fst (snd x) = g) ?cls)" by (simp add: map_of_SomeD)
    then show "k \<in> fst ` set (filter (\<lambda>x. fst (snd x) = g) ?cls)" by (metis fst_conv image_eqI)
  qed
  have "sources_of g s = length (filter (\<lambda>k. map_option fst (map_of ?cls k) = Some g) ?live)"
    by (simp add: sources_of_def filter_map comp_def)
  also have "\<dots> = card {k \<in> set ?live. map_option fst (map_of ?cls k) = Some g}"
    using distinct_length_filter [OF d(1)] by (simp add: Int_def conj_commute)
  also have "\<dots> \<le> card (fst ` set (filter (\<lambda>x. fst (snd x) = g) ?cls))"
    by (rule card_mono [OF _ in_closures]) simp
  also have "\<dots> \<le> length (filter (\<lambda>x. fst (snd x) = g) ?cls)"
    by (rule order_trans [OF card_image_le card_length]) simp
  also have "\<dots> \<le> sent g (sys_chat s)" using assms by (simp add: counted_def)
  finally show ?thesis .
qed

lemma counted_new:
  assumes "counted s" "ch_requests h = ch_requests (sys_chat s) @ [(g, r, p)]"
    and "ctl_generation (sys_ctl s) < ctl_generation c" "numbered c"
    and "known c \<subseteq> insert (ctl_generation c) (known (sys_ctl s))"
  shows "counted \<lparr>sys_ctl = c, sys_chat = h,
    sys_closures = AList.update (ctl_generation c) (g, r) (sys_closures s)\<rparr>"
proof -
  have keys: "\<forall>k \<in> fst ` set (sys_closures s). k \<le> ctl_generation (sys_ctl s)"
    using assms(1) by (simp add: counted_def)
  then have fresh: "ctl_generation c \<notin> fst ` set (sys_closures s)"
    using assms(3) bspec [of _ _ "ctl_generation c"] leD by blast
  have count: "length (filter (\<lambda>x. fst (snd x) = g') (sys_closures s)) \<le> sent g' (sys_chat s)" for g'
    using assms(1) by (simp add: counted_def)
  have "known c \<subseteq> insert (ctl_generation c) (fst ` set (sys_closures s))"
    using assms(1,5) by (auto simp: counted_def)
  moreover have "\<forall>k \<in> fst ` set (sys_closures s). k \<le> ctl_generation c"
    using keys order_trans [OF _ less_imp_le [OF assms(3)]] by blast
  ultimately show ?thesis
    using assms(1,2,4) fresh count unfolding counted_def by (simp add: update_fresh sent_def)
qed

lemma counted_more:
  assumes "counted s" "known c \<subseteq> known (sys_ctl s)" "numbered c"
    and "ctl_generation (sys_ctl s) \<le> ctl_generation c" "prefix (ch_requests (sys_chat s)) (ch_requests h)"
  shows "counted \<lparr>sys_ctl = c, sys_chat = h, sys_closures = sys_closures s\<rparr>"
proof -
  have "sent g (sys_chat s) \<le> sent g h" for g
    using assms(5) by (auto simp: sent_def prefix_def)
  then have "length (filter (\<lambda>x. fst (snd x) = g) (sys_closures s)) \<le> sent g h" for g
    using assms(1) order_trans [of _ "sent g (sys_chat s)" "sent g h"] by (simp add: counted_def)
  moreover have "\<forall>k \<in> set (map fst (sys_closures s)). k \<le> ctl_generation c"
    using assms(1) order_trans [OF _ assms(4)] unfolding counted_def by blast
  moreover have "known c \<subseteq> set (map fst (sys_closures s))"
    using assms(1,2) unfolding counted_def by blast
  ultimately show ?thesis
    using assms(1,3) unfolding counted_def by simp
qed

lemma moved_prefix: "moved e b h \<Longrightarrow> prefix (snd b) (ch_requests h)"
  by (auto simp: moved_def still_def)

lemma counted_send:
  assumes "counted s" "moved e (st, ch_requests (sys_chat s)) h"
  shows "counted (sendStreamRequest e h s)"
proof (cases "issued e (sys_chat s) h")
  case True
  obtain g r p where "ch_requests h = ch_requests (sys_chat s) @ [(g, r, p)]"
    "\<And>c cls. capture h c cls = AList.update (ctl_generation c) (g, r) cls"
    by (rule issued_moved [OF assms(2) _ True]) simp_all
  then show ?thesis
    using True counted_new [OF assms(1), of h g r p "send (sys_ctl s)"] assms(1)
    by (simp add: sendStreamRequest_def Let_def numbered_send counted_def)
next
  case False
  have "counted \<lparr>sys_ctl = sys_ctl s, sys_chat = h, sys_closures = sys_closures s\<rparr>"
    using assms(1) moved_prefix [OF assms(2)] by (intro counted_more) (simp_all add: counted_def)
  moreover have "sendStreamRequest e h s = \<lparr>sys_ctl = sys_ctl s, sys_chat = h, sys_closures = sys_closures s\<rparr>"
    using False by (simp add: sendStreamRequest_def)
  ultimately show ?thesis by simp
qed

lemma counted_chat:
  "counted s \<Longrightarrow> ch_requests h = ch_requests (sys_chat s) \<Longrightarrow> counted (s\<lparr>sys_chat := h\<rparr>)"
  by (simp add: counted_def sent_def)

lemma counted_api:
  assumes "counted s" "c = stop (sys_ctl s) \<or> c = dispose (sys_ctl s)"
  shows "counted (s\<lparr>sys_ctl := c\<rparr>)"
proof -
  have "ctl_generation c = ctl_generation (sys_ctl s) + 1" "ctl_live c = ctl_live (sys_ctl s)"
    "ctl_next c = ctl_next (sys_ctl s)" "ctl_awaiting c = ctl_awaiting (sys_ctl s)"
    using assms(2) by (cases "ctl_source (sys_ctl s)"; auto simp: api_defs Let_def)+
  moreover from this have "known c = known (sys_ctl s)" by (simp add: known_def)
  ultimately have "known c = known (sys_ctl s)" "ctl_generation (sys_ctl s) \<le> ctl_generation c" "numbered c"
    using assms(1) by (auto simp: counted_def numbered_def)
  then have "counted \<lparr>sys_ctl = c, sys_chat = sys_chat s, sys_closures = sys_closures s\<rparr>"
    using assms(1) by (intro counted_more) simp_all
  then show ?thesis by (simp add: counted_def)
qed

lemma source_event_controller:
  obtains again where
    "sys_ctl (on_source_event gl e now fresh ev s) = source_step (resend again) (env_json e) ev (sys_ctl s)"
  by (simp add: on_source_event_def Let_def)

lemma counted_source:
  fixes gl e now fresh ev s
  defines "s' \<equiv> on_source_event gl e now fresh ev s"
  assumes "linked s" "counted s"
  shows "counted s'"
proof -
  let ?g = "ctl_generation (sys_ctl s)"
  obtain new where new: "ctl_log (sys_ctl s') = ctl_log (sys_ctl s) @ new" "\<forall>x \<in> set new. fst x = ?g"
    and chat: "sys_chat s' = told gl e now fresh (sys_closures s) new (sys_chat s)"
    and gen: "ctl_generation (sys_ctl s') = ?g +
       (if over_for new \<and> issued e (sys_chat s) (sys_chat s') then 1 else 0)"
    and inv: "ctl_inv (sys_ctl s')" "at_rest (sys_ctl s')"
    and over: "request_over ?g (sys_ctl s) \<longrightarrow> new = [] \<and> request_over ?g (sys_ctl s')"
    unfolding s'_def by (rule source_event_parts [OF assms(2), of gl e now fresh ev])
  have closures: "sys_closures s' = (if ctl_generation (sys_ctl s') = ?g then sys_closures s
      else capture (sys_chat s') (sys_ctl s') (sys_closures s))"
    by (simp add: s'_def on_source_event_def Let_def)
  have keeps: "keeps (sys_ctl s) (sys_ctl s')" "numbered (sys_ctl s')"
    using assms(3) source_step_keeps unfolding s'_def counted_def by (metis source_event_controller)+
  have step: "ch_requests (sys_chat s') = ch_requests (sys_chat s) \<or>
      over_for new \<and> moved e (None, ch_requests (sys_chat s)) (sys_chat s')"
  proof (cases "new = []")
    case False
    with over obtain gr where gr: "map_of (sys_closures s) ?g = Some gr" "ch_stream (sys_chat s) = Some gr"
      using assms(2) by (auto simp: linked_def)
    have "log_ok (ctl_log (sys_ctl s) @ new)"
      using inv(1) by (simp add: ctl_inv_def log_inv_def new(1))
    note told = told_step [OF gr this new(2), where gl = gl and e = e and now = now and fresh = fresh, folded chat]
    then show ?thesis using plan_of_eq(5) by blast
  qed (simp add: chat)
  show ?thesis
  proof (cases "over_for new \<and> issued e (sys_chat s) (sys_chat s')")
    case True
    with step have moved: "moved e (None, ch_requests (sys_chat s)) (sys_chat s')"
      by (auto simp: issued_def)
    obtain g r p where "ch_requests (sys_chat s') = ch_requests (sys_chat s) @ [(g, r, p)]"
      "\<And>c cls. capture (sys_chat s') c cls = AList.update (ctl_generation c) (g, r) cls"
      by (rule issued_moved [OF moved _ conjunct2 [OF True]]) simp_all
    then have "counted \<lparr>sys_ctl = sys_ctl s', sys_chat = sys_chat s', sys_closures = sys_closures s'\<rparr>"
      using counted_new [OF assms(3), of "sys_chat s'" g r p "sys_ctl s'"] True gen keeps
      by (simp add: closures keeps_def)
    then show ?thesis by (simp add: counted_def)
  next
    case False
    then have same: "ctl_generation (sys_ctl s') = ?g" using gen by simp
    have "prefix (ch_requests (sys_chat s)) (ch_requests (sys_chat s'))"
      using step moved_prefix by fastforce
    then have "counted \<lparr>sys_ctl = sys_ctl s', sys_chat = sys_chat s', sys_closures = sys_closures s\<rparr>"
      using assms(3) keeps same by (intro counted_more) (simp_all add: keeps_def)
    then show ?thesis using same closures by (simp add: counted_def)
  qed
qed

lemma sendChat_moved: "moved e (None, ch_requests c) (sendChat e ms c)"
  by (rule sendChat_prepared [of e ms c]) (simp add: moved_startRound still_def)

lemma counted_step:
  assumes "system_step gl s s'" "linked s" "counted s"
  shows "counted s'"
  using assms
proof cases
  case Arrives
  from Arrives show ?thesis
  proof cases
    case (FromTimer g now)
    then show ?thesis using assms(3) plan_of_eq(5) [OF flush_frame(1)] by (simp add: counted_chat)
  next
    case FromPost
    then show ?thesis using counted_send [OF assms(3) moved_settled(1)] by (simp add: still_def)
  next
    case FromTool
    then show ?thesis using counted_send [OF assms(3) moved_settled(2)] by (simp add: still_def)
  qed (use counted_source assms in simp)
next
  case (Sends e ms)
  then show ?thesis
    using counted_send [OF counted_api [OF assms(3)]] sendChat_moved [of e "(sys_chat s)\<lparr>ch_messages := ms\<rparr>" ms]
    by (simp add: send_message_def)
next
  case (Stops now)
  then show ?thesis
    using counted_chat [OF counted_api [OF assms(3)]] by (simp add: stop_all_def stopGeneration_frame)
next
  case Leaves
  then show ?thesis
    using counted_chat [OF counted_api [OF assms(3)]] by (simp add: leave_def unmount_frame)
qed (use assms(3) counted_chat in simp)

lemma counted_reachable:
  assumes "(system_step gl)\<^sup>*\<^sup>* (initial_system ms) s"
  shows "counted s"
  using assms
proof (induction rule: rtranclp_induct)
  case base
  show ?case
    by (simp add: counted_def numbered_def known_def initial_system_def initial_controller_def)
next
  case (step s s')
  then show ?case using counted_step linked_reachable by blast
qed

section \<open>Properties\<close>

text \<open>A conversation that is sent with streaming, and whose headers arrive: the request is the second of
  the controller's generations, as sending stops what was there first.\<close>

definition plain_glue :: glue where
  "plain_glue = \<lparr>gl_text = (\<lambda>v. case v of JStr s \<Rightarrow> s | _ \<Rightarrow> []), gl_code = (\<lambda>_. None), gl_deltas = (\<lambda>_. [])\<rparr>"

definition asked :: system where
  "asked = send_message (sample_env True) [] (initial_system [])"

definition opened :: system where
  "opened = on_source_event plain_glue (sample_env True) 5 [] (GotHeaders 2) asked"

lemma asked_fields:
  "ctl_source (sys_ctl asked) = None" "ctl_generation (sys_ctl asked) = 2" "ctl_awaiting (sys_ctl asked) = [2]"
  "ctl_live (sys_ctl asked) = []" "ctl_next (sys_ctl asked) = 0" "ctl_log (sys_ctl asked) = []"
  "sys_closures asked = [(2, 1, 0)]" "sys_chat asked = sample_sent True"
  "ch_stream (sample_sent True) = Some (1, 0)"
  by (simp_all add: asked_def send_message_def sendStreamRequest_def initial_system_def initial_controller_def
      sample_sent_def sendChat_def initial_chat_def sample_env_def startRound_def startStreamRound_def
      discardPendingStreamUpdates_def abort_current_def issued_def capture_def api_defs Let_def)

lemma opened_fields:
  "ctl_source (sys_ctl opened) = Some 0" "ctl_generation (sys_ctl opened) = 2"
  "ctl_live (sys_ctl opened) = [(2, 0, False)]"
  "sys_closures opened = [(2, 1, 0)]" "sys_chat opened = sample_sent True"
  by (simp_all add: opened_def on_source_event_def headers_arrived_def asked_fields Let_def)

lemma opened_reachable: "(system_step plain_glue)\<^sup>*\<^sup>* (initial_system []) opened"
proof -
  have "system_step plain_glue (initial_system []) asked" unfolding asked_def by (rule Sends)
  moreover have "system_step plain_glue asked opened" unfolding opened_def by (rule Arrives [OF FromSource])
  ultimately show ?thesis by simp
qed

text \<open>C3. The handler and the controller together do nothing the handler's own model does not allow: after
  any sequence of events and actions the handler is in a state of that model, and an open source
  always belongs to the very request, with its generation and round, that the handler waits for.\<close>

theorem system_refines_handler:
  assumes "(system_step gl)\<^sup>*\<^sup>* (initial_system ms) s"
  shows "any_step\<^sup>*\<^sup>* (initial_chat ms) (sys_chat s) \<and>
    (\<forall>n. ctl_source (sys_ctl s) = Some n \<longrightarrow> ch_stream (sys_chat s) \<noteq> None \<and>
       map_of (sys_closures s) (ctl_generation (sys_ctl s)) = ch_stream (sys_chat s))"
proof -
  have run: "any_step\<^sup>*\<^sup>* (initial_chat ms) (sys_chat s)" and "linked s"
    using linked_reachable [OF assms] by simp_all
  then have "ctl_source (sys_ctl s) = None" if "request_over (ctl_generation (sys_ctl s)) (sys_ctl s)"
    using that unfolding linked_def ctl_inv_def sources_inv_def at_rest_def request_over_def
    by (metis option.distinct(1) option.exhaust)
  then show ?thesis
    using run \<open>linked s\<close> by (auto simp: linked_def)
qed

theorem system_refines_handler_witness:
  "ctl_source (sys_ctl opened) = Some 0 \<and> any_step\<^sup>*\<^sup>* (initial_chat []) (sys_chat opened) \<and>
   map_of (sys_closures opened) 2 = ch_stream (sys_chat opened)"
  using system_refines_handler [OF opened_reachable] by (simp add: opened_fields)

text \<open>C10. Stopping ends everything: whatever still arrives, from sources, from the fetch of the headers,
  from plain requests, tools or the timer, no message changes, no request is sent, no source is opened
  and neither flag of \<^verbatim>\<open>isGenerating\<close> is set again.\<close>

theorem system_stop_is_final:
  assumes "(system_step gl)\<^sup>*\<^sup>* (initial_system ms) s" "(arrival gl)\<^sup>*\<^sup>* (stop_all now s) s'"
  shows "ch_messages (sys_chat s') = ch_messages (stopGeneration now (sys_chat s)) \<and>
    ch_requests (sys_chat s') = ch_requests (sys_chat s) \<and> \<not> ch_requesting (sys_chat s') \<and>
    ctl_source (sys_ctl s') = None \<and> \<not> ctl_streaming (sys_ctl s')"
proof -
  have "linked (stop_all now s) \<and> silent (stop_all now s)"
    using linked_reachable [OF assms(1)] chat_reachable_inv by (intro stop_all_silent) auto
  then have "silent s'" "visible (sys_chat s') = visible (sys_chat (stop_all now s))"
    using silent_arrivals [OF assms(2)] by auto
  then show ?thesis
    by (simp add: silent_def visible_def stop_all_def stopGeneration_frame)
qed

definition late :: system where
  "late = on_source_event plain_glue (sample_env True) 9 [] (GotMessage 2 (Some ''[DONE]'')) (stop_all 9 opened)"

lemma late_arrival: "arrival plain_glue (stop_all 9 opened) late"
  unfolding late_def by (rule FromSource)

theorem system_stop_is_final_witness:
  "arrival plain_glue (stop_all 9 opened) late \<and> \<not> ch_requesting (sys_chat late) \<and> ctl_source (sys_ctl late) = None"
  using system_stop_is_final [OF opened_reachable r_into_rtranclp [of "arrival plain_glue", OF late_arrival]]
    late_arrival by blast

text \<open>C11. One message of the user opens at most eight event sources, counted by the generation their
  closures captured, and every source made is counted for some request.\<close>

theorem sources_bounded:
  assumes "(system_step gl)\<^sup>*\<^sup>* (initial_system ms) s"
  shows "sources_of g s \<le> 8 \<and> ctl_next (sys_ctl s) = length (ctl_live (sys_ctl s))"
proof -
  have "counted s" by (rule counted_reachable [OF assms])
  moreover have "sent g (sys_chat s) \<le> 8"
    using chat_reachable_inv [OF conjunct1 [OF linked_reachable [OF assms]]]
    by (simp add: chat_inv_def history_ok_def)
  ultimately show ?thesis
    using sources_of_sent [of s g] by (simp add: counted_def numbered_def)
qed

theorem sources_bounded_witness: "sources_of 1 opened = 1 \<and> sources_of 1 opened \<le> 8 \<and> ctl_next (sys_ctl opened) = 1"
  using sources_bounded [OF opened_reachable, of 1] by (simp add: sources_of_def opened_fields)

end
