(* ===== verification/FlowRows.thy ===== *)
theory FlowRows
  imports Prelude
begin

text \<open>
  The flow chart of the dashboard, first half of \<^verbatim>\<open>src/web/src/features/dashboard/lib/flow.ts\<close>: rows of usage,
  the path of a row through the stages that a role sees, colours, and the selection of rows. Amounts
  are exact rationals. Strings are compared by the argument \<open>fp_compare\<close> (\<^verbatim>\<open>localeCompare\<close> depends on the
  platform), and the colour schemes of the chart package are an argument.
\<close>

section \<open>Data\<close>

datatype FlowNodeKind = UserKind | NodeKind | TokenKind | GroupKind | ModelKind | ChannelKind
datatype FlowMetric = Quota | Tokens | Requests
datatype FlowOverflowMode = Aggregate | Hide
datatype FlowRole = UserRole | AdminRole | RootRole

record FlowQuotaDataItem =
  fq_user_id :: "int option"
  fq_username :: "string option"
  fq_node_name :: "string option"
  fq_use_group :: "string option"
  fq_token_id :: "int option"
  fq_token_name :: "string option"
  fq_channel_id :: "int option"
  fq_channel_name :: "string option"
  fq_model_name :: "string option"
  fq_token_used :: "jsnum option"
  fq_count :: "jsnum option"
  fq_quota :: "jsnum option"

record FlowMetrics =
  mt_quota :: rat
  mt_tokens :: rat
  mt_requests :: rat

record FlowPathNode =
  pn_id :: string
  pn_label :: string
  pn_kind :: FlowNodeKind

record FlowNodeFilter =
  nf_kind :: FlowNodeKind
  nf_id :: string

record FlowLinkSelection =
  ls_source :: string
  ls_target :: string

record flow_platform =
  fp_compare :: "string \<Rightarrow> string \<Rightarrow> int"
  fp_schemes :: "(nat option \<times> jsval list) list"
  fp_mask :: string
  fp_format :: "rat \<Rightarrow> string"

text \<open>\<^verbatim>\<open>a || b\<close> on an optional string.\<close>

definition or_text :: "string option \<Rightarrow> string \<Rightarrow> string" where
  "or_text s d = (case s of None \<Rightarrow> d | Some x \<Rightarrow> if x = [] then d else x)"

text \<open>\<^verbatim>\<open>numberValue\<close> of a field the interface declares as an optional number: what is missing or not finite counts
  as 0. Identifiers are whole numbers.\<close>

definition numberValue :: "jsnum option \<Rightarrow> rat" where
  "numberValue v = (case v of Some (Fin n) \<Rightarrow> n | _ \<Rightarrow> 0)"

definition idValue :: "int option \<Rightarrow> int" where
  "idValue v = or_value v 0"

definition rowMetrics :: "FlowQuotaDataItem \<Rightarrow> FlowMetrics" where
  "rowMetrics row = \<lparr>mt_quota = numberValue (fq_quota row), mt_tokens = numberValue (fq_token_used row),
     mt_requests = numberValue (fq_count row)\<rparr>"

definition metricValue :: "FlowMetrics \<Rightarrow> FlowMetric \<Rightarrow> rat" where
  "metricValue metrics metric =
     (case metric of Requests \<Rightarrow> mt_requests metrics | Tokens \<Rightarrow> mt_tokens metrics | Quota \<Rightarrow> mt_quota metrics)"

section \<open>The path of a row\<close>

definition node_kind_name :: "FlowNodeKind \<Rightarrow> string" where
  "node_kind_name k = (case k of UserKind \<Rightarrow> ''user'' | NodeKind \<Rightarrow> ''node'' | TokenKind \<Rightarrow> ''token''
     | GroupKind \<Rightarrow> ''group'' | ModelKind \<Rightarrow> ''model'' | ChannelKind \<Rightarrow> ''channel'')"

definition OTHER_FLOW_NODE_IDS :: "FlowNodeKind \<Rightarrow> string" where
  "OTHER_FLOW_NODE_IDS k = node_kind_name k @ '':__other__''"

definition DEFAULT_OTHER_FLOW_NODE_LABELS :: "FlowNodeKind \<Rightarrow> string" where
  "DEFAULT_OTHER_FLOW_NODE_LABELS k = ''Other '' @ node_kind_name k @ ''s''"

definition SENSITIVE_FLOW_KINDS :: "FlowNodeKind list" where
  "SENSITIVE_FLOW_KINDS = [UserKind, NodeKind, TokenKind, GroupKind, ChannelKind]"

definition FLOW_NODE_KINDS :: "FlowNodeKind list" where
  "FLOW_NODE_KINDS = [UserKind, NodeKind, TokenKind, GroupKind, ModelKind, ChannelKind]"

definition OTHER_FLOW_NODE_ID_SET :: "string list" where
  "OTHER_FLOW_NODE_ID_SET = map OTHER_FLOW_NODE_IDS FLOW_NODE_KINDS"

text \<open>An identifier from the database, as the template strings print it.\<close>

definition show_id :: "int \<Rightarrow> string" where
  "show_id n = show_nat (nat n)"

definition userNode :: "FlowQuotaDataItem \<Rightarrow> FlowPathNode" where
  "userNode row =
     (let userID = idValue (fq_user_id row) in
      \<lparr>pn_id = (if userID > 0 then ''user:'' @ show_id userID else ''user:'' @ or_text (fq_username row) ''unknown''),
       pn_label = or_text (fq_username row) (if userID > 0 then ''user-'' @ show_id userID else ''Unknown User''),
       pn_kind = UserKind\<rparr>)"

definition nodeNameNode :: "FlowQuotaDataItem \<Rightarrow> FlowPathNode" where
  "nodeNameNode row =
     (let nodeName = or_text (fq_node_name row) ''default-node'' in
      \<lparr>pn_id = ''node:'' @ nodeName, pn_label = nodeName, pn_kind = NodeKind\<rparr>)"

definition deletedTokenLabel :: "int \<Rightarrow> (int \<Rightarrow> string) option \<Rightarrow> string" where
  "deletedTokenLabel tokenID ctx =
     (if tokenID \<le> 0 then ''Unknown Token''
      else (case ctx of None \<Rightarrow> ''token-'' @ show_id tokenID | Some f \<Rightarrow> f tokenID))"

definition tokenNode :: "FlowQuotaDataItem \<Rightarrow> (int \<Rightarrow> string) option \<Rightarrow> FlowPathNode" where
  "tokenNode row ctx =
     (let tokenID = idValue (fq_token_id row) in
      \<lparr>pn_id = (if tokenID > 0 then ''token:'' @ show_id tokenID else ''token:'' @ or_text (fq_token_name row) ''unknown''),
       pn_label = or_text (fq_token_name row) (deletedTokenLabel tokenID ctx),
       pn_kind = TokenKind\<rparr>)"

definition groupNode :: "FlowQuotaDataItem \<Rightarrow> FlowPathNode" where
  "groupNode row =
     (let useGroup = or_text (fq_use_group row) ''unknown'' in
      \<lparr>pn_id = ''group:'' @ useGroup, pn_label = useGroup, pn_kind = GroupKind\<rparr>)"

definition modelNode :: "FlowQuotaDataItem \<Rightarrow> FlowPathNode" where
  "modelNode row =
     \<lparr>pn_id = ''model:'' @ or_text (fq_model_name row) ''unknown'',
      pn_label = or_text (fq_model_name row) ''Unknown Model'', pn_kind = ModelKind\<rparr>"

definition channelNode :: "FlowQuotaDataItem \<Rightarrow> FlowPathNode" where
  "channelNode row =
     (let channelID = idValue (fq_channel_id row) in
      \<lparr>pn_id = (if channelID > 0 then ''channel:'' @ show_id channelID
                else ''channel:'' @ or_text (fq_channel_name row) ''unknown''),
       pn_label = or_text (fq_channel_name row) (if channelID > 0 then ''channel-'' @ show_id channelID else ''Unknown''),
       pn_kind = ChannelKind\<rparr>)"

definition NODE_BUILDERS :: "FlowNodeKind \<Rightarrow> FlowQuotaDataItem \<Rightarrow> (int \<Rightarrow> string) option \<Rightarrow> FlowPathNode" where
  "NODE_BUILDERS kind row ctx =
     (case kind of UserKind \<Rightarrow> userNode row | NodeKind \<Rightarrow> nodeNameNode row | TokenKind \<Rightarrow> tokenNode row ctx
      | GroupKind \<Rightarrow> groupNode row | ModelKind \<Rightarrow> modelNode row | ChannelKind \<Rightarrow> channelNode row)"

definition ROLE_FLOW_STAGES :: "FlowRole \<Rightarrow> FlowNodeKind list" where
  "ROLE_FLOW_STAGES role =
     (case role of
        RootRole \<Rightarrow> [UserKind, NodeKind, TokenKind, GroupKind, ModelKind, ChannelKind]
      | AdminRole \<Rightarrow> [UserKind, GroupKind, ModelKind, ChannelKind]
      | UserRole \<Rightarrow> [TokenKind, GroupKind, ModelKind])"

definition MIN_FLOW_STAGES :: nat where "MIN_FLOW_STAGES = 2"

definition getFlowStages :: "FlowRole \<Rightarrow> FlowNodeKind list" where
  "getFlowStages role = ROLE_FLOW_STAGES role"

definition resolveVisibleStages :: "FlowRole \<Rightarrow> FlowNodeKind list option \<Rightarrow> FlowNodeKind list" where
  "resolveVisibleStages role visibleStages =
     (let stages = getFlowStages role in
      case visibleStages of
        None \<Rightarrow> stages
      | Some visible \<Rightarrow>
          (let filtered = filter (\<lambda>stage. stage \<in> set visible) stages in
           if MIN_FLOW_STAGES \<le> length filtered then filtered else stages))"

definition flowPathForStages ::
  "FlowQuotaDataItem \<Rightarrow> FlowNodeKind list \<Rightarrow> (int \<Rightarrow> string) option \<Rightarrow> FlowPathNode list" where
  "flowPathForStages row stages ctx = map (\<lambda>stage. NODE_BUILDERS stage row ctx) stages"

section \<open>Colours\<close>

definition getDashboardChartColors :: "flow_platform \<Rightarrow> nat \<Rightarrow> string list" where
  "getDashboardChartColors fp domainLength =
     (let fits = (\<lambda>item. case fst item of None \<Rightarrow> True | Some n \<Rightarrow> n = 0 \<or> domainLength \<le> n);
          scheme = (case find fits (fp_schemes fp) of
             Some item \<Rightarrow> snd item
           | None \<Rightarrow> (if fp_schemes fp = [] then [] else snd (last (fp_schemes fp)))) in
      List.map_filter (\<lambda>c. case c of JStr s \<Rightarrow> Some s | _ \<Rightarrow> None) scheme)"

definition DEFAULT_FLOW_CHART_COLOR :: string where "DEFAULT_FLOW_CHART_COLOR = ''#1664FF''"

definition colorAt :: "flow_platform \<Rightarrow> nat \<Rightarrow> string list option \<Rightarrow> string" where
  "colorAt fp index palette =
     (let colors = (case palette of
            Some (c # cs) \<Rightarrow> c # cs | _ \<Rightarrow> getDashboardChartColors fp (index + 1)) in
      if colors = [] then DEFAULT_FLOW_CHART_COLOR else colors ! (index mod length colors))"

definition colorPalette :: "flow_platform \<Rightarrow> nat \<Rightarrow> string list option \<Rightarrow> string list" where
  "colorPalette fp colorCount palette =
     (case palette of
        Some (c # cs) \<Rightarrow> c # cs
      | _ \<Rightarrow> (let colors = getDashboardChartColors fp colorCount in
             if colors = [] then [DEFAULT_FLOW_CHART_COLOR] else colors))"

definition stableColorMap :: "flow_platform \<Rightarrow> string list \<Rightarrow> string list option \<Rightarrow> (string \<times> string) list" where
  "stableColorMap fp keys palette =
     (let uniqueKeys = unique keys; colors = colorPalette fp (length uniqueKeys) palette in
      foldl (\<lambda>m (index, key). AList.update key (colorAt fp index (Some colors)) m) [] (enumerate 0 uniqueKeys))"

text \<open>\<^verbatim>\<open>/^[0-9a-f]{6}$/i\<close>, the number such a text stands for, and a number with two decimals.\<close>

definition hex_digit :: "char \<Rightarrow> nat option" where
  "hex_digit c =
     (let n = of_char c :: nat in
      if 48 \<le> n \<and> n \<le> 57 then Some (n - 48)
      else if 97 \<le> n \<and> n \<le> 102 then Some (n - 87)
      else if 65 \<le> n \<and> n \<le> 70 then Some (n - 55) else None)"

definition parse_hex :: "string \<Rightarrow> nat" where
  "parse_hex s = foldl (\<lambda>n c. n * 16 + (case hex_digit c of None \<Rightarrow> 0 | Some d \<Rightarrow> d)) 0 s"

definition to_fixed2 :: "rat \<Rightarrow> string" where
  "to_fixed2 x = (let n = nat \<lfloor>x * 100 + 1 / 2\<rfloor> in
     show_nat (n div 100) @ ''.'' @ show_nat (n mod 100 div 10) @ show_nat (n mod 10))"

definition alphaColor :: "string \<Rightarrow> rat \<Rightarrow> string \<times> rat" where
  "alphaColor color alpha =
     (let normalized = trim color;
          hex = (if prefix ''#'' normalized then drop 1 normalized else normalized) in
      if \<not> (length hex = 6 \<and> list_all (\<lambda>c. hex_digit c \<noteq> None) hex) then (normalized, alpha)
      else (let v = parse_hex hex; red = v div 65536 mod 256; green = v div 256 mod 256; blue = v mod 256 in
            (''rgba('' @ show_nat red @ '', '' @ show_nat green @ '', '' @ show_nat blue @ '', '' @
               to_fixed2 alpha @ '')'', 1)))"

section \<open>Selecting rows\<close>

definition filterRows :: "FlowQuotaDataItem list \<Rightarrow> string list option \<Rightarrow> FlowQuotaDataItem list" where
  "filterRows rows selectedUsers =
     (let selected = (case selectedUsers of None \<Rightarrow> [] | Some us \<Rightarrow> us) in
      if selected = [] then rows else filter (\<lambda>row. pn_id (userNode row) \<in> set selected) rows)"

definition nul :: string where "nul = [CHR 0x00]"

definition nodeFilterKey :: "FlowNodeFilter \<Rightarrow> string" where
  "nodeFilterKey f = node_kind_name (nf_kind f) @ nul @ nf_id f"

definition normalizeSelectedNodeFilters ::
  "FlowNodeFilter list option \<Rightarrow> FlowNodeKind list \<Rightarrow> (FlowNodeKind \<times> string list) list" where
  "normalizeSelectedNodeFilters selectedNodes stages =
     foldl (\<lambda>filters f.
        if nf_kind f \<notin> set stages then filters
        else AList.update (nf_kind f)
          (set_add (nf_id f) (case map_of filters (nf_kind f) of None \<Rightarrow> [] | Some s \<Rightarrow> s)) filters)
       [] (case selectedNodes of None \<Rightarrow> [] | Some fs \<Rightarrow> fs)"

definition pathMatchesNodeFilters :: "FlowPathNode list \<Rightarrow> (FlowNodeKind \<times> string list) list \<Rightarrow> bool" where
  "pathMatchesNodeFilters path filters =
     (filters = [] \<or>
      (let byKind = foldl (\<lambda>m node. AList.update (pn_kind node)
             (set_add (pn_id node) (case map_of m (pn_kind node) of None \<Rightarrow> [] | Some s \<Rightarrow> s)) m) [] path in
       list_all (\<lambda>(kind, selectedIds). case map_of byKind kind of
           None \<Rightarrow> False | Some pathIds \<Rightarrow> list_ex (\<lambda>i. i \<in> set pathIds) selectedIds) filters))"

definition filterRowsByNodes ::
  "FlowQuotaDataItem list \<Rightarrow> FlowNodeFilter list option \<Rightarrow> FlowNodeKind list \<Rightarrow> (int \<Rightarrow> string) option \<Rightarrow>
     FlowQuotaDataItem list" where
  "filterRowsByNodes rows selectedNodes stages ctx =
     (let filters = normalizeSelectedNodeFilters selectedNodes stages in
      if filters = [] then rows
      else filter (\<lambda>row. pathMatchesNodeFilters (flowPathForStages row stages ctx) filters) rows)"

definition selectedNodeFiltersExceptKind ::
  "FlowNodeFilter list option \<Rightarrow> FlowNodeKind \<Rightarrow> FlowNodeFilter list option" where
  "selectedNodeFiltersExceptKind selectedNodes kind =
     (let filtered = filter (\<lambda>f. nf_kind f \<noteq> kind) (case selectedNodes of None \<Rightarrow> [] | Some fs \<Rightarrow> fs) in
      if filtered = [] then None else Some filtered)"

end
