(* ===== verification/FlowGraph.thy ===== *)
theory FlowGraph
  imports FlowRows
begin

text \<open>
  The flow chart of the dashboard, second half of \<^verbatim>\<open>src/web/src/features/dashboard/lib/flow.ts\<close>: adding rows up
  to nodes and links, the limit on the nodes of a stage, masking, highlighting, shares and display
  colours, the filter options and the summary; and \<^verbatim>\<open>flow-selection.ts\<close>. The objects the source changes
  in place are values here; a \<^verbatim>\<open>Map\<close> is an association list in insertion order.
\<close>

section \<open>Nodes and links\<close>

record DashboardFlowNode =
  fn_id :: string
  fn_label :: string
  fn_kind :: FlowNodeKind
  fn_value :: rat
  fn_requests :: rat
  fn_quota :: rat
  fn_tokens :: rat
  fn_color :: string
  fn_colorKey :: string
  fn_highlighted :: "bool option"
  fn_dimmed :: "bool option"

record DashboardFlowLink =
  fl_source :: string
  fl_target :: string
  fl_value :: rat
  fl_requests :: rat
  fl_quota :: rat
  fl_tokens :: rat
  fl_sourceLabel :: string
  fl_targetLabel :: string
  fl_color :: string
  fl_linkColor :: string
  fl_linkAlpha :: rat
  fl_hoverColor :: string
  fl_colorKey :: string
  fl_share :: rat
  fl_highlighted :: "bool option"
  fl_dimmed :: "bool option"

record PreparedFlowPath =
  pp_path :: "FlowPathNode list"
  pp_metrics :: FlowMetrics

type_synonym node_map = "(string \<times> DashboardFlowNode) list"
type_synonym link_map = "(string \<times> DashboardFlowLink) list"

definition addNode ::
  "node_map \<Rightarrow> FlowPathNode \<Rightarrow> FlowMetrics \<Rightarrow> FlowMetric \<Rightarrow> string \<Rightarrow> string \<Rightarrow> node_map" where
  "addNode m pathNode metrics metric color colorKey =
     (let previous = (case map_of m (pn_id pathNode) of
            Some p \<Rightarrow> p
          | None \<Rightarrow> \<lparr>fn_id = pn_id pathNode, fn_label = pn_label pathNode, fn_kind = pn_kind pathNode,
              fn_value = 0, fn_requests = 0, fn_quota = 0, fn_tokens = 0, fn_color = color,
              fn_colorKey = colorKey, fn_highlighted = None, fn_dimmed = None\<rparr>) in
      AList.update (pn_id pathNode)
        (previous\<lparr>fn_value := fn_value previous + metricValue metrics metric,
           fn_requests := fn_requests previous + mt_requests metrics,
           fn_quota := fn_quota previous + mt_quota metrics,
           fn_tokens := fn_tokens previous + mt_tokens metrics\<rparr>) m)"

definition pathLinkKey :: "FlowPathNode \<Rightarrow> FlowPathNode \<Rightarrow> string" where
  "pathLinkKey source target = pn_id source @ nul @ pn_id target"

definition linkStableKey :: "DashboardFlowLink \<Rightarrow> string" where
  "linkStableKey link = fl_source link @ nul @ fl_target link"

definition addLink ::
  "link_map \<Rightarrow> FlowPathNode \<Rightarrow> FlowPathNode \<Rightarrow> FlowMetrics \<Rightarrow> FlowMetric \<Rightarrow> string \<Rightarrow> string \<Rightarrow> link_map" where
  "addLink m source target metrics metric color colorKey =
     (let key = pathLinkKey source target;
          previous = (case map_of m key of
            Some p \<Rightarrow> p
          | None \<Rightarrow> \<lparr>fl_source = pn_id source, fl_target = pn_id target, fl_value = 0, fl_requests = 0,
              fl_quota = 0, fl_tokens = 0, fl_sourceLabel = pn_label source, fl_targetLabel = pn_label target,
              fl_color = color, fl_linkColor = color, fl_linkAlpha = 1, fl_hoverColor = color,
              fl_colorKey = colorKey, fl_share = 0, fl_highlighted = None, fl_dimmed = None\<rparr>) in
      AList.update key
        (previous\<lparr>fl_value := fl_value previous + metricValue metrics metric,
           fl_requests := fl_requests previous + mt_requests metrics,
           fl_quota := fl_quota previous + mt_quota metrics,
           fl_tokens := fl_tokens previous + mt_tokens metrics\<rparr>) m)"

text \<open>The sign of a difference, and \<^verbatim>\<open>a || b\<close> on the results of comparisons.\<close>

definition diff_sign :: "rat \<Rightarrow> rat \<Rightarrow> int" where
  "diff_sign x y = (if x < y then - 1 else if x = y then 0 else 1)"

definition or_cmp :: "int \<Rightarrow> int \<Rightarrow> int" where
  "or_cmp a b = (if a \<noteq> 0 then a else b)"

text \<open>The pairs of neighbours on a path.\<close>

fun steps_of :: "'a list \<Rightarrow> ('a \<times> 'a) list" where
  "steps_of (x # y # zs) = (x, y) # steps_of (y # zs)"
| "steps_of _ = []"

section \<open>The limit on the nodes of a stage\<close>

record FlowNodeRank =
  rk_node :: FlowPathNode
  rk_value :: rat

definition normalizeTopNodeLimit :: "jsnum option \<Rightarrow> nat option" where
  "normalizeTopNodeLimit limit =
     (case limit of
        Some (Fin r) \<Rightarrow> (if \<lfloor>r\<rfloor> > 0 then Some (nat \<lfloor>r\<rfloor>) else None)
      | _ \<Rightarrow> None)"

definition otherFlowNode :: "FlowNodeKind \<Rightarrow> (FlowNodeKind \<Rightarrow> string) option \<Rightarrow> FlowPathNode" where
  "otherFlowNode kind labeler =
     \<lparr>pn_id = OTHER_FLOW_NODE_IDS kind,
      pn_label = (case labeler of None \<Rightarrow> DEFAULT_OTHER_FLOW_NODE_LABELS kind | Some f \<Rightarrow> f kind),
      pn_kind = kind\<rparr>"

definition add_rank :: "rat \<Rightarrow> (FlowNodeKind \<times> (string \<times> FlowNodeRank) list) list \<Rightarrow> FlowPathNode \<Rightarrow>
    (FlowNodeKind \<times> (string \<times> FlowNodeRank) list) list" where
  "add_rank v totals node =
     (case map_of totals (pn_kind node) of
        None \<Rightarrow> totals
      | Some stageTotals \<Rightarrow>
          (let current = (case map_of stageTotals (pn_id node) of
                 Some r \<Rightarrow> r | None \<Rightarrow> \<lparr>rk_node = node, rk_value = 0\<rparr>) in
           AList.update (pn_kind node)
             (AList.update (pn_id node) (current\<lparr>rk_value := rk_value current + v\<rparr>) stageTotals) totals))"

definition rank_cmp :: "flow_platform \<Rightarrow> FlowNodeRank \<Rightarrow> FlowNodeRank \<Rightarrow> int" where
  "rank_cmp fp a b =
     or_cmp (diff_sign (rk_value b) (rk_value a))
       (or_cmp (fp_compare fp (pn_label (rk_node a)) (pn_label (rk_node b)))
          (fp_compare fp (pn_id (rk_node a)) (pn_id (rk_node b))))"

definition buildTopNodeSets ::
  "flow_platform \<Rightarrow> FlowQuotaDataItem list \<Rightarrow> FlowMetric \<Rightarrow> FlowNodeKind list \<Rightarrow> nat option \<Rightarrow>
     (int \<Rightarrow> string) option \<Rightarrow> (FlowNodeKind \<times> string list) list option" where
  "buildTopNodeSets fp rows metric stages limit ctx =
     (case limit of
        None \<Rightarrow> None
      | Some n \<Rightarrow>
          (let totals = foldl (\<lambda>totals row.
                 foldl (add_rank (metricValue (rowMetrics row) metric)) totals (flowPathForStages row stages ctx))
               (foldl (\<lambda>m stage. AList.update stage [] m) [] stages) rows in
           Some (map (\<lambda>(kind, stageTotals).
             (kind, unique (map (\<lambda>r. pn_id (rk_node r)) (take n (sort_cmp (rank_cmp fp) (map snd stageTotals))))))
             totals)))"

definition isTopFlowNode :: "FlowPathNode \<Rightarrow> (FlowNodeKind \<times> string list) list option \<Rightarrow> bool" where
  "isTopFlowNode node topNodeSets =
     (case topNodeSets of
        None \<Rightarrow> True
      | Some sets \<Rightarrow> (case map_of sets (pn_kind node) of None \<Rightarrow> True | Some topNodes \<Rightarrow> pn_id node \<in> set topNodes))"

definition applyTopNodeLimit ::
  "FlowPathNode list \<Rightarrow> (FlowNodeKind \<times> string list) list option \<Rightarrow> FlowOverflowMode \<Rightarrow>
     (FlowNodeKind \<Rightarrow> string) option \<Rightarrow> FlowPathNode list option" where
  "applyTopNodeLimit path topNodeSets mode labeler =
     (if topNodeSets = None then Some path
      else if \<not> list_ex (\<lambda>node. \<not> isTopFlowNode node topNodeSets) path then Some path
      else if mode = Hide then None
      else Some (map (\<lambda>node. if isTopFlowNode node topNodeSets then node
             else otherFlowNode (pn_kind node) labeler) path))"

section \<open>Highlighting and masking\<close>

definition pathContainsFlowNode :: "FlowPathNode list \<Rightarrow> FlowNodeFilter \<Rightarrow> bool" where
  "pathContainsFlowNode path f = list_ex (\<lambda>node. pn_kind node = nf_kind f \<and> pn_id node = nf_id f) path"

definition pathContainsFlowLink :: "FlowPathNode list \<Rightarrow> FlowLinkSelection \<Rightarrow> bool" where
  "pathContainsFlowLink path link =
     list_ex (\<lambda>(a, b). pn_id a = ls_source link \<and> pn_id b = ls_target link) (steps_of path)"

definition buildFlowHighlightSets ::
  "PreparedFlowPath list \<Rightarrow> FlowNodeFilter option \<Rightarrow> FlowLinkSelection option \<Rightarrow> FlowNodeKind list \<Rightarrow>
     (string list \<times> string list) option" where
  "buildFlowHighlightSets preparedPaths activeNode activeLink stages =
     (let nodeActive = (case activeNode of None \<Rightarrow> False | Some f \<Rightarrow> nf_kind f \<in> set stages);
          matchesPath = (\<lambda>path. case activeLink of
             Some link \<Rightarrow> pathContainsFlowLink path link
           | None \<Rightarrow> (case activeNode of None \<Rightarrow> False | Some f \<Rightarrow> pathContainsFlowNode path f));
          matching = filter matchesPath (map pp_path preparedPaths);
          nodes = unique (concat (map (map pn_id) matching));
          links = unique (concat (map (\<lambda>path. map (\<lambda>(a, b). pathLinkKey a b) (steps_of path)) matching)) in
      if \<not> nodeActive \<and> activeLink = None then None
      else if nodes = [] then None else Some (nodes, links))"

definition maskFlowLabel :: "flow_platform \<Rightarrow> string \<Rightarrow> string" where
  "maskFlowLabel fp label = (if label = [] then label else fp_mask fp)"

definition maskable :: "DashboardFlowNode \<Rightarrow> bool" where
  "maskable node \<longleftrightarrow> fn_kind node \<in> set SENSITIVE_FLOW_KINDS \<and> fn_id node \<notin> set OTHER_FLOW_NODE_ID_SET"

definition maskFlowGraphLabels :: "flow_platform \<Rightarrow> node_map \<Rightarrow> link_map \<Rightarrow> node_map \<times> link_map" where
  "maskFlowGraphLabels fp nodes links =
     (let maskedById = foldl (\<lambda>m node. if maskable node
            then AList.update (fn_id node) (maskFlowLabel fp (fn_label node)) m else m) [] (map snd nodes);
          nodes' = map (\<lambda>(k, node). (k, if maskable node
            then node\<lparr>fn_label := maskFlowLabel fp (fn_label node)\<rparr> else node)) nodes;
          relabel = (\<lambda>link. link
            \<lparr>fl_sourceLabel := (case map_of maskedById (fl_source link) of None \<Rightarrow> fl_sourceLabel link | Some t \<Rightarrow> t),
             fl_targetLabel := (case map_of maskedById (fl_target link) of None \<Rightarrow> fl_targetLabel link | Some t \<Rightarrow> t)\<rparr>) in
      (nodes', if maskedById = [] then links else map (\<lambda>(k, link). (k, relabel link)) links))"

definition applyFlowHighlights ::
  "node_map \<Rightarrow> link_map \<Rightarrow> (string list \<times> string list) option \<Rightarrow> node_map \<times> link_map" where
  "applyFlowHighlights nodes links highlightSets =
     (case highlightSets of
        None \<Rightarrow> (nodes, links)
      | Some (hn, hl) \<Rightarrow>
          (map (\<lambda>(k, node). (k, node\<lparr>fn_highlighted := Some (fn_id node \<in> set hn),
               fn_dimmed := Some (fn_id node \<notin> set hn)\<rparr>)) nodes,
           map (\<lambda>(k, link). (k, link\<lparr>fl_highlighted := Some (linkStableKey link \<in> set hl),
               fl_dimmed := Some (linkStableKey link \<notin> set hl)\<rparr>)) links))"

section \<open>Display colours\<close>

definition source_link_cmp :: "flow_platform \<Rightarrow> DashboardFlowLink \<Rightarrow> DashboardFlowLink \<Rightarrow> int" where
  "source_link_cmp fp a b =
     or_cmp (diff_sign (fl_value b) (fl_value a)) (fp_compare fp (linkStableKey a) (linkStableKey b))"

fun position :: "'a \<Rightarrow> 'a list \<Rightarrow> nat" where
  "position x [] = 0"
| "position x (y # ys) = (if x = y then 0 else Suc (position x ys))"

text \<open>What \<^verbatim>\<open>assignLinkDisplayColors\<close> sets on one link, from its place among the links of its source.\<close>

definition display_link :: "flow_platform \<Rightarrow> DashboardFlowLink list \<Rightarrow> DashboardFlowLink \<Rightarrow> DashboardFlowLink" where
  "display_link fp links link =
     (let sortedLinks = sort_cmp (source_link_cmp fp) (filter (\<lambda>l. fl_source l = fl_source link) links);
          denominator = max (length sortedLinks - 1) 1;
          index = position (linkStableKey link) (map linkStableKey sortedLinks);
          alpha = (if length sortedLinks = 1 then 34 / 100
                   else 24 / 100 + of_nat index / of_nat denominator * (2 / 10));
          (color, a) = alphaColor (fl_color link) alpha in
      link\<lparr>fl_linkColor := color, fl_linkAlpha := a, fl_hoverColor := fl_color link\<rparr>)"

definition assignLinkDisplayColors :: "flow_platform \<Rightarrow> DashboardFlowLink list \<Rightarrow> DashboardFlowLink list" where
  "assignLinkDisplayColors fp links = map (display_link fp links) links"

section \<open>The graph\<close>

record FlowGraphOptions =
  go_topNodeLimit :: "jsnum option"
  go_overflowMode :: "FlowOverflowMode option"
  go_otherNodeLabel :: "(FlowNodeKind \<Rightarrow> string) option"
  go_activeNode :: "FlowNodeFilter option"
  go_activeLink :: "FlowLinkSelection option"
  go_maskSensitive :: bool

record DashboardFlowGraph =
  gr_nodes :: "DashboardFlowNode list"
  gr_links :: "DashboardFlowLink list"

definition prepare_paths ::
  "FlowQuotaDataItem list \<Rightarrow> FlowNodeKind list \<Rightarrow> (FlowNodeKind \<times> string list) list option \<Rightarrow> FlowOverflowMode \<Rightarrow>
     (FlowNodeKind \<Rightarrow> string) option \<Rightarrow> (int \<Rightarrow> string) option \<Rightarrow> PreparedFlowPath list" where
  "prepare_paths rows stages topNodeSets overflowMode labeler ctx =
     List.map_filter (\<lambda>row. case applyTopNodeLimit (flowPathForStages row stages ctx) topNodeSets overflowMode labeler of
         None \<Rightarrow> None | Some path \<Rightarrow> Some \<lparr>pp_path = path, pp_metrics = rowMetrics row\<rparr>) rows"

definition root_ids :: "PreparedFlowPath list \<Rightarrow> string list" where
  "root_ids preparedPaths = filter (\<lambda>i. i \<noteq> []) (List.map_filter (\<lambda>p. case pp_path p of
     [] \<Rightarrow> None | first # _ \<Rightarrow> Some (pn_id first)) preparedPaths)"

definition add_path ::
  "flow_platform \<Rightarrow> FlowMetric \<Rightarrow> (string \<times> string) list \<Rightarrow> string list option \<Rightarrow> node_map \<times> link_map \<Rightarrow>
     PreparedFlowPath \<Rightarrow> node_map \<times> link_map" where
  "add_path fp metric colors palette maps prepared =
     (case pp_path prepared of
        [] \<Rightarrow> maps
      | first # _ \<Rightarrow>
          (let color = (case map_of colors (pn_id first) of Some c \<Rightarrow> c | None \<Rightarrow> colorAt fp 0 palette);
               metrics = pp_metrics prepared in
           (foldl (\<lambda>m node. addNode m node metrics metric color (pn_id first)) (fst maps) (pp_path prepared),
            foldl (\<lambda>m (a, b). addLink m a b metrics metric color (pn_id first)) (snd maps)
              (steps_of (pp_path prepared)))))"

definition link_order :: "flow_platform \<Rightarrow> DashboardFlowLink \<Rightarrow> DashboardFlowLink \<Rightarrow> int" where
  "link_order fp a b =
     or_cmp (fp_compare fp (fl_source a) (fl_source b)) (fp_compare fp (fl_target a) (fl_target b))"

definition byValueThenLabel :: "flow_platform \<Rightarrow> DashboardFlowNode \<Rightarrow> DashboardFlowNode \<Rightarrow> int" where
  "byValueThenLabel fp a b =
     or_cmp (diff_sign (fn_value b) (fn_value a)) (fp_compare fp (fn_label a) (fn_label b))"

definition set_shares :: "string list \<Rightarrow> DashboardFlowLink list \<Rightarrow> DashboardFlowLink list" where
  "set_shares firstStepSources links =
     (let total = sum_list (map fl_value (filter (\<lambda>l. fl_source l \<in> set firstStepSources) links)) in
      map (\<lambda>l. l\<lparr>fl_share := (if total > 0 then fl_value l / total else 0)\<rparr>) links)"

definition buildFlowGraph ::
  "flow_platform \<Rightarrow> FlowQuotaDataItem list \<Rightarrow> FlowMetric \<Rightarrow> FlowRole \<Rightarrow> string list option \<Rightarrow>
     FlowNodeKind list option \<Rightarrow> (int \<Rightarrow> string) option \<Rightarrow> FlowGraphOptions \<Rightarrow> DashboardFlowGraph" where
  "buildFlowGraph fp rows metric role palette visibleStages ctx options =
     (let stages = resolveVisibleStages role visibleStages;
          topNodeSets = buildTopNodeSets fp rows metric stages (normalizeTopNodeLimit (go_topNodeLimit options)) ctx;
          overflowMode = (case go_overflowMode options of None \<Rightarrow> Aggregate | Some m \<Rightarrow> m);
          preparedPaths = prepare_paths rows stages topNodeSets overflowMode (go_otherNodeLabel options) ctx;
          colors = stableColorMap fp (sort_cmp (fp_compare fp) (root_ids preparedPaths)) palette;
          (nodes, links) = foldl (add_path fp metric colors palette) ([], []) preparedPaths;
          (nodes, links) = (if go_maskSensitive options then maskFlowGraphLabels fp nodes links else (nodes, links));
          (nodes, links) = applyFlowHighlights nodes links
            (buildFlowHighlightSets preparedPaths (go_activeNode options) (go_activeLink options) stages);
          flowLinks = sort_cmp (link_order fp) (map snd links) in
      \<lparr>gr_nodes = sort_cmp (byValueThenLabel fp) (map snd nodes),
       gr_links = assignLinkDisplayColors fp (set_shares (root_ids preparedPaths) flowLinks)\<rparr>)"

section \<open>Summary and filter options\<close>

definition buildSummary :: "FlowQuotaDataItem list \<Rightarrow> FlowMetrics" where
  "buildSummary rows =
     foldl (\<lambda>summary row. let metrics = rowMetrics row in
         \<lparr>mt_quota = mt_quota summary + mt_quota metrics, mt_tokens = mt_tokens summary + mt_tokens metrics,
          mt_requests = mt_requests summary + mt_requests metrics\<rparr>)
       \<lparr>mt_quota = 0, mt_tokens = 0, mt_requests = 0\<rparr> rows"

record flow_option =
  opt_kind :: FlowNodeKind
  opt_value :: string
  opt_label :: string
  opt_valueLabel :: string
  opt_valueRaw :: rat
  opt_color :: string

definition user_option_cmp :: "flow_platform \<Rightarrow> flow_option \<Rightarrow> flow_option \<Rightarrow> int" where
  "user_option_cmp fp a b =
     or_cmp (diff_sign (opt_valueRaw b) (opt_valueRaw a)) (fp_compare fp (opt_label a) (opt_label b))"

definition buildUserFilterOptions ::
  "flow_platform \<Rightarrow> FlowQuotaDataItem list \<Rightarrow> FlowMetric \<Rightarrow> string list option \<Rightarrow> flow_option list" where
  "buildUserFilterOptions fp rows metric palette =
     (let colors = stableColorMap fp (sort_cmp (fp_compare fp) (map (\<lambda>row. pn_id (userNode row)) rows)) palette;
          users = foldl (\<lambda>users row.
             let node = userNode row in
             if (fq_user_id row = None \<or> fq_user_id row = Some 0) \<and> or_text (fq_username row) [] = [] then users
             else (let current = (case map_of users (pn_id node) of
                      Some u \<Rightarrow> u
                    | None \<Rightarrow> (pn_label node, 0,
                        case map_of colors (pn_id node) of Some c \<Rightarrow> c | None \<Rightarrow> colorAt fp 0 palette)) in
                   AList.update (pn_id node)
                     (fst current, fst (snd current) + metricValue (rowMetrics row) metric, snd (snd current)) users))
            [] rows in
      sort_cmp (user_option_cmp fp)
        (map (\<lambda>(v, label, n, color). \<lparr>opt_kind = UserKind, opt_value = v, opt_label = label,
            opt_valueLabel = fp_format fp n, opt_valueRaw = n, opt_color = color\<rparr>) users))"

definition node_option_cmp :: "flow_platform \<Rightarrow> FlowNodeKind list \<Rightarrow> flow_option \<Rightarrow> flow_option \<Rightarrow> int" where
  "node_option_cmp fp stages a b =
     or_cmp (int (position (opt_kind a) stages) - int (position (opt_kind b) stages))
       (or_cmp (diff_sign (opt_valueRaw b) (opt_valueRaw a))
          (or_cmp (fp_compare fp (opt_label a) (opt_label b)) (fp_compare fp (opt_value a) (opt_value b))))"

definition stage_totals ::
  "FlowMetric \<Rightarrow> FlowNodeKind \<Rightarrow> (int \<Rightarrow> string) option \<Rightarrow> FlowQuotaDataItem list \<Rightarrow> (string \<times> FlowNodeRank) list" where
  "stage_totals metric stage ctx rows =
     foldl (\<lambda>totals row.
        let node = NODE_BUILDERS stage row ctx;
            key = nodeFilterKey \<lparr>nf_kind = pn_kind node, nf_id = pn_id node\<rparr>;
            current = (case map_of totals key of Some r \<Rightarrow> r | None \<Rightarrow> \<lparr>rk_node = node, rk_value = 0\<rparr>) in
        AList.update key (current\<lparr>rk_value := rk_value current + metricValue (rowMetrics row) metric\<rparr>) totals) [] rows"

definition buildNodeFilterOptions ::
  "flow_platform \<Rightarrow> FlowQuotaDataItem list \<Rightarrow> FlowMetric \<Rightarrow> FlowRole \<Rightarrow> FlowNodeKind list option \<Rightarrow>
     string list option \<Rightarrow> (int \<Rightarrow> string) option \<Rightarrow> FlowNodeFilter list option \<Rightarrow> flow_option list" where
  "buildNodeFilterOptions fp rows metric role visibleStages palette ctx selectedNodes =
     (let stages = resolveVisibleStages role visibleStages;
          colorIds = unique (concat (map (\<lambda>row. map pn_id (flowPathForStages row stages ctx)) rows));
          colors = stableColorMap fp (sort_cmp (fp_compare fp) colorIds) palette in
      sort_cmp (node_option_cmp fp stages)
        (concat (map (\<lambda>stage.
           map (\<lambda>(key, rank). \<lparr>opt_kind = pn_kind (rk_node rank), opt_value = pn_id (rk_node rank),
               opt_label = pn_label (rk_node rank), opt_valueLabel = fp_format fp (rk_value rank),
               opt_valueRaw = rk_value rank,
               opt_color = (case map_of colors (pn_id (rk_node rank)) of
                  Some c \<Rightarrow> c | None \<Rightarrow> colorAt fp 0 palette)\<rparr>)
             (stage_totals metric stage ctx
                (filterRowsByNodes rows (selectedNodeFiltersExceptKind selectedNodes stage) stages ctx))) stages)))"

definition buildFlowFilterOptions ::
  "flow_platform \<Rightarrow> FlowQuotaDataItem list \<Rightarrow> FlowMetric \<Rightarrow> string list option \<Rightarrow> FlowRole \<Rightarrow>
     FlowNodeKind list option \<Rightarrow> FlowNodeFilter list option \<Rightarrow> flow_option list \<times> flow_option list" where
  "buildFlowFilterOptions fp rows metric palette role visibleStages selectedNodes =
     (buildUserFilterOptions fp rows metric palette,
      buildNodeFilterOptions fp rows metric role visibleStages palette None selectedNodes)"

record FlowBuildOptions =
  bo_role :: "FlowRole option"
  bo_selectedUsers :: "string list option"
  bo_selectedNodes :: "FlowNodeFilter list option"
  bo_colorPalette :: "string list option"
  bo_visibleStages :: "FlowNodeKind list option"
  bo_deletedTokenLabel :: "(int \<Rightarrow> string) option"
  bo_graph :: FlowGraphOptions

record ProcessedFlowData =
  pd_summary :: FlowMetrics
  pd_flow :: DashboardFlowGraph
  pd_filterOptions :: "flow_option list \<times> flow_option list"

definition buildDashboardFlowData ::
  "flow_platform \<Rightarrow> FlowQuotaDataItem list \<Rightarrow> FlowMetric \<Rightarrow> FlowBuildOptions \<Rightarrow> ProcessedFlowData" where
  "buildDashboardFlowData fp rows metric options =
     (let role = (case bo_role options of None \<Rightarrow> UserRole | Some r \<Rightarrow> r);
          palette = bo_colorPalette options; ctx = bo_deletedTokenLabel options;
          stages = resolveVisibleStages role (bo_visibleStages options);
          userFilteredRows = filterRows rows (bo_selectedUsers options);
          filteredRows = filterRowsByNodes userFilteredRows (bo_selectedNodes options) stages ctx in
      \<lparr>pd_summary = buildSummary filteredRows,
       pd_flow = buildFlowGraph fp filteredRows metric role palette (bo_visibleStages options) ctx (bo_graph options),
       pd_filterOptions = (buildUserFilterOptions fp rows metric palette,
         buildNodeFilterOptions fp userFilteredRows metric role (bo_visibleStages options) palette ctx
           (bo_selectedNodes options))\<rparr>)"

section \<open>The selection bar\<close>

definition requireSuccessfulFlowRows ::
  "bool \<Rightarrow> FlowQuotaDataItem list option \<Rightarrow> string option \<Rightarrow> string \<Rightarrow> string + FlowQuotaDataItem list" where
  "requireSuccessfulFlowRows success data message fallbackMessage =
     (if \<not> success then Inl (or_text message fallbackMessage)
      else Inr (case data of None \<Rightarrow> [] | Some rows \<Rightarrow> rows))"

datatype FlowDisplayState = LoadingState | ErrorState | EmptyState | ChartState

definition flowDisplayState :: "bool \<Rightarrow> bool \<Rightarrow> nat \<Rightarrow> bool \<Rightarrow> FlowDisplayState" where
  "flowDisplayState isLoading isError linkCount themeReady =
     (if isLoading then LoadingState else if isError then ErrorState
      else if linkCount = 0 then EmptyState else if \<not> themeReady then LoadingState else ChartState)"

definition compactFlowSelectionLabel :: "nat \<Rightarrow> string" where
  "compactFlowSelectionLabel n = (if n > 0 then show_nat n else ''*'')"

definition visibleFlowUsers :: "flow_option list \<Rightarrow> string list \<Rightarrow> flow_option list" where
  "visibleFlowUsers users selectedUsers =
     (if selectedUsers = [] then users else filter (\<lambda>u. opt_value u \<in> set selectedUsers) users)"

end
