(* ===== verification/FlowConservation.thy ===== *)
theory FlowConservation
  imports FlowGraph
begin

text \<open>
  The flow chart adds up: every stage shows the whole of the selected usage, what flows into a node
  is what flows out of it, shares are shares of the whole, the limit on the nodes of a stage is kept,
  and masking hides the names. The maps the graph is built from are instances of one accumulator.
\<close>

section \<open>Accumulating amounts under keys\<close>

definition key_total :: "('v \<Rightarrow> rat) \<Rightarrow> ('k \<Rightarrow> bool) \<Rightarrow> ('k \<times> 'v) list \<Rightarrow> rat" where
  "key_total val P m = sum_list (map (\<lambda>(k, v). val v) (filter (\<lambda>(k, v). P k) m))"

lemma key_total_simps [simp]:
  "key_total val P [] = 0"
  "key_total val P ((k, v) # m) = (if P k then val v else 0) + key_total val P m"
  by (simp_all add: key_total_def)

lemma key_total_update:
  "distinct (map fst m) \<Longrightarrow> key_total val P (AList.update k v m) =
     key_total val P m + (if P k then val v - (case map_of m k of None \<Rightarrow> 0 | Some u \<Rightarrow> val u) else 0)"
proof (induction m)
  case (Cons e m)
  obtain k' u where e: "e = (k', u)" by (cases e)
  have "map_of m k = None" if "k' = k" using Cons.prems that by (auto simp: e map_of_eq_None_iff)
  with Cons show ?case by (auto simp: e)
qed simp

lemma update_entries: "e \<in> set (AList.update k v m) \<Longrightarrow> e = (k, v) \<or> e \<in> set m"
  by (induction m) (auto split: if_splits)

locale accumulator =
  fixes key :: "'x \<Rightarrow> 'k" and fresh :: "'x \<Rightarrow> 'v" and add :: "'x \<Rightarrow> 'v \<Rightarrow> 'v"
    and amount :: "'x \<Rightarrow> rat" and val :: "'v \<Rightarrow> rat" and acc :: "('k \<times> 'v) list \<Rightarrow> 'x \<Rightarrow> ('k \<times> 'v) list"
  assumes val_add: "val (add x v) = val v + amount x"
    and val_fresh: "val (fresh x) = 0"
    and acc_update: "acc m x = AList.update (key x) (add x (case map_of m (key x) of Some v \<Rightarrow> v | None \<Rightarrow> fresh x)) m"
begin

lemma acc_distinct: "distinct (map fst m) \<Longrightarrow> distinct (map fst (acc m x))"
  by (simp add: acc_update distinct_update)

lemma acc_total:
  "distinct (map fst m) \<Longrightarrow> key_total val P (acc m x) = key_total val P m + (if P (key x) then amount x else 0)"
  by (auto simp: acc_update key_total_update val_add val_fresh split: option.split)

lemma acc_keys: "fst ` set (acc m x) = insert (key x) (fst ` set m)"
  by (simp add: acc_update dom_update [unfolded dom_map_of_conv_image_fst])

lemma fold_distinct: "distinct (map fst m) \<Longrightarrow> distinct (map fst (foldl acc m xs))"
  by (induction xs arbitrary: m) (simp_all add: acc_distinct)

lemma fold_total:
  "distinct (map fst m) \<Longrightarrow> key_total val P (foldl acc m xs) =
     key_total val P m + sum_list (map amount (filter (\<lambda>x. P (key x)) xs))"
  by (induction xs arbitrary: m) (simp_all add: acc_distinct acc_total)

lemma fold_keys: "fst ` set (foldl acc m xs) = key ` set xs \<union> fst ` set m"
  by (induction xs arbitrary: m) (auto simp: acc_keys)

text \<open>A property every new entry has and that adding keeps.\<close>

lemma fold_entries:
  assumes "\<And>x. x \<in> set xs \<Longrightarrow> Q (key x) (fresh x)" "\<And>x v. x \<in> set xs \<Longrightarrow> Q (key x) v \<Longrightarrow> Q (key x) (add x v)"
    "\<forall>(k, v) \<in> set m. Q k v"
  shows "\<forall>(k, v) \<in> set (foldl acc m xs). Q k v"
  using assms
proof (induction xs arbitrary: m)
  case (Cons x xs)
  have "Q (key x) (case map_of m (key x) of Some v \<Rightarrow> v | None \<Rightarrow> fresh x)"
    using Cons.prems(1,3) by (auto split: option.split dest: map_of_SomeD)
  then have "\<forall>(k, v) \<in> set (acc m x). Q k v"
    using Cons.prems(2,3) by (auto simp: acc_update dest!: update_entries)
  then show ?case using Cons.IH Cons.prems(1,2) by simp
qed simp

end


section \<open>The maps of the graph\<close>

text \<open>Nodes and links are added one after another, each with the metrics and colours of its path.\<close>

type_synonym node_item = "FlowPathNode \<times> FlowMetrics \<times> string \<times> string"
type_synonym link_item = "(FlowPathNode \<times> FlowPathNode) \<times> FlowMetrics \<times> string \<times> string"

definition node_acc :: "FlowMetric \<Rightarrow> node_map \<Rightarrow> node_item \<Rightarrow> node_map" where
  "node_acc metric m x = (case x of (node, metrics, color, colorKey) \<Rightarrow> addNode m node metrics metric color colorKey)"

definition link_acc :: "FlowMetric \<Rightarrow> link_map \<Rightarrow> link_item \<Rightarrow> link_map" where
  "link_acc metric m x =
     (case x of ((a, b), metrics, color, colorKey) \<Rightarrow> addLink m a b metrics metric color colorKey)"

definition fresh_node :: "node_item \<Rightarrow> DashboardFlowNode" where
  "fresh_node x = (case x of (node, _, color, colorKey) \<Rightarrow>
     \<lparr>fn_id = pn_id node, fn_label = pn_label node, fn_kind = pn_kind node, fn_value = 0, fn_requests = 0,
      fn_quota = 0, fn_tokens = 0, fn_color = color, fn_colorKey = colorKey, fn_highlighted = None,
      fn_dimmed = None\<rparr>)"

definition grow_node :: "FlowMetric \<Rightarrow> node_item \<Rightarrow> DashboardFlowNode \<Rightarrow> DashboardFlowNode" where
  "grow_node metric x v = (case x of (_, metrics, _) \<Rightarrow>
     v\<lparr>fn_value := fn_value v + metricValue metrics metric, fn_requests := fn_requests v + mt_requests metrics,
       fn_quota := fn_quota v + mt_quota metrics, fn_tokens := fn_tokens v + mt_tokens metrics\<rparr>)"

definition fresh_link :: "link_item \<Rightarrow> DashboardFlowLink" where
  "fresh_link x = (case x of ((source, target), _, color, colorKey) \<Rightarrow>
     \<lparr>fl_source = pn_id source, fl_target = pn_id target, fl_value = 0, fl_requests = 0, fl_quota = 0,
      fl_tokens = 0, fl_sourceLabel = pn_label source, fl_targetLabel = pn_label target, fl_color = color,
      fl_linkColor = color, fl_linkAlpha = 1, fl_hoverColor = color, fl_colorKey = colorKey, fl_share = 0,
      fl_highlighted = None, fl_dimmed = None\<rparr>)"

definition grow_link :: "FlowMetric \<Rightarrow> link_item \<Rightarrow> DashboardFlowLink \<Rightarrow> DashboardFlowLink" where
  "grow_link metric x v = (case x of (_, metrics, _) \<Rightarrow>
     v\<lparr>fl_value := fl_value v + metricValue metrics metric, fl_requests := fl_requests v + mt_requests metrics,
       fl_quota := fl_quota v + mt_quota metrics, fl_tokens := fl_tokens v + mt_tokens metrics\<rparr>)"

definition item_amount :: "FlowMetric \<Rightarrow> 'a \<times> FlowMetrics \<times> 'b \<Rightarrow> rat" where
  "item_amount metric x = metricValue (fst (snd x)) metric"

interpretation nodes: accumulator "\<lambda>x :: node_item. pn_id (fst x)" fresh_node "grow_node metric"
  "item_amount metric" fn_value "node_acc metric" for metric
  by unfold_locales (auto simp: node_acc_def addNode_def fresh_node_def grow_node_def item_amount_def Let_def
      split: prod.split option.split)

interpretation links: accumulator "\<lambda>x :: link_item. pathLinkKey (fst (fst x)) (snd (fst x))" fresh_link
  "grow_link metric" "item_amount metric" fl_value "link_acc metric" for metric
  by unfold_locales (auto simp: link_acc_def addLink_def fresh_link_def grow_link_def item_amount_def Let_def
      split: prod.split option.split)

text \<open>The items that a prepared path adds, and the maps that all the paths give.\<close>

definition tagged :: "(PreparedFlowPath \<Rightarrow> string) \<Rightarrow> PreparedFlowPath \<Rightarrow> 'a \<Rightarrow> 'a \<times> FlowMetrics \<times> string \<times> string" where
  "tagged color p x = (x, pp_metrics p, color p, (case pp_path p of [] \<Rightarrow> [] | first # _ \<Rightarrow> pn_id first))"

definition node_items :: "(PreparedFlowPath \<Rightarrow> string) \<Rightarrow> PreparedFlowPath list \<Rightarrow> node_item list" where
  "node_items color ps = concat (map (\<lambda>p. map (tagged color p) (pp_path p)) ps)"

definition link_items :: "(PreparedFlowPath \<Rightarrow> string) \<Rightarrow> PreparedFlowPath list \<Rightarrow> link_item list" where
  "link_items color ps = concat (map (\<lambda>p. map (tagged color p) (steps_of (pp_path p))) ps)"

definition path_color :: "flow_platform \<Rightarrow> (string \<times> string) list \<Rightarrow> string list option \<Rightarrow> PreparedFlowPath \<Rightarrow> string" where
  "path_color fp colors palette p =
     (case map_of colors (case pp_path p of [] \<Rightarrow> [] | first # _ \<Rightarrow> pn_id first) of
        Some c \<Rightarrow> c | None \<Rightarrow> colorAt fp 0 palette)"

lemma foldl_map_acc: "foldl f m (map g xs) = foldl (\<lambda>m x. f m (g x)) m xs"
  by (induction xs arbitrary: m) simp_all

lemma add_path_items:
  "add_path fp metric colors palette (ns, ls) p =
     (foldl (node_acc metric) ns (map (tagged (path_color fp colors palette) p) (pp_path p)),
      foldl (link_acc metric) ls (map (tagged (path_color fp colors palette) p) (steps_of (pp_path p))))"
  by (cases "pp_path p")
    (simp_all add: add_path_def foldl_map_acc node_acc_def link_acc_def tagged_def path_color_def Let_def
      split_def split: option.split)

lemma add_paths_items:
  "foldl (add_path fp metric colors palette) (ns, ls) ps =
     (foldl (node_acc metric) ns (node_items (path_color fp colors palette) ps),
      foldl (link_acc metric) ls (link_items (path_color fp colors palette) ps))"
  by (induction ps arbitrary: ns ls) (simp_all add: node_items_def link_items_def add_path_items)

section \<open>What display leaves alone\<close>

definition node_core :: "DashboardFlowNode \<Rightarrow> string \<times> FlowNodeKind \<times> rat" where
  "node_core n = (fn_id n, fn_kind n, fn_value n)"

definition link_core :: "DashboardFlowLink \<Rightarrow> string \<times> string \<times> rat" where
  "link_core l = (fl_source l, fl_target l, fl_value l)"

lemma core_frame [simp]:
  "node_core (n\<lparr>fn_label := t\<rparr>) = node_core n"
  "node_core (n\<lparr>fn_highlighted := h, fn_dimmed := d\<rparr>) = node_core n"
  "link_core (l\<lparr>fl_sourceLabel := t, fl_targetLabel := u\<rparr>) = link_core l"
  "link_core (l\<lparr>fl_highlighted := h, fl_dimmed := d\<rparr>) = link_core l"
  "link_core (l\<lparr>fl_share := x\<rparr>) = link_core l"
  "link_core (l\<lparr>fl_linkColor := c, fl_linkAlpha := a, fl_hoverColor := k\<rparr>) = link_core l"
  by (simp_all add: node_core_def link_core_def)

lemma mask_cores:
  "map (node_core \<circ> snd) (fst (maskFlowGraphLabels fp ns ls)) = map (node_core \<circ> snd) ns"
  "map (link_core \<circ> snd) (snd (maskFlowGraphLabels fp ns ls)) = map (link_core \<circ> snd) ls"
  by (simp_all add: maskFlowGraphLabels_def Let_def comp_def split_def if_distrib [of node_core])

lemma highlight_cores:
  "map (node_core \<circ> snd) (fst (applyFlowHighlights ns ls h)) = map (node_core \<circ> snd) ns"
  "map (link_core \<circ> snd) (snd (applyFlowHighlights ns ls h)) = map (link_core \<circ> snd) ls"
  by (simp_all add: applyFlowHighlights_def comp_def split_def split: option.split)

lemma display_cores:
  "map link_core (assignLinkDisplayColors fp (set_shares sources links)) = map link_core links"
  by (simp add: assignLinkDisplayColors_def set_shares_def display_link_def Let_def comp_def split_def)

definition graph_paths ::
  "flow_platform \<Rightarrow> FlowQuotaDataItem list \<Rightarrow> FlowMetric \<Rightarrow> FlowNodeKind list \<Rightarrow> (int \<Rightarrow> string) option \<Rightarrow>
     FlowGraphOptions \<Rightarrow> PreparedFlowPath list" where
  "graph_paths fp rows metric stages ctx options =
     prepare_paths rows stages
       (buildTopNodeSets fp rows metric stages (normalizeTopNodeLimit (go_topNodeLimit options)) ctx)
       (case go_overflowMode options of None \<Rightarrow> Aggregate | Some m \<Rightarrow> m) (go_otherNodeLabel options) ctx"

text \<open>The stages of \<^verbatim>\<open>buildFlowGraph\<close>: the maps filled from the paths, masked, highlighted, then sorted and decorated.\<close>

definition masked_maps :: "flow_platform \<Rightarrow> FlowGraphOptions \<Rightarrow> node_map \<Rightarrow> link_map \<Rightarrow> node_map \<times> link_map" where
  "masked_maps fp options nodes links = (if go_maskSensitive options then maskFlowGraphLabels fp nodes links else (nodes, links))"

lemma graph_parts:
  fixes fp rows metric role palette visibleStages ctx options
  defines "g \<equiv> buildFlowGraph fp rows metric role palette visibleStages ctx options"
    and "ps \<equiv> graph_paths fp rows metric (resolveVisibleStages role visibleStages) ctx options"
  obtains color highlights lit where
    "lit = (let maps = masked_maps fp options (foldl (node_acc metric) [] (node_items color ps))
         (foldl (link_acc metric) [] (link_items color ps))
       in applyFlowHighlights (fst maps) (snd maps) highlights)"
    "gr_nodes g = sort_cmp (byValueThenLabel fp) (map snd (fst lit))"
    "gr_links g = assignLinkDisplayColors fp (set_shares (root_ids ps) (sort_cmp (link_order fp) (map snd (snd lit))))"
proof -
  define colors where "colors = stableColorMap fp (sort_cmp (fp_compare fp) (root_ids ps)) palette"
  let ?color = "path_color fp colors palette"
  define maps where "maps = masked_maps fp options (foldl (node_acc metric) [] (node_items ?color ps))
    (foldl (link_acc metric) [] (link_items ?color ps))"
  let ?highlights = "buildFlowHighlightSets ps (go_activeNode options) (go_activeLink options)
    (resolveVisibleStages role visibleStages)"
  let ?lit = "applyFlowHighlights (fst maps) (snd maps) ?highlights"
  have "g = \<lparr>gr_nodes = sort_cmp (byValueThenLabel fp) (map snd (fst ?lit)),
      gr_links = assignLinkDisplayColors fp (set_shares (root_ids ps) (sort_cmp (link_order fp) (map snd (snd ?lit))))\<rparr>"
    unfolding g_def buildFlowGraph_def Let_def graph_paths_def [symmetric] ps_def [symmetric] colors_def [symmetric]
      add_paths_items prod.case
    by (simp add: maps_def masked_maps_def case_prod_beta)
  then show thesis by (intro that [of ?lit ?color ?highlights]) (simp_all add: maps_def Let_def)
qed

lemma graph_cores:
  fixes fp rows metric role palette visibleStages ctx options
  defines "g \<equiv> buildFlowGraph fp rows metric role palette visibleStages ctx options"
    and "ps \<equiv> graph_paths fp rows metric (resolveVisibleStages role visibleStages) ctx options"
  obtains color where
    "mset (map node_core (gr_nodes g)) = mset (map (node_core \<circ> snd) (foldl (node_acc metric) [] (node_items color ps)))"
    "mset (map link_core (gr_links g)) = mset (map (link_core \<circ> snd) (foldl (link_acc metric) [] (link_items color ps)))"
proof -
  obtain color highlights lit where lit: "lit = (let maps = masked_maps fp options (foldl (node_acc metric) [] (node_items color ps))
         (foldl (link_acc metric) [] (link_items color ps))
       in applyFlowHighlights (fst maps) (snd maps) highlights)"
    and g: "gr_nodes g = sort_cmp (byValueThenLabel fp) (map snd (fst lit))"
    "gr_links g = assignLinkDisplayColors fp (set_shares (root_ids ps) (sort_cmp (link_order fp) (map snd (snd lit))))"
    unfolding g_def ps_def by (rule graph_parts)
  have cores: "map (node_core \<circ> snd) (fst lit) = map (node_core \<circ> snd) (foldl (node_acc metric) [] (node_items color ps))"
    "map (link_core \<circ> snd) (snd lit) = map (link_core \<circ> snd) (foldl (link_acc metric) [] (link_items color ps))"
    by (simp_all add: lit Let_def masked_maps_def highlight_cores mask_cores)
  have "mset (map node_core (gr_nodes g)) = mset (map (node_core \<circ> snd) (fst lit))"
    by (simp add: g image_mset.compositionality)
  moreover have "mset (map link_core (gr_links g)) = mset (map (link_core \<circ> snd) (snd lit))"
    unfolding g display_cores by (simp add: image_mset.compositionality)
  ultimately show thesis
    unfolding cores by (rule that)
qed

section \<open>Paths and stages\<close>

definition of_kind :: "FlowNodeKind \<Rightarrow> string \<Rightarrow> bool" where
  "of_kind k i \<longleftrightarrow> prefix (node_kind_name k @ '':'') i"

lemma kind_name_facts: "CHR '':'' \<notin> set (node_kind_name k)" "node_kind_name k = node_kind_name k' \<Longrightarrow> k = k'"
  by (cases k; simp add: node_kind_name_def) (cases k; cases k'; simp add: node_kind_name_def)

lemma of_kind_unique: "of_kind k i \<Longrightarrow> of_kind k' i \<Longrightarrow> k = k'"
  using prefix_before_unique [of "node_kind_name k" "CHR '':''" i "node_kind_name k'"] kind_name_facts(1) [of k]
    kind_name_facts(1) [of k'] kind_name_facts(2) [of k k'] by (simp add: of_kind_def)

definition path_ok :: "FlowNodeKind list \<Rightarrow> FlowPathNode list \<Rightarrow> bool" where
  "path_ok stages path \<longleftrightarrow> map pn_kind path = stages \<and> (\<forall>node \<in> set path. of_kind (pn_kind node) (pn_id node))"

lemma built_node: "pn_kind (NODE_BUILDERS k row ctx) = k" "of_kind k (pn_id (NODE_BUILDERS k row ctx))"
  by (cases k; simp add: NODE_BUILDERS_def userNode_def nodeNameNode_def tokenNode_def groupNode_def
      modelNode_def channelNode_def Let_def of_kind_def node_kind_name_def)+

lemma flowPath_ok: "path_ok stages (flowPathForStages row stages ctx)"
  by (simp add: path_ok_def flowPathForStages_def comp_def built_node)

lemma limited_ok:
  assumes "applyTopNodeLimit path sets mode labeler = Some path'" "path_ok stages path"
  shows "path_ok stages path'"
proof -
  have "of_kind k (OTHER_FLOW_NODE_IDS k)" for k by (simp add: of_kind_def OTHER_FLOW_NODE_IDS_def)
  with assms show ?thesis
    by (auto simp: applyTopNodeLimit_def path_ok_def otherFlowNode_def split: if_splits)
qed

lemma graph_paths_ok:
  assumes "p \<in> set (graph_paths fp rows metric stages ctx options)"
  shows "path_ok stages (pp_path p)"
  using assms limited_ok [OF _ flowPath_ok]
  by (auto simp: graph_paths_def prepare_paths_def List.map_filter_def split: option.splits)

lemma stages_facts:
  "distinct (resolveVisibleStages role visible)" "2 \<le> length (resolveVisibleStages role visible)"
  by (cases role; simp add: resolveVisibleStages_def getFlowStages_def ROLE_FLOW_STAGES_def MIN_FLOW_STAGES_def
      Let_def split: option.split)+

text \<open>How many nodes of a path have a given identifier or kind.\<close>

lemma one_of_kind:
  assumes "path_ok stages path" "distinct stages" "k \<in> set stages"
  shows "length (filter (\<lambda>node. of_kind k (pn_id node)) path) = 1"
proof -
  have "filter (\<lambda>node. of_kind k (pn_id node)) path = filter (\<lambda>node. pn_kind node = k) path"
    using assms(1) of_kind_unique by (intro filter_cong) (auto simp: path_ok_def)
  moreover have "map pn_kind (filter (\<lambda>node. pn_kind node = k) path) = filter (\<lambda>x. x = k) (map pn_kind path)"
    by (simp add: filter_map comp_def)
  then have "length (filter (\<lambda>node. pn_kind node = k) path) = length (filter (\<lambda>x. x = k) stages)"
    using assms(1) unfolding path_ok_def by (metis length_map)
  moreover have "filter (\<lambda>x. x = k) stages = [k]"
    using assms(2,3) by (induction stages) (auto simp: filter_empty_conv)
  ultimately show ?thesis by simp
qed

section \<open>Sums over the graph\<close>

definition path_amount :: "FlowMetric \<Rightarrow> PreparedFlowPath \<Rightarrow> rat" where
  "path_amount metric p = metricValue (pp_metrics p) metric"

lemma tagged_sum:
  "sum_list (map (item_amount metric) (filter (\<lambda>x. P (fst x)) (map (tagged color p) xs))) =
     of_nat (length (filter P xs)) * path_amount metric p"
  by (induction xs) (simp_all add: item_amount_def tagged_def path_amount_def algebra_simps)

lemma node_items_sum:
  "sum_list (map (item_amount metric) (filter (\<lambda>x. P (fst x)) (node_items color ps))) =
     sum_list (map (\<lambda>p. of_nat (length (filter P (pp_path p))) * path_amount metric p) ps)"
  by (induction ps) (simp_all add: node_items_def tagged_sum)

lemma link_items_sum:
  "sum_list (map (item_amount metric) (filter (\<lambda>x. P (fst x)) (link_items color ps))) =
     sum_list (map (\<lambda>p. of_nat (length (filter P (steps_of (pp_path p)))) * path_amount metric p) ps)"
  by (induction ps) (simp_all add: link_items_def tagged_sum)

lemma core_sum:
  fixes h :: "'c \<Rightarrow> rat"
  assumes "mset (map core xs) = mset (map core' m)"
  shows "sum_list (map (h \<circ> core) xs) = sum_list (map (h \<circ> core') m)"
  using arg_cong [OF assms, of "\<lambda>M. sum_mset (image_mset h M)"]
  by (simp flip: sum_mset_sum_list add: image_mset.compositionality)

lemma steps_fst: "map fst (steps_of p) = butlast p"
  by (induction p rule: steps_of.induct) simp_all

lemma steps_snd: "map snd (steps_of p) = tl p"
  by (induction p rule: steps_of.induct) simp_all

lemma key_total_entries:
  "\<forall>(k, v) \<in> set m. P k = R v \<Longrightarrow> key_total val P m = sum_list (map (\<lambda>e. if R (snd e) then val (snd e) else 0) m)"
  by (induction m) auto

lemma key_total_single:
  "distinct (map fst m) \<Longrightarrow> (k, v) \<in> set m \<Longrightarrow> key_total val (\<lambda>x. x = k) m = val v"
proof (induction m)
  case (Cons e m)
  have zero: "k \<notin> fst ` set m \<Longrightarrow> key_total val (\<lambda>x. x = k) m = 0"
    by (induction m) auto
  obtain k' u where e: "e = (k', u)" by (cases e)
  show ?case
  proof (cases "k' = k")
    case True
    then have "k \<notin> fst ` set m" using Cons.prems(1) by (simp add: e)
    moreover from this have "u = v" using Cons.prems(2) True by (auto simp: e image_iff)
    ultimately show ?thesis using True zero by (simp add: e)
  next
    case False
    then show ?thesis using Cons by (auto simp: e)
  qed
qed simp

definition all_ok :: "FlowNodeKind list \<Rightarrow> PreparedFlowPath list \<Rightarrow> bool" where
  "all_ok stages ps \<longleftrightarrow> distinct stages \<and> 2 \<le> length stages \<and> (\<forall>p \<in> set ps. path_ok stages (pp_path p))"

lemma graph_all_ok:
  "all_ok (resolveVisibleStages role visible) (graph_paths fp rows metric (resolveVisibleStages role visible) ctx options)"
  using stages_facts graph_paths_ok by (auto simp: all_ok_def)

lemma node_item_ok:
  assumes "all_ok stages ps" "x \<in> set (node_items color ps)"
  shows "of_kind (pn_kind (fst x)) (pn_id (fst x))"
  using assms by (auto simp: all_ok_def path_ok_def node_items_def tagged_def)

lemma node_entries:
  assumes "all_ok stages ps"
  shows "\<forall>(k, v) \<in> set (foldl (node_acc metric) [] (node_items color ps)). fn_id v = k \<and> of_kind (fn_kind v) k"
  using node_item_ok [OF assms]
  by (intro nodes.fold_entries) (auto simp: fresh_node_def grow_node_def split: prod.split)

lemma node_kind_sum:
  assumes "all_ok stages ps" "k \<in> set stages"
  shows "key_total fn_value (of_kind k) (foldl (node_acc metric) [] (node_items color ps)) =
    sum_list (map (path_amount metric) ps)"
proof -
  have "length (filter (\<lambda>node. of_kind k (pn_id node)) (pp_path p)) = 1" if "p \<in> set ps" for p
    using assms that by (intro one_of_kind [of stages]) (simp_all add: all_ok_def)
  then have count: "map (\<lambda>p. of_nat (length (filter (\<lambda>node. of_kind k (pn_id node)) (pp_path p))) * path_amount metric p) ps =
      map (path_amount metric) ps" by simp
  have "key_total fn_value (of_kind k) (foldl (node_acc metric) [] (node_items color ps)) =
      sum_list (map (item_amount metric) (filter (\<lambda>x. of_kind k (pn_id (fst x))) (node_items color ps)))"
    by (simp add: nodes.fold_total)
  also have "\<dots> = sum_list (map (path_amount metric) ps)"
    unfolding node_items_sum [of metric "\<lambda>node. of_kind k (pn_id node)"] count by (rule refl)
  finally show ?thesis .
qed

lemma graph_kind_sum:
  assumes "k \<in> set (resolveVisibleStages role visible)"
  shows "sum_list (map fn_value (filter (\<lambda>n. fn_kind n = k)
      (gr_nodes (buildFlowGraph fp rows metric role palette visible ctx options)))) =
    sum_list (map (path_amount metric) (graph_paths fp rows metric (resolveVisibleStages role visible) ctx options))"
proof -
  let ?stages = "resolveVisibleStages role visible" and ?g = "buildFlowGraph fp rows metric role palette visible ctx options"
  let ?ps = "graph_paths fp rows metric ?stages ctx options"
  obtain color where cores: "mset (map node_core (gr_nodes ?g)) =
      mset (map (node_core \<circ> snd) (foldl (node_acc metric) [] (node_items color ?ps)))"
    by (rule graph_cores)
  let ?N = "foldl (node_acc metric) [] (node_items color ?ps)" and ?h = "\<lambda>(i, k', v). if k' = k then v else 0"
  have "sum_list (map fn_value (filter (\<lambda>n. fn_kind n = k) (gr_nodes ?g))) = sum_list (map (?h \<circ> node_core) (gr_nodes ?g))"
    by (simp add: sum_list_map_filter' comp_def node_core_def)
  also have "\<dots> = sum_list (map (?h \<circ> (node_core \<circ> snd)) ?N)"
    using cores by (rule core_sum)
  also have "\<dots> = key_total fn_value (of_kind k) ?N"
  proof -
    have "\<forall>(i, v) \<in> set ?N. of_kind k i = (fn_kind v = k)"
      using node_entries [OF graph_all_ok [of role visible fp rows metric ctx options], of metric color]
      by (auto dest: of_kind_unique)
    then show ?thesis by (simp add: key_total_entries comp_def node_core_def)
  qed
  finally show ?thesis using node_kind_sum [OF graph_all_ok assms] by simp
qed

lemma summary_metric:
  "metricValue (buildSummary rows) metric = sum_list (map (\<lambda>row. metricValue (rowMetrics row) metric) rows)"
proof -
  let ?f = "\<lambda>summary row. let metrics = rowMetrics row in
         \<lparr>mt_quota = mt_quota summary + mt_quota metrics, mt_tokens = mt_tokens summary + mt_tokens metrics,
          mt_requests = mt_requests summary + mt_requests metrics\<rparr>"
  have "metricValue (foldl ?f a rows) metric =
      metricValue a metric + sum_list (map (\<lambda>row. metricValue (rowMetrics row) metric) rows)" for a
    by (induction rows arbitrary: a) (cases metric; simp add: metricValue_def Let_def)+
  from this [of "\<lparr>mt_quota = 0, mt_tokens = 0, mt_requests = 0\<rparr>"] show ?thesis
    by (cases metric) (simp_all add: buildSummary_def metricValue_def)
qed

definition keeps_all :: "FlowGraphOptions \<Rightarrow> bool" where
  "keeps_all options \<longleftrightarrow> go_overflowMode options \<noteq> Some Hide \<or> normalizeTopNodeLimit (go_topNodeLimit options) = None"

lemma prepared_metrics:
  assumes "\<And>p. applyTopNodeLimit p sets mode labeler \<noteq> None"
  shows "map pp_metrics (prepare_paths rows stages sets mode labeler ctx) = map rowMetrics rows"
proof (induction rows)
  case (Cons row rows)
  obtain path where "applyTopNodeLimit (flowPathForStages row stages ctx) sets mode labeler = Some path"
    using assms by fastforce
  with Cons show ?case by (simp add: prepare_paths_def List.map_filter_def)
qed (simp add: prepare_paths_def List.map_filter_def)

lemma kept_amounts:
  assumes "keeps_all options"
  shows "sum_list (map (path_amount metric') (graph_paths fp rows metric stages ctx options)) =
    metricValue (buildSummary rows) metric'"
proof -
  have "map pp_metrics (graph_paths fp rows metric stages ctx options) = map rowMetrics rows"
    unfolding graph_paths_def using assms
    by (intro prepared_metrics)
      (auto simp: keeps_all_def applyTopNodeLimit_def buildTopNodeSets_def split: option.splits)
  from arg_cong [OF this, of "map (\<lambda>m. metricValue m metric')"] show ?thesis
    unfolding summary_metric path_amount_def [abs_def] by (simp add: comp_def)
qed

section \<open>What flows in flows out\<close>

abbreviation clean :: "string \<Rightarrow> bool" where
  "clean s \<equiv> CHR 0x00 \<notin> set s"

definition row_clean :: "FlowQuotaDataItem \<Rightarrow> bool" where
  "row_clean row \<longleftrightarrow> (\<forall>s \<in> set_option (fq_username row) \<union> set_option (fq_node_name row) \<union> set_option (fq_use_group row) \<union>
     set_option (fq_token_name row) \<union> set_option (fq_channel_name row) \<union> set_option (fq_model_name row). clean s)"

lemma or_text_clean: "\<forall>x \<in> set_option s. clean x \<Longrightarrow> clean d \<Longrightarrow> clean (or_text s d)"
  by (auto simp: or_text_def split: option.split)

lemma show_id_clean: "clean (show_id n)"
  using show_nat_digits by (fastforce simp: show_id_def is_digit_def)

lemma built_clean: "row_clean row \<Longrightarrow> clean (pn_id (NODE_BUILDERS k row ctx))"
  by (cases k; simp add: NODE_BUILDERS_def userNode_def nodeNameNode_def tokenNode_def groupNode_def modelNode_def
      channelNode_def Let_def row_clean_def or_text_clean show_id_clean)

lemma graph_paths_clean:
  assumes "\<forall>row \<in> set rows. row_clean row" "p \<in> set (graph_paths fp rows metric stages ctx options)"
    "node \<in> set (pp_path p)"
  shows "clean (pn_id node)"
proof -
  have other: "clean (pn_id (otherFlowNode k labeler))" for k labeler
    by (cases k) (simp_all add: otherFlowNode_def OTHER_FLOW_NODE_IDS_def node_kind_name_def)
  have limited: "\<forall>node \<in> set path'. clean (pn_id node)"
    if "applyTopNodeLimit path sets mode labeler = Some path'" "\<forall>node \<in> set path. clean (pn_id node)"
    for path sets mode labeler path'
    using that other by (auto simp: applyTopNodeLimit_def split: if_splits)
  have "\<forall>node \<in> set (flowPathForStages row stages ctx). clean (pn_id node)" if "row \<in> set rows" for row
    using assms(1) that built_clean by (auto simp: flowPathForStages_def)
  then show ?thesis
    using assms(2,3) limited
    by (fastforce simp: graph_paths_def prepare_paths_def List.map_filter_def split: option.splits)
qed

lemma key_parts: "clean a \<Longrightarrow> clean a' \<Longrightarrow> a @ nul @ b = a' @ nul @ b' \<longleftrightarrow> a = a' \<and> b = b'"
  by (auto simp: nul_def append_eq_append_conv2 Cons_eq_append_conv append_eq_Cons_conv)

definition link_into :: "string \<Rightarrow> string \<Rightarrow> bool" where
  "link_into v key \<longleftrightarrow> (\<exists>a. clean a \<and> key = a @ nul @ v)"

definition link_from :: "string \<Rightarrow> string \<Rightarrow> bool" where
  "link_from v key \<longleftrightarrow> (\<exists>b. key = v @ nul @ b)"

lemma link_key_parts:
  assumes "clean a" "clean v"
  shows "link_into v (a @ nul @ b) \<longleftrightarrow> b = v" "link_from v (a @ nul @ b) \<longleftrightarrow> a = v"
  using assms key_parts by (auto simp: link_into_def link_from_def)

definition all_clean :: "PreparedFlowPath list \<Rightarrow> bool" where
  "all_clean ps \<longleftrightarrow> (\<forall>p \<in> set ps. \<forall>node \<in> set (pp_path p). clean (pn_id node))"

lemma steps_in: "(a, b) \<in> set (steps_of p) \<Longrightarrow> a \<in> set p \<and> b \<in> set p"
  by (induction p rule: steps_of.induct) auto

lemma link_entries:
  assumes "all_clean ps"
  shows "\<forall>(k, l) \<in> set (foldl (link_acc metric) [] (link_items color ps)).
    k = fl_source l @ nul @ fl_target l \<and> clean (fl_source l) \<and> clean (fl_target l)"
proof (rule links.fold_entries)
  fix x assume "x \<in> set (link_items color ps)"
  then have "clean (pn_id (fst (fst x)))" "clean (pn_id (snd (fst x)))"
    using assms by (auto simp: link_items_def tagged_def all_clean_def dest!: steps_in)
  then show "pathLinkKey (fst (fst x)) (snd (fst x)) = fl_source (fresh_link x) @ nul @ fl_target (fresh_link x) \<and>
      clean (fl_source (fresh_link x)) \<and> clean (fl_target (fresh_link x))"
    by (simp add: fresh_link_def pathLinkKey_def split_def)
qed (simp_all add: grow_link_def split_def)

lemma filter_hd: "xs \<noteq> [] \<Longrightarrow> \<not> P (hd xs) \<Longrightarrow> filter P (tl xs) = filter P xs"
  by (cases xs) simp_all

lemma filter_last: "xs \<noteq> [] \<Longrightarrow> \<not> P (last xs) \<Longrightarrow> filter P (butlast xs) = filter P xs"
  by (cases xs rule: rev_cases) simp_all

lemma length_filter_map: "length (filter P (map f xs)) = length (filter (\<lambda>x. P (f x)) xs)"
  by (induction xs) simp_all

lemma node_total:
  assumes "(i, v) \<in> set (foldl (node_acc metric) [] (node_items color ps))"
  shows "fn_value v = sum_list (map (\<lambda>p. of_nat (length (filter (\<lambda>node. pn_id node = i) (pp_path p))) * path_amount metric p) ps)"
proof -
  let ?N = "foldl (node_acc metric) [] (node_items color ps)"
  have "fn_value v = key_total fn_value (\<lambda>x. x = i) ?N"
    using nodes.fold_distinct [of "[]" metric "node_items color ps"] assms by (simp add: key_total_single)
  also have "\<dots> = sum_list (map (item_amount metric) (filter (\<lambda>x. pn_id (fst x) = i) (node_items color ps)))"
    by (simp add: nodes.fold_total)
  finally show ?thesis unfolding node_items_sum [of metric "\<lambda>node. pn_id node = i"] .
qed

lemma link_total:
  assumes "\<And>p. p \<in> set ps \<Longrightarrow> length (filter (\<lambda>(a, b). P (pathLinkKey a b)) (steps_of (pp_path p))) =
    length (filter R (pp_path p))"
  shows "key_total fl_value P (foldl (link_acc metric) [] (link_items color ps)) =
    sum_list (map (\<lambda>p. of_nat (length (filter R (pp_path p))) * path_amount metric p) ps)"
proof -
  have "key_total fl_value P (foldl (link_acc metric) [] (link_items color ps)) =
      sum_list (map (item_amount metric) (filter (\<lambda>x. (\<lambda>(a, b). P (pathLinkKey a b)) (fst x)) (link_items color ps)))"
    by (simp add: links.fold_total split_def)
  also have "\<dots> = sum_list (map (\<lambda>p. of_nat (length (filter (\<lambda>(a, b). P (pathLinkKey a b)) (steps_of (pp_path p)))) *
      path_amount metric p) ps)"
    by (rule link_items_sum)
  also have "\<dots> = sum_list (map (\<lambda>p. of_nat (length (filter R (pp_path p))) * path_amount metric p) ps)"
    using assms by (intro arg_cong [of _ _ sum_list] map_cong) simp_all
  finally show ?thesis .
qed

text \<open>Of the steps of a path, those that arrive at a node are as many as the nodes after the first that it names;
those that leave it as many as the nodes before the last.\<close>

lemma steps_into:
  assumes "\<forall>node \<in> set path. clean (pn_id node)" "clean v"
  shows "length (filter (\<lambda>(a, b). link_into v (pathLinkKey a b)) (steps_of path)) =
    length (filter (\<lambda>node. pn_id node = v) (tl path))"
proof -
  have "filter (\<lambda>(a, b). link_into v (pathLinkKey a b)) (steps_of path) = filter (\<lambda>x. pn_id (snd x) = v) (steps_of path)"
    using assms by (intro filter_cong) (auto simp: pathLinkKey_def link_key_parts dest!: steps_in)
  then show ?thesis by (simp flip: steps_snd add: length_filter_map comp_def)
qed

lemma steps_from:
  assumes "\<forall>node \<in> set path. clean (pn_id node)" "clean v"
  shows "length (filter (\<lambda>(a, b). link_from v (pathLinkKey a b)) (steps_of path)) =
    length (filter (\<lambda>node. pn_id node = v) (butlast path))"
proof -
  have "filter (\<lambda>(a, b). link_from v (pathLinkKey a b)) (steps_of path) = filter (\<lambda>x. pn_id (fst x) = v) (steps_of path)"
    using assms by (intro filter_cong) (auto simp: pathLinkKey_def link_key_parts dest!: steps_in)
  then show ?thesis by (simp flip: steps_fst add: length_filter_map comp_def)
qed

lemma path_ends:
  assumes "path_ok stages path" "stages \<noteq> []" "of_kind k i"
  shows "path \<noteq> []" "k \<noteq> hd stages \<Longrightarrow> pn_id (hd path) \<noteq> i" "k \<noteq> last stages \<Longrightarrow> pn_id (last path) \<noteq> i"
proof -
  show path: "path \<noteq> []" using assms(1,2) by (auto simp: path_ok_def)
  then have "of_kind (hd stages) (pn_id (hd path))" "of_kind (last stages) (pn_id (last path))"
    using assms(1) by (auto simp: path_ok_def hd_map last_map)
  then show "k \<noteq> hd stages \<Longrightarrow> pn_id (hd path) \<noteq> i" "k \<noteq> last stages \<Longrightarrow> pn_id (last path) \<noteq> i"
    using assms(3) of_kind_unique by blast+
qed

lemma node_clean:
  assumes "all_clean ps" "(i, v) \<in> set (foldl (node_acc metric) [] (node_items color ps))"
  shows "clean i"
proof -
  have "i \<in> fst ` set (foldl (node_acc metric) [] (node_items color ps))" using assms(2) by force
  then show ?thesis
    using assms(1) unfolding nodes.fold_keys by (auto simp: node_items_def tagged_def all_clean_def)
qed

lemma maps_balanced:
  fixes metric color ps
  defines "N \<equiv> foldl (node_acc metric) [] (node_items color ps)" and "L \<equiv> foldl (link_acc metric) [] (link_items color ps)"
  assumes "all_ok stages ps" "all_clean ps" "(i, v) \<in> set N"
  shows "fn_kind v \<noteq> hd stages \<Longrightarrow> key_total fl_value (link_into i) L = fn_value v"
    "fn_kind v \<noteq> last stages \<Longrightarrow> key_total fl_value (link_from i) L = fn_value v"
proof -
  have entry: "of_kind (fn_kind v) i" "clean i"
    using node_entries [OF assms(3), of metric color] node_clean [OF assms(4)] assms(5) by (auto simp: N_def)
  have path: "path_ok stages (pp_path p)" "stages \<noteq> []" "\<forall>node \<in> set (pp_path p). clean (pn_id node)"
    if "p \<in> set ps" for p
    using assms(3,4) that by (auto simp: all_ok_def all_clean_def)
  show "key_total fl_value (link_into i) L = fn_value v" if "fn_kind v \<noteq> hd stages"
    unfolding L_def node_total [OF assms(5) [unfolded N_def]]
  proof (rule link_total)
    fix p assume p: "p \<in> set ps"
    show "length (filter (\<lambda>(a, b). link_into i (pathLinkKey a b)) (steps_of (pp_path p))) =
        length (filter (\<lambda>node. pn_id node = i) (pp_path p))"
      using path_ends(1,2) [OF path(1,2) [OF p] entry(1)] that path(3) [OF p] entry(2)
      by (simp add: steps_into filter_hd)
  qed
  show "key_total fl_value (link_from i) L = fn_value v" if "fn_kind v \<noteq> last stages"
    unfolding L_def node_total [OF assms(5) [unfolded N_def]]
  proof (rule link_total)
    fix p assume p: "p \<in> set ps"
    show "length (filter (\<lambda>(a, b). link_from i (pathLinkKey a b)) (steps_of (pp_path p))) =
        length (filter (\<lambda>node. pn_id node = i) (pp_path p))"
      using path_ends(1,3) [OF path(1,2) [OF p] entry(1)] that path(3) [OF p] entry(2)
      by (simp add: steps_from filter_last)
  qed
qed

text \<open>The sums over the links of the finished graph, which are sorted, coloured and given shares after they are added up.\<close>

lemma link_sum:
  fixes fp rows metric role palette visible ctx options
  assumes "mset (map link_core links) = mset (map (link_core \<circ> snd) L)" "\<forall>(k, l) \<in> set L. P k = R (fl_source l) (fl_target l)"
  shows "sum_list (map fl_value (filter (\<lambda>l. R (fl_source l) (fl_target l)) links)) = key_total fl_value P L"
proof -
  let ?h = "\<lambda>(s, t, v). if R s t then v else (0 :: rat)"
  have "sum_list (map fl_value (filter (\<lambda>l. R (fl_source l) (fl_target l)) links)) = sum_list (map (?h \<circ> link_core) links)"
    by (simp add: sum_list_map_filter' comp_def link_core_def)
  also have "\<dots> = sum_list (map (?h \<circ> (link_core \<circ> snd)) L)"
    using assms(1) by (rule core_sum)
  also have "\<dots> = key_total fl_value P L"
    using assms(2) by (simp add: key_total_entries [where R = "\<lambda>l. R (fl_source l) (fl_target l)"] comp_def link_core_def)
  finally show ?thesis .
qed

lemma graph_all_clean:
  assumes "\<forall>row \<in> set rows. row_clean row"
  shows "all_clean (graph_paths fp rows metric stages ctx options)"
  using graph_paths_clean [OF assms] by (auto simp: all_clean_def)

lemma core_member:
  assumes "mset (map node_core nodes) = mset (map (node_core \<circ> snd) N)" "n \<in> set nodes"
  obtains i v where "(i, v) \<in> set N" "node_core v = node_core n"
proof -
  have "node_core n \<in> set (map node_core nodes)" using assms(2) by simp
  then have "node_core n \<in> set (map (node_core \<circ> snd) N)"
    unfolding mset_eq_setD [OF assms(1)] .
  with that show thesis by auto
qed

section \<open>A chart of three rows\<close>

definition chart_platform :: flow_platform where
  "chart_platform = \<lparr>fp_compare = (\<lambda>a b. if a = b then 0 else -1), fp_schemes = [], fp_mask = ''***'',
     fp_format = (\<lambda>r. [])\<rparr>"

definition usage_row :: "string \<Rightarrow> string \<Rightarrow> rat \<Rightarrow> FlowQuotaDataItem" where
  "usage_row token grp quota = \<lparr>fq_user_id = None, fq_username = None, fq_node_name = None,
     fq_use_group = Some grp, fq_token_id = None, fq_token_name = Some token, fq_channel_id = None,
     fq_channel_name = None, fq_model_name = Some ''m'', fq_token_used = None, fq_count = None,
     fq_quota = Some (Fin quota)\<rparr>"

definition sample_usage :: "FlowQuotaDataItem list" where
  "sample_usage = [usage_row ''a'' ''vip'' 3, usage_row ''b'' ''free'' 2, usage_row ''b'' ''vip'' 1]"

definition chart_options :: FlowGraphOptions where
  "chart_options = \<lparr>go_topNodeLimit = Some (Fin 1), go_overflowMode = None, go_otherNodeLabel = None,
     go_activeNode = None, go_activeLink = None, go_maskSensitive = True\<rparr>"

definition chart :: DashboardFlowGraph where
  "chart = buildFlowGraph chart_platform sample_usage Quota UserRole (Some [''red'']) None None chart_options"

lemma usage_clean: "\<forall>row \<in> set sample_usage. row_clean row"
  by (simp add: sample_usage_def usage_row_def row_clean_def)

lemma chart_keeps_all: "keeps_all chart_options"
  by (simp add: keeps_all_def chart_options_def)

lemma chart_node: "list_ex (\<lambda>n. fn_id n = ''group:vip'' \<and> fn_kind n = GroupKind \<and> fn_value n = 4) (gr_nodes chart)"
  by code_simp

section \<open>Properties\<close>

text \<open>C5. Nothing is lost or invented along the Sankey chart that buildFlowGraph lays out: at every node of the graph that
is not of the first visible stage, the values of the incoming links add up to the node's value, and at every node not of the
last visible stage the values of the outgoing links do. This holds whatever the metric, top-node limit, overflow mode,
masking or highlighting, for rows whose names do not contain the NUL character that separates the parts of a link's key.\<close>
theorem flow_balanced:
  assumes "\<forall>row \<in> set rows. row_clean row"
    and "g = buildFlowGraph fp rows metric role palette visible ctx options" "n \<in> set (gr_nodes g)"
  shows "(fn_kind n \<noteq> hd (resolveVisibleStages role visible) \<longrightarrow>
       sum_list (map fl_value (filter (\<lambda>l. fl_target l = fn_id n) (gr_links g))) = fn_value n) \<and>
    (fn_kind n \<noteq> last (resolveVisibleStages role visible) \<longrightarrow>
       sum_list (map fl_value (filter (\<lambda>l. fl_source l = fn_id n) (gr_links g))) = fn_value n)"
proof -
  define ps where "ps = graph_paths fp rows metric (resolveVisibleStages role visible) ctx options"
  have ok: "all_ok (resolveVisibleStages role visible) ps" "all_clean ps"
    using graph_all_ok graph_all_clean [OF assms(1)] by (simp_all add: ps_def)
  obtain color where cores:
    "mset (map node_core (gr_nodes g)) = mset (map (node_core \<circ> snd) (foldl (node_acc metric) [] (node_items color ps)))"
    "mset (map link_core (gr_links g)) = mset (map (link_core \<circ> snd) (foldl (link_acc metric) [] (link_items color ps)))"
    unfolding assms(2) ps_def by (rule graph_cores)
  obtain i v where v: "(i, v) \<in> set (foldl (node_acc metric) [] (node_items color ps))" "node_core v = node_core n"
    using cores(1) assms(3) by (rule core_member)
  have n: "fn_id n = i" "fn_kind n = fn_kind v" "fn_value n = fn_value v"
    using v node_entries [OF ok(1), of metric color] by (auto simp: node_core_def)
  have keys: "\<forall>(k, l) \<in> set (foldl (link_acc metric) [] (link_items color ps)). link_into i k = (fl_target l = i)"
    "\<forall>(k, l) \<in> set (foldl (link_acc metric) [] (link_items color ps)). link_from i k = (fl_source l = i)"
    using link_entries [OF ok(2), of metric color] node_clean [OF ok(2) v(1)] by (auto simp: link_key_parts)
  show ?thesis
    using maps_balanced [OF ok v(1)] link_sum [OF cores(2), of "link_into i" "\<lambda>s t. t = i"]
      link_sum [OF cores(2), of "link_from i" "\<lambda>s t. s = i"] keys
    by (simp add: n)
qed

theorem flow_balanced_witness:
  "\<exists>n \<in> set (gr_nodes chart). fn_kind n = GroupKind \<and> fn_value n = 4 \<and>
     sum_list (map fl_value (filter (\<lambda>l. fl_target l = fn_id n) (gr_links chart))) = 4 \<and>
     sum_list (map fl_value (filter (\<lambda>l. fl_source l = fn_id n) (gr_links chart))) = 4"
proof -
  obtain n where n: "n \<in> set (gr_nodes chart)" "fn_kind n = GroupKind" "fn_value n = 4"
    using chart_node by (auto simp: list_ex_iff)
  have "resolveVisibleStages UserRole None = [TokenKind, GroupKind, ModelKind]"
    by code_simp
  then show ?thesis
    using flow_balanced [OF usage_clean chart_def n(1)] n by auto
qed

text \<open>C18. The chart agrees with the totals shown beside it: as long as no row is hidden (the overflow mode is not hide, or no
top-node limit applies), the values of the nodes of each visible stage add up to the selected metric of buildSummary, so that
folding small nodes into one remainder node changes no stage's total.\<close>
theorem stage_totals_match_summary:
  assumes "keeps_all options" "k \<in> set (resolveVisibleStages role visible)"
  shows "sum_list (map fn_value (filter (\<lambda>n. fn_kind n = k)
      (gr_nodes (buildFlowGraph fp rows metric role palette visible ctx options)))) =
    metricValue (buildSummary rows) metric"
  using graph_kind_sum [OF assms(2)] kept_amounts [OF assms(1)] by (simp add: summary_metric)

theorem stage_totals_match_summary_witness:
  "sum_list (map fn_value (filter (\<lambda>n. fn_kind n = TokenKind) (gr_nodes chart))) = 6"
proof -
  have "TokenKind \<in> set (resolveVisibleStages UserRole None)" "metricValue (buildSummary sample_usage) Quota = 6"
    by code_simp+
  with stage_totals_match_summary [OF chart_keeps_all this(1)] show ?thesis
    unfolding chart_def by simp
qed

end
