(* ===== verification/FlowLimits.thy ===== *)
theory FlowLimits
  imports FlowConservation
begin

text \<open>
  What the options of the flow chart bound and hide: the top-node limit of \<^verbatim>\<open>buildTopNodeSets\<close> and
  \<^verbatim>\<open>applyTopNodeLimit\<close>, the masking of \<^verbatim>\<open>maskFlowGraphLabels\<close>, and the shares of the links.
\<close>

section \<open>The top nodes of a stage\<close>

type_synonym rank_totals = "(FlowNodeKind \<times> (string \<times> FlowNodeRank) list) list"

lemma add_rank_stages: "set (map fst totals) \<subseteq> set (map fst (add_rank v totals node))"
  by (auto simp: add_rank_def Let_def dom_update split: option.split)

lemma fold_stages:
  assumes "\<And>m x. set (map fst m) \<subseteq> set (map fst (f m x))"
  shows "set (map fst m) \<subseteq> set (map fst (foldl f m xs))"
  using assms by (induction xs arbitrary: m) force+

lemma stage_keys: "set stages \<subseteq> set (map fst (foldl (\<lambda>m stage. AList.update stage [] m) m stages))"
proof (induction stages arbitrary: m)
  case (Cons k stages)
  have "k \<in> set (map fst (AList.update k [] m))" by (simp add: dom_update)
  also have "set (map fst (AList.update k [] m)) \<subseteq>
      set (map fst (foldl (\<lambda>m stage. AList.update stage [] m) (AList.update k [] m) stages))"
    by (rule fold_stages) (auto simp: dom_update)
  finally show ?case using Cons.IH [of "AList.update k [] m"] by simp
qed simp

lemma length_unique: "length (unique xs) \<le> length xs"
  by (metis card_length distinct_card distinct_unique set_unique)

lemma top_sets_bounded:
  assumes "buildTopNodeSets fp rows metric stages (Some n) ctx = Some sets" "k \<in> set stages"
  shows "\<exists>ids. map_of sets k = Some ids \<and> length ids \<le> n"
proof -
  define totals :: rank_totals where "totals = foldl (\<lambda>totals row.
      foldl (add_rank (metricValue (rowMetrics row) metric)) totals (flowPathForStages row stages ctx))
    (foldl (\<lambda>m stage. AList.update stage [] m) [] stages) rows"
  let ?ids = "\<lambda>stageTotals. unique (map (\<lambda>r. pn_id (rk_node r)) (take n (sort_cmp (rank_cmp fp) (map snd stageTotals))))"
  note stage_keys [of stages "[] :: rank_totals"]
  also have "set (map fst (foldl (\<lambda>m stage. AList.update stage [] m) ([] :: rank_totals) stages)) \<subseteq> set (map fst totals)"
    unfolding totals_def by (rule fold_stages, rule fold_stages, rule add_rank_stages)
  finally have "set stages \<subseteq> set (map fst totals)" .
  then obtain t where "map_of totals k = Some t"
    using assms(2) by (cases "map_of totals k") (auto simp: map_of_eq_None_iff)
  moreover have "sets = map (\<lambda>(kind, stageTotals). (kind, ?ids stageTotals)) totals"
    using assms(1) by (simp add: buildTopNodeSets_def Let_def totals_def)
  moreover have "length (?ids t) \<le> n"
    using length_unique [of "map (\<lambda>r. pn_id (rk_node r)) (take n (sort_cmp (rank_cmp fp) (map snd t)))"]
    by (simp add: min.coboundedI2 order_trans)
  ultimately show ?thesis by (simp add: map_of_map comp_def)
qed

lemma limited_nodes:
  assumes "applyTopNodeLimit path (Some sets) mode labeler = Some path'" "node \<in> set path'"
  shows "isTopFlowNode node (Some sets) \<or> mode \<noteq> Hide \<and> pn_id node = OTHER_FLOW_NODE_IDS (pn_kind node)"
  using assms by (auto simp: applyTopNodeLimit_def otherFlowNode_def list_ex_iff split: if_splits)

abbreviation overflow_mode :: "FlowGraphOptions \<Rightarrow> FlowOverflowMode" where
  "overflow_mode options \<equiv> (case go_overflowMode options of None \<Rightarrow> Aggregate | Some m \<Rightarrow> m)"

lemma prepared_path:
  assumes "p \<in> set (prepare_paths rows stages sets mode labeler ctx)"
  obtains row where "row \<in> set rows" "applyTopNodeLimit (flowPathForStages row stages ctx) sets mode labeler = Some (pp_path p)"
  using assms by (auto simp: prepare_paths_def List.map_filter_def split: option.splits)

text \<open>The identifiers that a stage may show under a limit, and how many they are.\<close>

lemma shown_ids:
  assumes "normalizeTopNodeLimit (go_topNodeLimit options) = Some n" "k \<in> set stages"
  obtains ids where "length ids \<le> (if overflow_mode options = Hide then n else Suc n)"
    "\<And>p node. p \<in> set (graph_paths fp rows metric stages ctx options) \<Longrightarrow> node \<in> set (pp_path p) \<Longrightarrow>
      pn_kind node = k \<Longrightarrow> pn_id node \<in> set ids"
proof -
  obtain sets where sets: "buildTopNodeSets fp rows metric stages (Some n) ctx = Some sets"
    by (simp add: buildTopNodeSets_def Let_def)
  obtain ids where ids: "map_of sets k = Some ids" "length ids \<le> n"
    using top_sets_bounded [OF sets assms(2)] by blast
  let ?ids = "if overflow_mode options = Hide then ids else OTHER_FLOW_NODE_IDS k # ids"
  have "pn_id node \<in> set ?ids"
    if p: "p \<in> set (graph_paths fp rows metric stages ctx options)" "node \<in> set (pp_path p)" "pn_kind node = k" for p node
  proof -
    obtain path where "applyTopNodeLimit path (Some sets) (overflow_mode options) (go_otherNodeLabel options) = Some (pp_path p)"
      using p(1) unfolding graph_paths_def assms(1) sets by (rule prepared_path)
    from limited_nodes [OF this p(2)] p(3) ids(1) show ?thesis
      by (auto simp: isTopFlowNode_def)
  qed
  with ids(2) show thesis by (intro that [of ?ids]) auto
qed

lemma kept_nodes:
  assumes "all_ok stages ps" "\<And>p node. p \<in> set ps \<Longrightarrow> node \<in> set (pp_path p) \<Longrightarrow> pn_kind node = k \<Longrightarrow> pn_id node \<in> set ids"
  shows "length (filter (\<lambda>e. fn_kind (snd e) = k) (foldl (node_acc metric) [] (node_items color ps))) \<le> length ids"
proof -
  let ?N = "foldl (node_acc metric) [] (node_items color ps)" and ?K = "\<lambda>e. fn_kind (snd e) = k"
  have "distinct (map fst (filter ?K ?N))"
    using nodes.fold_distinct [of "[]" metric "node_items color ps"] by (simp add: distinct_map_filter)
  then have "length (filter ?K ?N) = card (fst ` set (filter ?K ?N))"
    using distinct_card by fastforce
  also have "fst ` set (filter ?K ?N) \<subseteq> set ids"
  proof
    fix i assume "i \<in> fst ` set (filter ?K ?N)"
    then obtain v where v: "(i, v) \<in> set ?N" "fn_kind v = k" by auto
    have "i \<in> fst ` set ?N" using v(1) by force
    then obtain p node where p: "p \<in> set ps" "node \<in> set (pp_path p)" "i = pn_id node"
      unfolding nodes.fold_keys by (auto simp: node_items_def tagged_def)
    have "of_kind k i" "of_kind (pn_kind node) i"
      using node_entries [OF assms(1), of metric color] v p assms(1) by (auto simp: all_ok_def path_ok_def)
    then show "i \<in> set ids" using assms(2) p of_kind_unique by blast
  qed
  then have "card (fst ` set (filter ?K ?N)) \<le> length ids"
    by (meson List.finite_set card_length card_mono order_trans)
  finally show ?thesis .
qed

text \<open>C22. The top-node limit is kept: when it normalises to n, every visible stage of the chart has at most n nodes when the
overflow is hidden, and at most one more, the remainder node, when it is aggregated.\<close>
theorem top_limit_kept:
  assumes "normalizeTopNodeLimit (go_topNodeLimit options) = Some n" "k \<in> set (resolveVisibleStages role visible)"
  shows "length (filter (\<lambda>node. fn_kind node = k) (gr_nodes (buildFlowGraph fp rows metric role palette visible ctx options))) \<le>
    (if overflow_mode options = Hide then n else n + 1)"
proof -
  let ?g = "buildFlowGraph fp rows metric role palette visible ctx options"
  define ps where "ps = graph_paths fp rows metric (resolveVisibleStages role visible) ctx options"
  obtain color where cores:
    "mset (map node_core (gr_nodes ?g)) = mset (map (node_core \<circ> snd) (foldl (node_acc metric) [] (node_items color ps)))"
    unfolding ps_def by (rule graph_cores)
  obtain ids where ids: "length ids \<le> (if overflow_mode options = Hide then n else Suc n)"
    "\<And>p node. p \<in> set ps \<Longrightarrow> node \<in> set (pp_path p) \<Longrightarrow> pn_kind node = k \<Longrightarrow> pn_id node \<in> set ids"
    unfolding ps_def using shown_ids [OF assms] by blast
  let ?N = "foldl (node_acc metric) [] (node_items color ps)" and ?kind = "\<lambda>core. fst (snd core) = k"
  have "size (filter_mset ?kind (mset (map node_core (gr_nodes ?g)))) =
      size (filter_mset ?kind (mset (map (node_core \<circ> snd) ?N)))"
    by (simp only: cores)
  then have "length (filter (\<lambda>node. fn_kind node = k) (gr_nodes ?g)) = length (filter (\<lambda>e. fn_kind (snd e) = k) ?N)"
    by (simp flip: mset_filter add: filter_map comp_def node_core_def del: mset_map)
  also have "\<dots> \<le> length ids"
    using graph_all_ok ids(2) unfolding ps_def by (rule kept_nodes)
  also note ids(1)
  finally show ?thesis by (simp only: Suc_eq_plus1)
qed

theorem top_limit_kept_witness:
  "length (filter (\<lambda>node. fn_kind node = TokenKind) (gr_nodes chart)) \<le> 2"
proof -
  have limit: "normalizeTopNodeLimit (go_topNodeLimit chart_options) = Some 1" "overflow_mode chart_options = Aggregate"
    by (simp_all add: normalizeTopNodeLimit_def chart_options_def)
  have "TokenKind \<in> set (resolveVisibleStages UserRole None)" by code_simp
  from top_limit_kept [OF limit(1) this] show ?thesis
    unfolding chart_def by (simp add: limit(2) numeral_2_eq_2)
qed

section \<open>Masking\<close>

text \<open>The labels that highlighting, sorting, shares and colours leave alone.\<close>

definition node_tag :: "DashboardFlowNode \<Rightarrow> string \<times> FlowNodeKind \<times> string" where
  "node_tag n = (fn_id n, fn_kind n, fn_label n)"

definition link_tag :: "DashboardFlowLink \<Rightarrow> string \<times> string \<times> string \<times> string" where
  "link_tag l = (fl_source l, fl_target l, fl_sourceLabel l, fl_targetLabel l)"

lemma highlight_tags:
  "map (node_tag \<circ> snd) (fst (applyFlowHighlights ns ls h)) = map (node_tag \<circ> snd) ns"
  "map (link_tag \<circ> snd) (snd (applyFlowHighlights ns ls h)) = map (link_tag \<circ> snd) ls"
  by (simp_all add: applyFlowHighlights_def comp_def split_def node_tag_def link_tag_def split: option.split)

lemma display_tags:
  "map link_tag (assignLinkDisplayColors fp (set_shares sources links)) = map link_tag links"
  by (simp add: assignLinkDisplayColors_def set_shares_def display_link_def Let_def comp_def split_def link_tag_def)

lemma masked_graph_tags:
  fixes fp rows metric role palette visible ctx options
  defines "g \<equiv> buildFlowGraph fp rows metric role palette visible ctx options"
  assumes "go_maskSensitive options"
  obtains nodes links where
    "node_tag ` set (gr_nodes g) = (node_tag \<circ> snd) ` set (fst (maskFlowGraphLabels fp nodes links))"
    "link_tag ` set (gr_links g) = (link_tag \<circ> snd) ` set (snd (maskFlowGraphLabels fp nodes links))"
proof -
  obtain color highlights lit where lit: "lit = (let maps = masked_maps fp options
         (foldl (node_acc metric) [] (node_items color (graph_paths fp rows metric (resolveVisibleStages role visible) ctx options)))
         (foldl (link_acc metric) [] (link_items color (graph_paths fp rows metric (resolveVisibleStages role visible) ctx options)))
       in applyFlowHighlights (fst maps) (snd maps) highlights)"
    and g: "gr_nodes g = sort_cmp (byValueThenLabel fp) (map snd (fst lit))"
    "gr_links g = assignLinkDisplayColors fp (set_shares
       (root_ids (graph_paths fp rows metric (resolveVisibleStages role visible) ctx options))
       (sort_cmp (link_order fp) (map snd (snd lit))))"
    unfolding g_def by (rule graph_parts)
  note tags = arg_cong [OF highlight_tags(1), of set] arg_cong [OF highlight_tags(2), of set]
  have "link_tag ` set (gr_links g) = link_tag ` set (sort_cmp (link_order fp) (map snd (snd lit)))"
    unfolding g using arg_cong [OF display_tags, of set] by simp
  then show thesis
    using assms(2) tags by (intro that) (auto simp: g lit Let_def masked_maps_def image_comp)
qed

definition masked_labels :: "flow_platform \<Rightarrow> DashboardFlowNode list \<Rightarrow> (string \<times> string) list \<Rightarrow> (string \<times> string) list" where
  "masked_labels fp ns m = foldl (\<lambda>m node. if maskable node
     then AList.update (fn_id node) (maskFlowLabel fp (fn_label node)) m else m) m ns"

lemma masked_labels_Cons [simp]:
  "masked_labels fp (n # ns) m =
     masked_labels fp ns (if maskable n then AList.update (fn_id n) (maskFlowLabel fp (fn_label n)) m else m)"
  "masked_labels fp [] m = m"
  by (simp_all add: masked_labels_def)

lemma masked_label_values:
  "ran (map_of m) \<subseteq> {[], fp_mask fp} \<Longrightarrow> ran (map_of (masked_labels fp ns m)) \<subseteq> {[], fp_mask fp}"
proof (induction ns arbitrary: m)
  case (Cons n ns)
  have "ran (map_of (AList.update (fn_id n) (maskFlowLabel fp (fn_label n)) m)) \<subseteq> {[], fp_mask fp}"
    using Cons.prems by (auto simp: update_conv' ran_def maskFlowLabel_def)
  then show ?case using Cons by simp
qed simp

lemma masked_label_keys:
  "n \<in> set ns \<and> maskable n \<or> fn_id n \<in> dom (map_of m) \<Longrightarrow> fn_id n \<in> dom (map_of (masked_labels fp ns m))"
proof (induction ns arbitrary: m)
  case (Cons a ns)
  let ?m = "if maskable a then AList.update (fn_id a) (maskFlowLabel fp (fn_label a)) m else m"
  have "n \<in> set ns \<and> maskable n \<or> fn_id n \<in> dom (map_of ?m)"
    using Cons.prems by (auto simp: update_conv')
  from Cons.IH [OF this] show ?case by simp
qed simp

lemma masked_label:
  assumes "n \<in> set ns" "maskable n"
  shows "\<exists>t. map_of (masked_labels fp ns []) (fn_id n) = Some t \<and> t \<in> {[], fp_mask fp}"
proof -
  obtain t where t: "map_of (masked_labels fp ns []) (fn_id n) = Some t"
    using masked_label_keys [of n ns "[]" fp] assms by auto
  then show ?thesis using masked_label_values [of "[]" fp ns] by (auto simp: ran_def)
qed

lemma tag_member:
  assumes "tag ` A = (tag \<circ> snd) ` B" "x \<in> A"
  obtains k y where "(k, y) \<in> B" "tag y = tag x"
proof -
  have "tag x \<in> (tag \<circ> snd) ` B" using assms by blast
  then show thesis using that by auto
qed

lemma maskable_tag: "node_tag n = node_tag n' \<Longrightarrow> maskable n = maskable n'"
  by (simp add: node_tag_def maskable_def)

lemma mask_nodes:
  assumes "(k, n) \<in> set (fst (maskFlowGraphLabels fp nodes links))" "maskable n"
  shows "fn_label n \<in> {[], fp_mask fp}" "\<exists>n' \<in> set (map snd nodes). maskable n' \<and> fn_id n' = fn_id n"
proof -
  obtain n' where "(k, n') \<in> set nodes" "n = (if maskable n' then n'\<lparr>fn_label := maskFlowLabel fp (fn_label n')\<rparr> else n')"
    using assms(1) by (auto simp: maskFlowGraphLabels_def Let_def)
  moreover from this assms(2) have "maskable n'" by (auto split: if_splits)
  ultimately show "fn_label n \<in> {[], fp_mask fp}" "\<exists>n' \<in> set (map snd nodes). maskable n' \<and> fn_id n' = fn_id n"
    by (auto simp: maskFlowLabel_def intro!: bexI [of _ "(k, n')"])
qed

lemma mask_links:
  assumes "(k, l) \<in> set (snd (maskFlowGraphLabels fp nodes links))" "n \<in> set (map snd nodes)" "maskable n"
  shows "fl_source l = fn_id n \<Longrightarrow> fl_sourceLabel l \<in> {[], fp_mask fp}"
    "fl_target l = fn_id n \<Longrightarrow> fl_targetLabel l \<in> {[], fp_mask fp}"
proof -
  obtain t where t: "map_of (masked_labels fp (map snd nodes) []) (fn_id n) = Some t" "t \<in> {[], fp_mask fp}"
    using masked_label [OF assms(2,3)] by blast
  then have "masked_labels fp (map snd nodes) [] \<noteq> []" by auto
  with t assms(1) show "fl_source l = fn_id n \<Longrightarrow> fl_sourceLabel l \<in> {[], fp_mask fp}"
    "fl_target l = fn_id n \<Longrightarrow> fl_targetLabel l \<in> {[], fp_mask fp}"
    unfolding maskFlowGraphLabels_def Let_def masked_labels_def [symmetric] by auto
qed

text \<open>C23. Hiding sensitive data hides it everywhere: with \<^verbatim>\<open>maskSensitive\<close> set, every user, node, token, group or channel
of the chart that is not a remainder node has an empty label or the mask as its label, and so does every end of a link at it.\<close>
theorem masking_hides_names:
  assumes "go_maskSensitive options" "g = buildFlowGraph fp rows metric role palette visible ctx options"
    and "n \<in> set (gr_nodes g)" "fn_kind n \<noteq> ModelKind" "fn_id n \<notin> set OTHER_FLOW_NODE_ID_SET"
  shows "fn_label n \<in> {[], fp_mask fp} \<and>
    (\<forall>l \<in> set (gr_links g). (fl_source l = fn_id n \<longrightarrow> fl_sourceLabel l \<in> {[], fp_mask fp}) \<and>
      (fl_target l = fn_id n \<longrightarrow> fl_targetLabel l \<in> {[], fp_mask fp}))"
proof -
  obtain nodes links where tags:
    "node_tag ` set (gr_nodes g) = (node_tag \<circ> snd) ` set (fst (maskFlowGraphLabels fp nodes links))"
    "link_tag ` set (gr_links g) = (link_tag \<circ> snd) ` set (snd (maskFlowGraphLabels fp nodes links))"
    unfolding assms(2) using assms(1) by (rule masked_graph_tags)
  have "maskable n"
    using assms(4,5) by (cases "fn_kind n") (simp_all add: maskable_def SENSITIVE_FLOW_KINDS_def)
  moreover obtain k m where m: "(k, m) \<in> set (fst (maskFlowGraphLabels fp nodes links))" "node_tag m = node_tag n"
    using tags(1) assms(3) by (rule tag_member)
  ultimately have "maskable m" using maskable_tag by blast
  then obtain n' where n': "n' \<in> set (map snd nodes)" "maskable n'" "fn_id n' = fn_id n"
    using mask_nodes(2) [OF m(1)] m(2) by (auto simp: node_tag_def)
  have "fl_source l = fn_id n \<longrightarrow> fl_sourceLabel l \<in> {[], fp_mask fp}"
    "fl_target l = fn_id n \<longrightarrow> fl_targetLabel l \<in> {[], fp_mask fp}" if l: "l \<in> set (gr_links g)" for l
  proof -
    obtain k' l' where l': "(k', l') \<in> set (snd (maskFlowGraphLabels fp nodes links))" "link_tag l' = link_tag l"
      using tags(2) l by (rule tag_member)
    show "fl_source l = fn_id n \<longrightarrow> fl_sourceLabel l \<in> {[], fp_mask fp}"
      "fl_target l = fn_id n \<longrightarrow> fl_targetLabel l \<in> {[], fp_mask fp}"
      using mask_links [OF l'(1) n'(1,2)] l'(2) n'(3) by (auto simp: link_tag_def)
  qed
  then show ?thesis
    using mask_nodes(1) [OF m(1) \<open>maskable m\<close>] m(2) by (simp add: node_tag_def)
qed

lemma chart_token: "list_ex (\<lambda>n. fn_id n = ''token:a'' \<and> fn_kind n = TokenKind) (gr_nodes chart)"
  by code_simp

theorem masking_hides_names_witness:
  "\<exists>n \<in> set (gr_nodes chart). fn_id n = ''token:a'' \<and> fn_label n \<in> {[], ''***''}"
proof -
  obtain n where n: "n \<in> set (gr_nodes chart)" "fn_id n = ''token:a''" "fn_kind n = TokenKind"
    using chart_token by (auto simp: list_ex_iff)
  have "go_maskSensitive chart_options" "''token:a'' \<notin> set OTHER_FLOW_NODE_ID_SET" by code_simp+
  with masking_hides_names [OF this(1) chart_def n(1)] n show ?thesis
    by (auto simp: chart_platform_def)
qed

end
