(* ===== verification/ExprText.thy ===== *)
theory ExprText
  imports Prelude "HOL-Library.Monad_Syntax"
begin

text \<open>
  Texts of expressions, as \<^verbatim>\<open>features/pricing/lib/billing-expr.ts\<close> and \<^verbatim>\<open>tier-expr.ts\<close> read and write them: splitting at a
  separator outside brackets, numeric literals, JSON string literals, and the matching of the anchored regular
  expressions of those files. Every such expression is deterministic (what a group matches is fixed by the
  character that must follow it), so matching is a sequence of steps, each of which consumes a prefix.
\<close>

section \<open>Splitting outside brackets\<close>

definition depth_after :: "int \<Rightarrow> char \<Rightarrow> int" where
  "depth_after d c = (if c = CHR ''('' then d + 1 else if c = CHR '')'' then d - 1 else d)"

text \<open>The loops of \<^verbatim>\<open>splitTopLevelMultiply\<close> and \<^verbatim>\<open>splitTopLevelAnd\<close>: \<open>cur\<close> is the text since the last separator.\<close>

fun split_top :: "string \<Rightarrow> int \<Rightarrow> string \<Rightarrow> string \<Rightarrow> string list" where
  "split_top sep d cur [] = [trim cur]"
| "split_top sep d cur (c # cs) =
     (let d' = depth_after d c in
      if d' = 0 \<and> prefix sep (c # cs) then trim cur # split_top sep d' [] (drop (length sep - 1) cs)
      else split_top sep d' (cur @ [c]) cs)"

definition net_depth :: "string \<Rightarrow> int" where
  "net_depth s = foldl depth_after 0 s"

text \<open>No separator starts inside \<open>s\<close> outside brackets, when \<open>s\<close> is read from depth \<open>d\<close>.\<close>

fun quiet :: "string \<Rightarrow> int \<Rightarrow> string \<Rightarrow> bool" where
  "quiet sep d [] = True"
| "quiet sep d (c # cs) = ((depth_after d c \<noteq> 0 \<or> \<not> prefix sep (c # cs)) \<and> quiet sep (depth_after d c) cs)"

lemma depth_after_shift: "depth_after (a + b) c = a + depth_after b c"
  by (simp add: depth_after_def)

lemma foldl_depth: "foldl depth_after d s = d + net_depth s"
proof -
  have "foldl depth_after (a + b) s = a + foldl depth_after b s" for a b
    by (induction s arbitrary: b) (simp_all add: depth_after_shift)
  from this [of d 0] show ?thesis by (simp add: net_depth_def)
qed

lemma net_depth_append [simp]: "net_depth (s @ t) = net_depth s + net_depth t"
  using foldl_depth [of "foldl depth_after 0 s" t] by (simp add: net_depth_def)

lemma net_depth_simps [simp]:
  "net_depth [] = 0"
  "net_depth (c # s) = depth_after 0 c + net_depth s"
  using foldl_depth [of "depth_after 0 c" s] by (simp_all add: net_depth_def)

text \<open>A separator cannot begin inside a text and end after it when the text ends in a character that the
  separator does not have.\<close>

lemma prefix_across:
  assumes "t \<noteq> []" "last t \<notin> set sep" "prefix sep (t @ rest)"
  shows "prefix sep t"
proof (cases "length sep \<le> length t")
  case True
  then show ?thesis using assms(3) by (metis prefix_append prefix_length_prefix prefixI)
next
  case False
  then have "prefix t sep" using assms(3) by (metis nat_le_linear prefixI prefix_length_prefix)
  then have "last t \<in> set sep" using assms(1) last_in_set set_mono_prefix by blast
  with assms(2) show ?thesis by blast
qed

lemma split_top_quiet:
  assumes "quiet sep d s" "s = [] \<or> last s \<notin> set sep"
  shows "split_top sep d cur (s @ rest) = split_top sep (d + net_depth s) (cur @ s) rest"
  using assms
proof (induction s arbitrary: d cur)
  case (Cons c s)
  have "\<not> (depth_after d c = 0 \<and> prefix sep (c # s @ rest))"
    using Cons.prems prefix_across [of "c # s" sep rest] by auto
  then have "split_top sep d cur ((c # s) @ rest) = split_top sep (depth_after d c) (cur @ [c]) (s @ rest)"
    by (auto simp: Let_def)
  moreover have "s = [] \<or> last s \<notin> set sep" using Cons.prems(2) by (auto split: if_splits)
  ultimately show ?case
    using Cons.IH [of "depth_after d c" "cur @ [c]"] Cons.prems(1) depth_after_shift [of d 0 c]
    by (simp add: algebra_simps)
qed simp

lemma split_top_step:
  assumes "quiet sep 0 s" "s = [] \<or> last s \<notin> set sep" "net_depth s = 0" "sep \<noteq> []" "hd sep = CHR '' ''"
  shows "split_top sep 0 [] (s @ sep @ rest) = trim s # split_top sep 0 [] rest"
proof -
  obtain sep' where sep: "sep = CHR '' '' # sep'" using assms(4,5) by (cases sep) auto
  have "split_top sep 0 [] (s @ sep @ rest) = split_top sep 0 s (sep @ rest)"
    using split_top_quiet [OF assms(1,2)] assms(3) by simp
  also have "\<dots> = trim s # split_top sep 0 [] rest"
    by (simp add: sep Let_def depth_after_def)
  finally show ?thesis .
qed

text \<open>The parts of a joined text are found again.\<close>

lemma split_top_join:
  assumes "\<forall>s \<in> set ss. quiet sep 0 s \<and> net_depth s = 0 \<and> s \<noteq> [] \<and> last s \<notin> set sep" "ss \<noteq> []"
    "sep \<noteq> []" "hd sep = CHR '' ''"
  shows "split_top sep 0 [] (join sep ss) = map trim ss"
  using assms
proof (induction sep ss rule: join.induct)
  case (2 sep s)
  then show ?case using split_top_quiet [of sep 0 s "[]" "[]"] by simp
next
  case (3 sep s t ss)
  then show ?case using split_top_step [of sep s "join sep (t # ss)"] by simp
qed simp

section \<open>Brackets\<close>

text \<open>\<open>bal d s\<close>: read inside \<open>d\<close> open brackets, \<open>s\<close> closes none of those outside it and all of its own.\<close>

fun bal :: "nat \<Rightarrow> string \<Rightarrow> bool" where
  "bal d [] = (d = 0)"
| "bal d (c # cs) =
     (if c = CHR ''('' then bal (Suc d) cs
      else if c = CHR '')'' then d > 0 \<and> bal (d - 1) cs
      else bal d cs)"

lemma bal_append: "bal d s \<Longrightarrow> bal e t \<Longrightarrow> bal (d + e) (s @ t)"
  by (induction d s rule: bal.induct) (auto split: if_splits simp: Suc_diff_le)

lemma bal_append0: "bal 0 s \<Longrightarrow> bal d t \<Longrightarrow> bal d (s @ t)"
  using bal_append [of 0 s d t] by simp

lemma bal_plain: "CHR ''('' \<notin> set s \<Longrightarrow> CHR '')'' \<notin> set s \<Longrightarrow> bal 0 s"
  by (induction s) auto

lemma bal_net: "bal d s \<Longrightarrow> net_depth s = - int d"
  by (induction d s rule: bal.induct) (auto simp: depth_after_def split: if_splits)

lemma bal_wrap: "bal 0 s \<Longrightarrow> bal 0 (CHR ''('' # s @ '')'')"
  using bal_append [of 0 s 1 "'')''"] by simp

lemma bal_join: "\<forall>s \<in> set ss. bal 0 s \<Longrightarrow> bal 0 sep \<Longrightarrow> bal 0 (join sep ss)"
  by (induction sep ss rule: join.induct) (simp_all add: bal_append0)

text \<open>Inside an outer pair of brackets no separator is found.\<close>

lemma quiet_inside:
  assumes "bal d s" "e > 0"
  shows "quiet sep (int d + int e) s"
  using assms by (induction d s rule: bal.induct) (auto simp: depth_after_def algebra_simps of_nat_diff split: if_splits)

lemma quiet_append: "quiet sep d (s @ t) \<Longrightarrow> quiet sep (d + net_depth s) t"
proof (induction s arbitrary: d)
  case (Cons c s)
  then show ?case using Cons.IH [of "depth_after d c"] depth_after_shift [of d 0 c] by (simp add: algebra_simps)
qed simp

lemma quiet_absent: "\<not> sublist sep s \<Longrightarrow> quiet sep d s"
proof (induction s arbitrary: d)
  case (Cons c s)
  have "\<not> prefix sep (c # s)" "\<not> sublist sep s"
    using Cons.prems by (auto simp: sublist_Cons_right)
  with Cons.IH show ?case by simp
qed simp

lemma quiet_wrap:
  assumes "bal 0 s" "CHR '')'' \<notin> set sep" "sep \<noteq> []"
  shows "quiet sep 0 (CHR ''('' # s @ '')'')"
proof -
  have inside: "quiet sep (int d + 1) (s @ '')'')" if "bal d s" for d
    using that
  proof (induction d s rule: bal.induct)
    case (1 d)
    then show ?case using assms(2,3) by (cases sep) (auto simp: depth_after_def)
  next
    case (2 d c cs)
    then show ?case by (auto simp: depth_after_def of_nat_diff algebra_simps split: if_splits)
  qed
  from inside [OF assms(1)] show ?thesis by (simp add: depth_after_def)
qed

section \<open>Steps of a match\<close>

text \<open>A literal, a run of characters of a class, and \<^verbatim>\<open>"([^"]+)"\<close>, each matched at the start of a text; the result is
  what was captured and the rest.\<close>

fun lit :: "string \<Rightarrow> string \<Rightarrow> string option" where
  "lit [] s = Some s"
| "lit (p # ps) (c # cs) = (if p = c then lit ps cs else None)"
| "lit (p # ps) [] = None"

definition run_of :: "(char \<Rightarrow> bool) \<Rightarrow> string \<Rightarrow> (string \<times> string) option" where
  "run_of p s = (let xs = takeWhile p s in if xs = [] then None else Some (xs, dropWhile p s))"

definition quote :: char where "quote = CHR 0x22"

definition quoted_name :: "string \<Rightarrow> (string \<times> string) option" where
  "quoted_name s = do {
     s \<leftarrow> lit [quote] s;
     (name, s) \<leftarrow> run_of (\<lambda>c. c \<noteq> quote) s;
     s \<leftarrow> lit [quote] s;
     Some (name, s)
   }"

definition at_end :: "string \<Rightarrow> unit option" where
  "at_end s = (if s = [] then Some () else None)"

lemma lit_append [simp]: "lit p (p @ s) = Some s"
  by (induction p) auto

lemma lit_self [simp]: "lit p p = Some []"
  using lit_append [of p "[]"] by simp

lemma lit_Some: "lit p s = Some r \<longleftrightarrow> s = p @ r"
  by (induction p s rule: lit.induct) auto

lemma run_of_append [simp]:
  assumes "\<forall>c \<in> set xs. p c" "xs \<noteq> []" "s = [] \<or> \<not> p (hd s)"
  shows "run_of p (xs @ s) = Some (xs, s)"
proof -
  have "takeWhile p (xs @ s) = xs" "dropWhile p (xs @ s) = s"
    using assms(1,3) by (cases s; simp add: takeWhile_append dropWhile_append)+
  then show ?thesis using assms(2) by (simp add: run_of_def)
qed

lemma quoted_name_append [simp]:
  assumes "quote \<notin> set name" "name \<noteq> []"
  shows "quoted_name (quote # name @ quote # s) = Some (name, s)"
proof -
  have "run_of (\<lambda>c. c \<noteq> quote) (name @ quote # s) = Some (name, quote # s)"
    using assms by (intro run_of_append) auto
  then show ?thesis by (simp add: quoted_name_def)
qed

section \<open>Numeric literals\<close>

text \<open>The class \<^verbatim>\<open>[\d.eE+-]\<close>.\<close>

definition num_char :: "char \<Rightarrow> bool" where
  "num_char c \<longleftrightarrow> is_digit c \<or> c \<in> set ''.eE+-''"

text \<open>\<^verbatim>\<open>/^-?(?:\d+\.?\d*|\.\d+)(?:[eE][+-]?\d+)?$/\<close>.\<close>

definition digits :: "string \<Rightarrow> bool" where
  "digits s \<longleftrightarrow> s \<noteq> [] \<and> list_all is_digit s"

definition exponent_part :: "string \<Rightarrow> bool" where
  "exponent_part s = (case s of
       [] \<Rightarrow> True
     | e # t \<Rightarrow> (e = CHR ''e'' \<or> e = CHR ''E'') \<and>
         (digits t \<or> (t \<noteq> [] \<and> (hd t = CHR ''+'' \<or> hd t = CHR ''-'') \<and> digits (tl t))))"

definition mantissa_rest :: "string \<Rightarrow> string option" where
  "mantissa_rest s =
     (let rest = dropWhile is_digit s in
      if takeWhile is_digit s \<noteq> [] then
        Some (case rest of c # t \<Rightarrow> if c = CHR ''.'' then dropWhile is_digit t else rest | [] \<Rightarrow> [])
      else (case s of
          c # t \<Rightarrow> if c = CHR ''.'' \<and> takeWhile is_digit t \<noteq> [] then Some (dropWhile is_digit t) else None
        | [] \<Rightarrow> None))"

definition numeric_literal :: "string \<Rightarrow> bool" where
  "numeric_literal s =
     (case mantissa_rest (if s \<noteq> [] \<and> hd s = CHR ''-'' then tl s else s) of
        None \<Rightarrow> False
      | Some rest \<Rightarrow> exponent_part rest)"

lemma digits_num: "digits s \<Longrightarrow> list_all num_char s"
  by (auto simp: digits_def list_all_iff num_char_def)

lemma exponent_num: "exponent_part s \<Longrightarrow> list_all num_char s"
proof (cases s)
  case (Cons e t)
  assume "exponent_part s"
  then have "num_char e" "digits t \<or> (t \<noteq> [] \<and> num_char (hd t) \<and> digits (tl t))"
    by (auto simp: Cons exponent_part_def num_char_def)
  then show ?thesis
    using digits_num [of t] digits_num [of "tl t"] by (cases t) (auto simp: Cons)
qed simp

lemma run_num: "list_all num_char (dropWhile is_digit s) \<Longrightarrow> list_all num_char s"
  by (induction s) (auto simp: num_char_def split: if_splits)

lemma mantissa_num:
  assumes "mantissa_rest s = Some r" "list_all num_char r"
  shows "list_all num_char s \<and> s \<noteq> []"
proof -
  have dot: "num_char CHR ''.''" by (simp add: num_char_def)
  show ?thesis
  proof (cases "takeWhile is_digit s = []")
    case True
    then obtain t where "s = CHR ''.'' # t" "r = dropWhile is_digit t"
      using assms(1) by (auto simp: mantissa_rest_def Let_def split: list.splits if_splits)
    then show ?thesis using run_num assms(2) dot by simp
  next
    case False
    moreover have "list_all num_char (dropWhile is_digit s)"
    proof (cases "dropWhile is_digit s")
      case (Cons c t)
      with False have "r = (if c = CHR ''.'' then dropWhile is_digit t else c # t)"
        using assms(1) by (simp add: mantissa_rest_def)
      then show ?thesis using assms(2) dot run_num [of t] by (auto simp: Cons split: if_splits)
    next
      case Nil
      show ?thesis unfolding Nil by simp
    qed
    ultimately show ?thesis using run_num by auto
  qed
qed

lemma numeric_literal_num:
  assumes "numeric_literal s"
  shows "list_all num_char s \<and> s \<noteq> []"
proof -
  let ?s = "if s \<noteq> [] \<and> hd s = CHR ''-'' then tl s else s"
  obtain r where r: "mantissa_rest ?s = Some r" "exponent_part r"
    using assms by (auto simp: numeric_literal_def split: option.splits)
  have "list_all num_char ?s \<and> ?s \<noteq> []"
    using mantissa_num [OF r(1) exponent_num [OF r(2)]] .
  moreover have "num_char CHR ''-''" by (simp add: num_char_def)
  ultimately show ?thesis by (cases s) (auto split: if_splits)
qed

section \<open>JSON string literals\<close>

text \<open>\<^verbatim>\<open>JSON.stringify\<close> of a string.\<close>

definition hex_char :: "nat \<Rightarrow> char" where
  "hex_char n = (if n < 10 then digit_char n else char_of (87 + n))"

definition escape :: "char \<Rightarrow> string" where
  "escape c =
     (if c = quote then [CHR 0x5C, quote]
      else if c = CHR 0x5C then [CHR 0x5C, CHR 0x5C]
      else if c = CHR 0x08 then [CHR 0x5C, CHR ''b'']
      else if c = CHR 0x0C then [CHR 0x5C, CHR ''f'']
      else if c = CHR 0x0A then [CHR 0x5C, CHR ''n'']
      else if c = CHR 0x0D then [CHR 0x5C, CHR ''r'']
      else if c = CHR 0x09 then [CHR 0x5C, CHR ''t'']
      else if of_char c < (32 :: nat) then
        CHR 0x5C # ''u00'' @ [hex_char (of_char c div 16), hex_char (of_char c mod 16)]
      else [c])"

definition json_quote :: "string \<Rightarrow> string" where
  "json_quote s = quote # concat (map escape s) @ [quote]"

text \<open>\<^verbatim>\<open>JSON.parse\<close> on a text that is a string literal: the characters it denotes, up to the closing quotation mark.\<close>

definition hex_value :: "char \<Rightarrow> nat option" where
  "hex_value c =
     (if is_digit c then Some (digit_val c)
      else if of_char c \<in> {97..102 :: nat} then Some (of_char c - 87)
      else if of_char c \<in> {65..70 :: nat} then Some (of_char c - 55)
      else None)"

definition simple_escape :: "char \<Rightarrow> char option" where
  "simple_escape c = map_of
     [(quote, quote), (CHR 0x5C, CHR 0x5C), (CHR ''/'', CHR ''/''), (CHR ''b'', CHR 0x08), (CHR ''f'', CHR 0x0C),
      (CHR ''n'', CHR 0x0A), (CHR ''r'', CHR 0x0D), (CHR ''t'', CHR 0x09)] c"

fun json_chars :: "string \<Rightarrow> (string \<times> string) option" where
  "json_chars [] = None"
| "json_chars (c # cs) =
     (if c = quote then Some ([], cs)
      else if c = CHR 0x5C then
        (case cs of
           CHR ''u'' # CHR ''0'' # CHR ''0'' # a # b # t \<Rightarrow>
             (case (hex_value a, hex_value b) of
                (Some x, Some y) \<Rightarrow> map_option (apfst ((#) (char_of (16 * x + y)))) (json_chars t)
              | _ \<Rightarrow> None)
         | e # t \<Rightarrow> (case simple_escape e of
             Some x \<Rightarrow> map_option (apfst ((#) x)) (json_chars t) | None \<Rightarrow> None)
         | [] \<Rightarrow> None)
      else if of_char c < (32 :: nat) then None
      else map_option (apfst ((#) c)) (json_chars cs))"

definition json_string_value :: "string \<Rightarrow> string option" where
  "json_string_value s = do {
     s \<leftarrow> lit [quote] s;
     (t, s) \<leftarrow> json_chars s;
     at_end s;
     Some t
   }"

lemma hex_round_trip: "n < 16 \<Longrightarrow> hex_value (hex_char n) = Some n"
proof (cases "n < 10")
  case False
  assume n: "n < 16"
  have "of_char (char_of (87 + n) :: char) = (87 + n) mod 256" by simp
  then have "of_char (char_of (87 + n) :: char) = 87 + n" using n by simp
  then show ?thesis using False n by (simp add: hex_char_def hex_value_def is_digit_def)
qed (simp add: hex_char_def hex_value_def)

lemma json_chars_control:
  assumes "of_char c < (32 :: nat)"
  shows "json_chars (CHR 0x5C # ''u00'' @ [hex_char (of_char c div 16), hex_char (of_char c mod 16)] @ t) =
    map_option (apfst ((#) c)) (json_chars t)"
proof -
  have "char_of (16 * (of_char c div 16 :: nat) + of_char c mod 16) = c" by (simp only: mult_div_mod_eq char_of_char)
  moreover have "of_char c div 16 < (16 :: nat)" "of_char c mod 16 < (16 :: nat)" using assms by simp_all
  ultimately show ?thesis by (simp add: quote_def hex_round_trip)
qed

lemma json_chars_escape: "json_chars (escape c @ t) = map_option (apfst ((#) c)) (json_chars t)"
proof (cases "\<exists>e. escape c = [CHR 0x5C, e]")
  case True
  then show ?thesis by (auto simp: escape_def quote_def simple_escape_def split: if_splits)
next
  case False
  then show ?thesis
    using json_chars_control [of c t] by (auto simp: escape_def split: if_splits)
qed

lemma json_string_round_trip: "json_string_value (json_quote s) = Some s"
proof -
  have "json_chars (concat (map escape s) @ quote # t) = Some (s, t)" for t
    by (induction s) (simp_all add: json_chars_escape del: json_chars.simps(2), simp)
  then show ?thesis by (simp add: json_string_value_def json_quote_def at_end_def)
qed

end
