(* ===== verification/RequestRules.thy ===== *)
theory RequestRules
  imports ExprText
begin

text \<open>
  The request rules of a billing expression, \<^verbatim>\<open>features/pricing/lib/billing-expr.ts\<close>: conditions on a request and on the
  time with a multiplier, their text, the parser of that text, and the separation of rules from the price expression they
  multiply. An exception of \<^verbatim>\<open>JSON.parse\<close> that the code does not catch is the left summand of a result. The argument
  \<open>other\<close> is \<^verbatim>\<open>String(JSON.parse(t))\<close> for a text that is not a string literal (None when it throws or gives null).
\<close>

section \<open>Conditions\<close>

abbreviation MATCH_EQ :: string where "MATCH_EQ \<equiv> ''eq''"
abbreviation MATCH_CONTAINS :: string where "MATCH_CONTAINS \<equiv> ''contains''"
abbreviation MATCH_GT :: string where "MATCH_GT \<equiv> ''gt''"
abbreviation MATCH_GTE :: string where "MATCH_GTE \<equiv> ''gte''"
abbreviation MATCH_LT :: string where "MATCH_LT \<equiv> ''lt''"
abbreviation MATCH_LTE :: string where "MATCH_LTE \<equiv> ''lte''"
abbreviation MATCH_EXISTS :: string where "MATCH_EXISTS \<equiv> ''exists''"
abbreviation MATCH_RANGE :: string where "MATCH_RANGE \<equiv> ''range''"

datatype RequestSource = Param | Header

record ParamHeaderCondition =
  ph_source :: RequestSource
  ph_path :: string
  ph_mode :: string
  ph_value :: string

record TimeCondition =
  tm_timeFunc :: string
  tm_timezone :: string
  tm_mode :: string
  tm_value :: string
  tm_rangeStart :: string
  tm_rangeEnd :: string

datatype RequestCondition = OnRequest ParamHeaderCondition | OnTime TimeCondition

record RequestRuleGroup =
  rg_conditions :: "RequestCondition list"
  rg_multiplier :: string
  rg_conditionText :: "string option"
  rg_matched :: "bool option"

record RequestRuleTrace =
  tr_cond :: string
  tr_multiplier :: rat
  tr_matched :: bool

definition TIME_FUNCS :: "string list" where
  "TIME_FUNCS = [''hour'', ''minute'', ''weekday'', ''month'', ''day'']"

definition rule_group :: "RequestCondition list \<Rightarrow> string \<Rightarrow> RequestRuleGroup" where
  "rule_group cs m = \<lparr>rg_conditions = cs, rg_multiplier = m, rg_conditionText = None, rg_matched = None\<rparr>"

section \<open>The parser\<close>

definition splitTopLevelMultiply :: "string \<Rightarrow> string list" where
  "splitTopLevelMultiply expr = filter (\<lambda>s. s \<noteq> []) (split_top '' * '' 0 [] expr)"

definition splitTopLevelAnd :: "string \<Rightarrow> string list" where
  "splitTopLevelAnd expr = filter (\<lambda>s. s \<noteq> []) (split_top '' && '' 0 [] expr)"

definition parseExprLiteral :: "(string \<Rightarrow> string option) \<Rightarrow> string \<Rightarrow> string option" where
  "parseExprLiteral other raw =
     (let t = trim raw in
      if t = ''true'' \<or> t = ''false'' then Some t
      else if numeric_literal t then Some t
      else (case json_string_value t of Some v \<Rightarrow> Some v | None \<Rightarrow> other t))"

text \<open>\<^verbatim>\<open>(hour|minute|weekday|month|day)\("([^"]+)"\)\<close>.\<close>

definition time_call :: "string \<Rightarrow> (string \<times> string \<times> string) option" where
  "time_call s =
     (case List.find (\<lambda>f. prefix (f @ ''('') s) TIME_FUNCS of
        None \<Rightarrow> None
      | Some f \<Rightarrow> do {
          s \<leftarrow> lit (f @ ''('') s;
          (tz, s) \<leftarrow> quoted_name s;
          s \<leftarrow> lit '')'' s;
          Some (f, tz, s)
        })"

definition time_range :: "string \<Rightarrow> string \<Rightarrow> TimeCondition option" where
  "time_range closing s = do {
     (f, tz, s) \<leftarrow> time_call s;
     s \<leftarrow> lit '' >= '' s;
     (a, s) \<leftarrow> run_of num_char s;
     s \<leftarrow> lit ('' || '' @ f @ ''('' @ [quote] @ tz @ [quote] @ '') < '') s;
     (b, s) \<leftarrow> run_of num_char s;
     s \<leftarrow> lit closing s;
     at_end s;
     Some \<lparr>tm_timeFunc = f, tm_timezone = tz, tm_mode = MATCH_RANGE, tm_value = [], tm_rangeStart = a, tm_rangeEnd = b\<rparr>
   }"

text \<open>\<^verbatim>\<open>(op1|op2|...) ([\d.eE+-]+)$\<close>: the operator, as the mode it stands for, and the number.\<close>

definition operator_num :: "(string \<times> string) list \<Rightarrow> string \<Rightarrow> (string \<times> string) option" where
  "operator_num ops s =
     (case List.find (\<lambda>(op, mode). prefix ('' '' @ op @ '' '') s) ops of
        None \<Rightarrow> None
      | Some (op, mode) \<Rightarrow> do {
          s \<leftarrow> lit ('' '' @ op @ '' '') s;
          (v, s) \<leftarrow> run_of num_char s;
          at_end s;
          Some (mode, v)
        })"

definition time_compare :: "string \<Rightarrow> TimeCondition option" where
  "time_compare s = do {
     (f, tz, s) \<leftarrow> time_call s;
     (mode, v) \<leftarrow> operator_num [(''=='', MATCH_EQ), (''>='', MATCH_GTE), (''<'', MATCH_LT)] s;
     Some \<lparr>tm_timeFunc = f, tm_timezone = tz, tm_mode = mode, tm_value = v, tm_rangeStart = [], tm_rangeEnd = []\<rparr>
   }"

definition tryParseTimeCondition :: "string \<Rightarrow> TimeCondition option" where
  "tryParseTimeCondition expr =
     or_else (time_range [] expr)
       (or_else (case expr of c # s \<Rightarrow> if c = CHR ''('' then time_range '')'' s else None | [] \<Rightarrow> None)
          (time_compare expr))"

text \<open>\<^verbatim>\<open>param("...")\<close> or \<^verbatim>\<open>header("...")\<close>: the path and the rest.\<close>

definition source_name :: "RequestSource \<Rightarrow> string" where
  "source_name src = (case src of Param \<Rightarrow> ''param'' | Header \<Rightarrow> ''header'')"

definition source_call :: "RequestSource \<Rightarrow> string \<Rightarrow> (string \<times> string) option" where
  "source_call src s = do {
     s \<leftarrow> lit (source_name src @ ''('') s;
     (path, s) \<leftarrow> quoted_name s;
     s \<leftarrow> lit '')'' s;
     Some (path, s)
   }"

definition request_condition :: "RequestSource \<Rightarrow> string \<Rightarrow> string \<Rightarrow> string \<Rightarrow> RequestCondition" where
  "request_condition src path mode v = OnRequest \<lparr>ph_source = src, ph_path = path, ph_mode = mode, ph_value = v\<rparr>"

text \<open>\<^verbatim>\<open>"(?:[^"\\]|\\.)*"\<close>: the literal with its quotation marks, and the rest.\<close>

fun literal_body :: "string \<Rightarrow> (string \<times> string) option" where
  "literal_body [] = None"
| "literal_body (c # cs) =
     (if c = quote then Some ([c], cs)
      else if c = CHR 0x5C then
        (case cs of
           e # t \<Rightarrow> if e = CHR 0x0A \<or> e = CHR 0x0D then None
             else map_option (apfst (\<lambda>l. c # e # l)) (literal_body t)
         | [] \<Rightarrow> None)
      else map_option (apfst ((#) c)) (literal_body cs))"

definition string_literal :: "string \<Rightarrow> (string \<times> string) option" where
  "string_literal s = do {
     s \<leftarrow> lit [quote] s;
     (l, s) \<leftarrow> literal_body s;
     Some (quote # l, s)
   }"

datatype json_error = SyntaxError

type_synonym 'a parsed = "json_error + 'a option"

text \<open>\<^verbatim>\<open>JSON.parse\<close> of a matched literal, not guarded by a \<^verbatim>\<open>try\<close>.\<close>

definition contains_condition :: "RequestSource \<Rightarrow> string \<Rightarrow> string \<Rightarrow> RequestCondition parsed" where
  "contains_condition src path l =
     (case json_string_value l of
        None \<Rightarrow> Inl SyntaxError
      | Some v \<Rightarrow> Inr (Some (request_condition src path MATCH_CONTAINS v)))"

definition header_exists :: "string \<Rightarrow> RequestCondition option" where
  "header_exists s = do {
     (path, s) \<leftarrow> source_call Header s;
     s \<leftarrow> lit ('' != '' @ [quote, quote]) s;
     at_end s;
     Some (request_condition Header path MATCH_EXISTS [])
   }"

definition param_exists :: "string \<Rightarrow> RequestCondition option" where
  "param_exists s = do {
     (path, s) \<leftarrow> source_call Param s;
     s \<leftarrow> lit '' != nil'' s;
     at_end s;
     Some (request_condition Param path MATCH_EXISTS [])
   }"

definition has_call :: "RequestSource \<Rightarrow> string \<Rightarrow> (string \<times> string) option" where
  "has_call src s = do {
     s \<leftarrow> lit ''has('' s;
     (path, s) \<leftarrow> source_call src s;
     s \<leftarrow> lit '', '' s;
     (l, s) \<leftarrow> string_literal s;
     s \<leftarrow> lit '')'' s;
     at_end s;
     Some (path, l)
   }"

definition guarded_param :: "string \<Rightarrow> (string \<times> string) option" where
  "guarded_param s = do {
     (path, s) \<leftarrow> source_call Param s;
     s \<leftarrow> lit '' != nil && '' s;
     Some (path, s)
   }"

definition guarded_has :: "string \<Rightarrow> (string \<times> string) option" where
  "guarded_has s = do {
     (p, s) \<leftarrow> guarded_param s;
     (q, l) \<leftarrow> has_call Param s;
     if p = q then Some (p, l) else None
   }"

definition guarded_compare :: "string \<Rightarrow> RequestCondition option" where
  "guarded_compare s = do {
     (p, s) \<leftarrow> guarded_param s;
     (q, s) \<leftarrow> source_call Param s;
     (mode, v) \<leftarrow> operator_num [(''>'', MATCH_GT), (''>='', MATCH_GTE), (''<'', MATCH_LT), (''<='', MATCH_LTE)] s;
     if p = q then Some (request_condition Param p mode v) else None
   }"

text \<open>\<^verbatim>\<open>^(param|header)\("([^"]+)"\) == (.+)$\<close>: the dot does not match the end of a line.\<close>

definition equals_call :: "string \<Rightarrow> (RequestSource \<times> string \<times> string) option" where
  "equals_call s = do {
     (src, path, s) \<leftarrow> or_else (map_option (Pair Param) (source_call Param s)) (map_option (Pair Header) (source_call Header s));
     s \<leftarrow> lit '' == '' s;
     if s \<noteq> [] \<and> CHR 0x0A \<notin> set s \<and> CHR 0x0D \<notin> set s then Some (src, path, s) else None
   }"

definition tryParseRequestCondition :: "(string \<Rightarrow> string option) \<Rightarrow> string \<Rightarrow> RequestCondition parsed" where
  "tryParseRequestCondition other expr =
     (case or_else (map_option OnTime (tryParseTimeCondition expr)) (or_else (header_exists expr) (param_exists expr)) of
        Some cond \<Rightarrow> Inr (Some cond)
      | None \<Rightarrow>
      (case has_call Header expr of
        Some (path, l) \<Rightarrow> contains_condition Header path l
      | None \<Rightarrow>
      (case guarded_has expr of
        Some (path, l) \<Rightarrow> contains_condition Param path l
      | None \<Rightarrow>
      (case guarded_compare expr of
        Some cond \<Rightarrow> Inr (Some cond)
      | None \<Rightarrow>
      (case equals_call expr of
        Some (src, path, raw) \<Rightarrow> Inr (map_option (request_condition src path MATCH_EQ) (parseExprLiteral other raw))
      | None \<Rightarrow> Inr None)))))"

fun parse_parts :: "(string \<Rightarrow> 'a parsed) \<Rightarrow> string list \<Rightarrow> 'a list parsed" where
  "parse_parts parse [] = Inr (Some [])"
| "parse_parts parse (part # parts) =
     (case parse part of
        Inl e \<Rightarrow> Inl e
      | Inr None \<Rightarrow> Inr None
      | Inr (Some x) \<Rightarrow> (case parse_parts parse parts of
          Inr (Some xs) \<Rightarrow> Inr (Some (x # xs)) | r \<Rightarrow> r))"

definition tryParseRequestConditions :: "(string \<Rightarrow> string option) \<Rightarrow> string \<Rightarrow> RequestCondition list parsed" where
  "tryParseRequestConditions other conditionStr =
     (case parse_parts (\<lambda>part. tryParseRequestCondition other (trim part)) (splitTopLevelAnd conditionStr) of
        Inr (Some []) \<Rightarrow> Inr None
      | r \<Rightarrow> r)"

text \<open>\<^verbatim>\<open>^\((.+) \? ([\d.eE+-]+) : 1\)$\<close> with the flag \<^verbatim>\<open>s\<close>: what precedes the last number and the number.\<close>

definition factor_parts :: "string \<Rightarrow> (string \<times> string) option" where
  "factor_parts s = do {
     s \<leftarrow> lit ''('' s;
     r \<leftarrow> lit (rev '' : 1)'') (rev s);
     (m, r) \<leftarrow> run_of num_char r;
     r \<leftarrow> lit (rev '' ? '') r;
     if r = [] then None else Some (rev r, rev m)
   }"

definition tryParseRuleGroupFactor :: "(string \<Rightarrow> string option) \<Rightarrow> string \<Rightarrow> RequestRuleGroup parsed" where
  "tryParseRuleGroupFactor other part =
     (case factor_parts part of
        None \<Rightarrow> Inr None
      | Some (cond, multiplier) \<Rightarrow>
          map_sum id (map_option (\<lambda>cs. rule_group cs multiplier)) (tryParseRequestConditions other cond))"

definition tryParseRequestRuleExpr :: "(string \<Rightarrow> string option) \<Rightarrow> string \<Rightarrow> RequestRuleGroup list parsed" where
  "tryParseRequestRuleExpr other expr =
     (if trim expr = [] then Inr (Some [])
      else parse_parts (tryParseRuleGroupFactor other) (splitTopLevelMultiply (trim expr)))"

fun requestRuleGroupsFromTrace ::
  "(string \<Rightarrow> string option) \<Rightarrow> (rat \<Rightarrow> string) \<Rightarrow> RequestRuleTrace list \<Rightarrow> json_error + RequestRuleGroup list" where
  "requestRuleGroupsFromTrace other show_num [] = Inr []"
| "requestRuleGroupsFromTrace other show_num (rule # rules) =
     (case tryParseRequestConditions other (trim (tr_cond rule)) of
        Inl e \<Rightarrow> Inl e
      | Inr cs \<Rightarrow>
          map_sum id ((#) \<lparr>rg_conditions = (case cs of None \<Rightarrow> [] | Some xs \<Rightarrow> xs),
              rg_multiplier = show_num (tr_multiplier rule), rg_conditionText = Some (trim (tr_cond rule)),
              rg_matched = Some (tr_matched rule)\<rparr>)
            (requestRuleGroupsFromTrace other show_num rules))"

section \<open>Rules and price expression\<close>

fun full_outer :: "int \<Rightarrow> string \<Rightarrow> bool" where
  "full_outer d [] = (d = 0)"
| "full_outer d (c # cs) = (if depth_after d c = 0 \<and> cs \<noteq> [] then False else full_outer (depth_after d c) cs)"

definition hasFullOuterParens :: "string \<Rightarrow> bool" where
  "hasFullOuterParens expr \<longleftrightarrow> prefix ''('' expr \<and> suffix '')'' expr \<and> full_outer 0 expr"

definition peel :: "string \<Rightarrow> string" where
  "peel s = trim (butlast (tl s))"

lemma length_trim: "length (trim_by p xs) \<le> length xs"
  by (simp add: trim_by_def) (metis length_dropWhile_le length_rev order_trans)

function unwrap_loop :: "string \<Rightarrow> string" where
  "unwrap_loop current = (if hasFullOuterParens current then unwrap_loop (peel current) else current)"
  by pat_completeness auto
termination
proof (relation "measure length")
  fix s assume "hasFullOuterParens s"
  then have "s \<noteq> []" by (auto simp: hasFullOuterParens_def)
  then show "(peel s, s) \<in> measure length"
    using length_trim [of is_ws "butlast (tl s)"] by (cases s) (auto simp: peel_def)
qed simp

declare unwrap_loop.simps [simp del]

definition unwrapOuterParens :: "string \<Rightarrow> string" where
  "unwrapOuterParens expr = unwrap_loop (trim expr)"

text \<open>The parts that parse as rules, and the others.\<close>

fun sort_parts :: "(string \<Rightarrow> string option) \<Rightarrow> string list \<Rightarrow> json_error + (string list \<times> string list)" where
  "sort_parts other [] = Inr ([], [])"
| "sort_parts other (part # parts) =
     (case tryParseRequestRuleExpr other part of
        Inl e \<Rightarrow> Inl e
      | Inr parsed \<Rightarrow>
          map_sum id (\<lambda>(rules, bases).
            if parsed \<noteq> None \<and> parsed \<noteq> Some [] then (part # rules, bases) else (rules, part # bases))
          (sort_parts other parts))"

definition splitBillingExprAndRequestRules :: "(string \<Rightarrow> string option) \<Rightarrow> string \<Rightarrow> json_error + (string \<times> string)" where
  "splitBillingExprAndRequestRules other expr =
     (let trimmed = trim expr; parts = splitTopLevelMultiply trimmed in
      if trimmed = [] then Inr ([], [])
      else if length parts \<le> 1 then Inr (trimmed, [])
      else map_sum id (\<lambda>(ruleParts, baseParts).
        if ruleParts = [] \<or> length baseParts \<noteq> 1 then (trimmed, [])
        else (unwrapOuterParens (hd baseParts), join '' * '' ruleParts)) (sort_parts other parts))"

definition combineBillingExpr :: "string \<Rightarrow> string \<Rightarrow> string" where
  "combineBillingExpr baseExpr requestRuleExpr =
     (let base = trim baseExpr; rules = trim requestRuleExpr in
      if base = [] then [] else if rules = [] then base else ''('' @ base @ '') * '' @ rules)"

section \<open>The editor\<close>

definition createEmptyCondition :: ParamHeaderCondition where
  "createEmptyCondition = \<lparr>ph_source = Param, ph_path = [], ph_mode = MATCH_EQ, ph_value = []\<rparr>"

definition createEmptyTimeCondition :: TimeCondition where
  "createEmptyTimeCondition = \<lparr>tm_timeFunc = ''hour'', tm_timezone = ''Asia/Shanghai'', tm_mode = MATCH_GTE,
     tm_value = [], tm_rangeStart = [], tm_rangeEnd = []\<rparr>"

definition createEmptyRuleGroup :: RequestRuleGroup where
  "createEmptyRuleGroup = rule_group [OnRequest createEmptyCondition] []"

definition createEmptyTimeRuleGroup :: RequestRuleGroup where
  "createEmptyTimeRuleGroup = rule_group [OnTime createEmptyTimeCondition] []"

text \<open>The modes a source offers, with their labels.\<close>

definition getRequestRuleMatchOptions :: "string \<Rightarrow> (string \<times> string) list" where
  "getRequestRuleMatchOptions src =
     (if src = ''time'' then
        [(MATCH_EQ, ''Equals''), (MATCH_GTE, ''Greater than or equal''), (MATCH_LT, ''Less than''),
         (MATCH_RANGE, ''Overnight range'')]
      else (let base = [(MATCH_EQ, ''Equals''), (MATCH_CONTAINS, ''Contains''), (MATCH_EXISTS, ''Exists'')] in
        if src = ''header'' then base
        else base @ [(MATCH_GT, ''Greater than''), (MATCH_GTE, ''Greater than or equal''), (MATCH_LT, ''Less than''),
          (MATCH_LTE, ''Less than or equal'')]))"

text \<open>\<^verbatim>\<open>Partial<RequestCondition>\<close>: any field may be missing.\<close>

record PartialCondition =
  pc_source :: "string option"
  pc_path :: "string option"
  pc_mode :: "string option"
  pc_value :: "string option"
  pc_timeFunc :: "string option"
  pc_timezone :: "string option"
  pc_rangeStart :: "string option"
  pc_rangeEnd :: "string option"

definition partial_of :: "RequestCondition \<Rightarrow> PartialCondition" where
  "partial_of cond =
     (case cond of
        OnRequest c \<Rightarrow> \<lparr>pc_source = Some (source_name (ph_source c)), pc_path = Some (ph_path c), pc_mode = Some (ph_mode c),
          pc_value = Some (ph_value c), pc_timeFunc = None, pc_timezone = None, pc_rangeStart = None, pc_rangeEnd = None\<rparr>
      | OnTime c \<Rightarrow> \<lparr>pc_source = Some ''time'', pc_path = None, pc_mode = Some (tm_mode c), pc_value = Some (tm_value c),
          pc_timeFunc = Some (tm_timeFunc c), pc_timezone = Some (tm_timezone c), pc_rangeStart = Some (tm_rangeStart c),
          pc_rangeEnd = Some (tm_rangeEnd c)\<rparr>)"

definition no_fields :: PartialCondition where
  "no_fields = \<lparr>pc_source = None, pc_path = None, pc_mode = None, pc_value = None, pc_timeFunc = None,
     pc_timezone = None, pc_rangeStart = None, pc_rangeEnd = None\<rparr>"

definition isTimeFunc :: "string option \<Rightarrow> bool" where
  "isTimeFunc v \<longleftrightarrow> (case v of None \<Rightarrow> False | Some s \<Rightarrow> s \<in> set TIME_FUNCS)"

definition text_or :: "string option \<Rightarrow> string \<Rightarrow> string" where
  "text_or v d = (case v of None \<Rightarrow> d | Some s \<Rightarrow> if s = [] then d else s)"

definition offered_mode :: "string \<Rightarrow> string option \<Rightarrow> string \<Rightarrow> string" where
  "offered_mode src mode fallback =
     (case mode of Some m \<Rightarrow> (if m \<in> set (map fst (getRequestRuleMatchOptions src)) then m else fallback) | None \<Rightarrow> fallback)"

definition normalizeCondition :: "PartialCondition option \<Rightarrow> RequestCondition" where
  "normalizeCondition given =
     (let cond = (case given of Some c \<Rightarrow> c | None \<Rightarrow> no_fields) in
      if pc_source cond = Some ''time'' then
        OnTime \<lparr>tm_timeFunc = (if isTimeFunc (pc_timeFunc cond) then the (pc_timeFunc cond) else ''hour''),
          tm_timezone = text_or (pc_timezone cond) ''Asia/Shanghai'',
          tm_mode = offered_mode ''time'' (pc_mode cond) MATCH_GTE,
          tm_value = text_or (pc_value cond) [],
          tm_rangeStart = text_or (pc_rangeStart cond) [],
          tm_rangeEnd = text_or (pc_rangeEnd cond) []\<rparr>
      else (let src = (if pc_source cond = Some ''header'' then Header else Param) in
        OnRequest \<lparr>ph_source = src, ph_path = text_or (pc_path cond) [],
          ph_mode = offered_mode (source_name src) (pc_mode cond) MATCH_EQ,
          ph_value = text_or (pc_value cond) []\<rparr>))"

section \<open>The printer\<close>

definition buildExprLiteral :: "string \<Rightarrow> string \<Rightarrow> string" where
  "buildExprLiteral mode v =
     (let t = trim v in
      if mode = MATCH_CONTAINS then json_quote t
      else if t = ''true'' \<or> t = ''false'' then t
      else if numeric_literal t then t
      else json_quote t)"

definition buildTimeConditionExpr :: "TimeCondition \<Rightarrow> string" where
  "buildTimeConditionExpr cond =
     (case normalizeCondition (Some (partial_of (OnTime cond))) of
        OnRequest _ \<Rightarrow> []
      | OnTime n \<Rightarrow>
        (let fn = tm_timeFunc n @ ''('' @ json_quote (tm_timezone n) @ '')'' in
         if tm_mode n = MATCH_RANGE then
           (let s = trim (tm_rangeStart n); e = trim (tm_rangeEnd n) in
            if \<not> numeric_literal s \<or> \<not> numeric_literal e then []
            else fn @ '' >= '' @ s @ '' || '' @ fn @ '' < '' @ e)
         else (let v = trim (tm_value n) in
            if \<not> numeric_literal v then []
            else fn @ '' '' @ (if tm_mode n = MATCH_GTE then ''>='' else if tm_mode n = MATCH_LT then ''<'' else ''=='') @
              '' '' @ v)))"

definition compare_op :: "string \<Rightarrow> string" where
  "compare_op mode = (if mode = MATCH_GT then ''>'' else if mode = MATCH_GTE then ''>='' else if mode = MATCH_LT then ''<''
     else ''<='')"

definition buildRequestConditionExpr :: "RequestCondition \<Rightarrow> string" where
  "buildRequestConditionExpr cond =
     (case cond of
        OnTime c \<Rightarrow> buildTimeConditionExpr c
      | OnRequest c \<Rightarrow>
        (case normalizeCondition (Some (partial_of (OnRequest c))) of
           OnTime _ \<Rightarrow> []
         | OnRequest n \<Rightarrow>
           (let path = trim (ph_path n); src = source_name (ph_source n) @ ''('' @ json_quote path @ '')'' in
            if path = [] then []
            else if ph_mode n = MATCH_EXISTS then
              (if ph_source n = Header then src @ '' != '' @ [quote, quote] else src @ '' != nil'')
            else if ph_mode n = MATCH_CONTAINS then
              (if ph_source n = Header then ''has('' @ src @ '', '' @ buildExprLiteral (ph_mode n) (ph_value n) @ '')''
               else src @ '' != nil && has('' @ src @ '', '' @ buildExprLiteral (ph_mode n) (ph_value n) @ '')'')
            else if ph_mode n \<in> {MATCH_GT, MATCH_GTE, MATCH_LT, MATCH_LTE} then
              (let v = trim (ph_value n) in
               if \<not> numeric_literal v then []
               else src @ '' != nil && '' @ src @ '' '' @ compare_op (ph_mode n) @ '' '' @ v)
            else src @ '' == '' @ buildExprLiteral (ph_mode n) (ph_value n))))"

definition buildRuleGroupFactor :: "RequestRuleGroup \<Rightarrow> string" where
  "buildRuleGroupFactor g =
     (let multiplier = trim (rg_multiplier g);
          condExprs = filter (\<lambda>e. e \<noteq> []) (map buildRequestConditionExpr (rg_conditions g)) in
      if \<not> numeric_literal multiplier \<or> condExprs = [] then []
      else (let combined = (case condExprs of
              [e] \<Rightarrow> e
            | _ \<Rightarrow> join '' && '' (map (\<lambda>e. if str_includes e '' || '' then ''('' @ e @ '')'' else e) condExprs)) in
        ''('' @ combined @ '' ? '' @ multiplier @ '' : 1)''))"

definition buildRequestRuleExpr :: "RequestRuleGroup list \<Rightarrow> string" where
  "buildRequestRuleExpr groups = join '' * '' (filter (\<lambda>e. e \<noteq> []) (map buildRuleGroupFactor groups))"

end
