(* ===== verification/RulesRoundTrip.thy ===== *)
theory RulesRoundTrip
  imports RequestRules
begin

text \<open>
  What the printer of request rules writes, the parser reads back, for every condition whose text the parser can take apart;
  and the conditions for which it cannot: comparisons and containment of a request parameter.
\<close>

section \<open>Texts\<close>

definition name_ok :: "string \<Rightarrow> bool" where
  "name_ok s \<longleftrightarrow> s \<noteq> [] \<and> trimmed_by is_ws s \<and> (\<forall>c \<in> set s. escape c = [c] \<and> c \<notin> set ''&|'') \<and> bal 0 s"

lemma name_ok_quote: "name_ok s \<Longrightarrow> json_quote s = quote # s @ [quote]"
proof -
  assume "name_ok s"
  then have "map escape s = map (\<lambda>c. [c]) s" by (simp add: name_ok_def)
  then show ?thesis unfolding json_quote_def by (simp only: concat_map_singleton append_Nil2 list.map_ident)
qed

lemma name_ok_facts:
  assumes "name_ok s"
  shows "quote \<notin> set s" "s \<noteq> []" "trim s = s" "bal 0 s"
proof -
  have "escape quote \<noteq> [quote]" by (simp add: escape_def)
  then show "quote \<notin> set s" using assms unfolding name_ok_def by blast
  show "s \<noteq> []" "trim s = s" "bal 0 s" using assms by (simp_all add: name_ok_def)
qed

lemma hex_char_code:
  "n < 16 \<Longrightarrow> 48 \<le> (of_char (hex_char n) :: nat) \<and> of_char (hex_char n) \<le> (102 :: nat) \<and> of_char (hex_char n) \<noteq> (92 :: nat)"
  by (cases "n < 10") (simp_all add: hex_char_def digit_char_def)

lemma escape_chars:
  assumes "c \<in> set (escape d)"
  shows "c = d \<and> 32 \<le> (of_char c :: nat) \<or> c = quote \<or> c = CHR 0x5C \<or>
    48 \<le> (of_char c :: nat) \<and> of_char c \<le> (117 :: nat)"
proof (cases "c \<in> {hex_char (of_char d div 16), hex_char (of_char d mod 16)} \<and> of_char d < (32 :: nat)")
  case True
  then have "of_char d div 16 < (16 :: nat)" by (intro less_mult_imp_div_less) simp
  then show ?thesis
    using True hex_char_code [of "of_char d div 16"] hex_char_code [of "of_char d mod 16"] by auto
next
  case False
  then show ?thesis using assms by (auto simp: escape_def split: if_splits)
qed

lemma escape_shape:
  "escape c = [c] \<and> c \<noteq> quote \<and> c \<noteq> CHR 0x5C \<or>
   (\<exists>e es. escape c = CHR 0x5C # e # es \<and> e \<noteq> CHR 0x0A \<and> e \<noteq> CHR 0x0D \<and> (\<forall>x \<in> set es. x \<noteq> quote \<and> x \<noteq> CHR 0x5C))"
proof (cases "escape c = CHR 0x5C # ''u00'' @ [hex_char (of_char c div 16), hex_char (of_char c mod 16)] \<and> of_char c < (32 :: nat)")
  case True
  then have "of_char c div 16 < (16 :: nat)" by (intro less_mult_imp_div_less) simp
  then show ?thesis
    using True hex_char_code [of "of_char c div 16"] hex_char_code [of "of_char c mod 16"] by (auto simp: quote_def)
next
  case False
  then show ?thesis by (auto simp: escape_def quote_def split: if_splits)
qed

lemma literal_steps:
  "literal_body (quote # t) = Some ([quote], t)"
  "c \<noteq> quote \<Longrightarrow> c \<noteq> CHR 0x5C \<Longrightarrow> literal_body (c # t) = map_option (apfst ((#) c)) (literal_body t)"
  "e \<noteq> CHR 0x0A \<Longrightarrow> e \<noteq> CHR 0x0D \<Longrightarrow>
    literal_body (CHR 0x5C # e # t) = map_option (apfst (\<lambda>l. CHR 0x5C # e # l)) (literal_body t)"
  by (simp_all add: quote_def)

declare literal_body.simps(2) [simp del]

lemma literal_run:
  "\<forall>x \<in> set es. x \<noteq> quote \<and> x \<noteq> CHR 0x5C \<Longrightarrow> literal_body (es @ t) = map_option (apfst ((@) es)) (literal_body t)"
  by (induction es; cases "literal_body t") (simp_all add: literal_steps prod_eq_iff)

lemma literal_body_escape: "literal_body (escape c @ t) = map_option (apfst ((@) (escape c))) (literal_body t)"
  using escape_shape [of c]
proof (elim disjE conjE exE)
  fix e es assume "escape c = CHR 0x5C # e # es" "e \<noteq> CHR 0x0A" "e \<noteq> CHR 0x0D" "\<forall>x \<in> set es. x \<noteq> quote \<and> x \<noteq> CHR 0x5C"
  then show ?thesis using literal_run [of es t] by (cases "literal_body t") (simp_all add: literal_steps prod_eq_iff)
next
  assume "escape c = [c]" "c \<noteq> quote" "c \<noteq> CHR 0x5C"
  then show ?thesis using literal_run [of "[c]" t] by simp
qed

lemma string_literal_quote: "string_literal (json_quote v @ t) = Some (json_quote v, t)"
proof -
  have "literal_body (concat (map escape v) @ quote # t) = Some (concat (map escape v) @ [quote], t)"
    by (induction v) (simp_all add: literal_body_escape literal_steps)
  then show ?thesis by (simp add: string_literal_def json_quote_def)
qed

lemma source_call_quote:
  "name_ok path \<Longrightarrow> source_call src (source_name src @ ''('' @ json_quote path @ '')'' @ t) = Some (path, t)"
  by (cases src) (simp_all add: source_call_def source_name_def name_ok_quote name_ok_facts)

lemma source_call_other:
  "source_call Param (source_name Header @ t) = None"
  "source_call Header (source_name Param @ t) = None"
  by (simp_all add: source_call_def source_name_def)

lemma time_call_quote:
  assumes "f \<in> set TIME_FUNCS" "name_ok tz"
  shows "time_call (f @ ''('' @ json_quote tz @ '')'' @ t) = Some (f, tz, t)"
  using assms by (auto simp: TIME_FUNCS_def time_call_def name_ok_quote name_ok_facts)

lemma time_call_other: "time_call (source_name src @ t) = None" "time_call (''has('' @ t) = None"
  by (cases src; simp add: time_call_def TIME_FUNCS_def source_name_def)+

lemma run_num_token:
  assumes "numeric_literal v" "s = [] \<or> \<not> num_char (hd s)"
  shows "run_of num_char (v @ s) = Some (v, s)"
  using numeric_literal_num [OF assms(1)] assms(2) by (intro run_of_append) (auto simp: list_all_iff)

section \<open>Canonical conditions\<close>

text \<open>A condition in the form in which the parser returns it, with texts that do not disturb the counting of brackets. The
  characters of the operators are excluded from texts, because both the printer and the parser look for the operators inside
  string literals as well.\<close>

definition value_ok :: "string \<Rightarrow> bool" where
  "value_ok v \<longleftrightarrow> trimmed_by is_ws v \<and> bal 0 v \<and> (\<forall>c \<in> set v. c \<notin> set ''&|'')"

definition canonical :: "RequestCondition \<Rightarrow> bool" where
  "canonical cond =
     (case cond of
        OnTime c \<Rightarrow> tm_timeFunc c \<in> set TIME_FUNCS \<and> name_ok (tm_timezone c) \<and>
          (if tm_mode c = MATCH_RANGE
           then tm_value c = [] \<and> numeric_literal (tm_rangeStart c) \<and> numeric_literal (tm_rangeEnd c)
           else tm_mode c \<in> {MATCH_EQ, MATCH_GTE, MATCH_LT} \<and> numeric_literal (tm_value c) \<and>
             tm_rangeStart c = [] \<and> tm_rangeEnd c = [])
      | OnRequest c \<Rightarrow> name_ok (ph_path c) \<and>
          (ph_mode c = MATCH_EXISTS \<and> ph_value c = [] \<or>
           ph_mode c = MATCH_CONTAINS \<and> ph_source c = Header \<and> value_ok (ph_value c) \<or>
           ph_mode c = MATCH_EQ \<and> value_ok (ph_value c)))"

lemma value_ok_trim: "value_ok v \<Longrightarrow> trim v = v" "value_ok v \<Longrightarrow> bal 0 v"
  by (simp_all add: value_ok_def)

lemma numeric_trim: "numeric_literal v \<Longrightarrow> trim v = v"
  using numeric_literal_num [of v]
  by (intro trim_by_none) (auto simp: list_all_iff num_char_def is_digit_def is_ws_def)

lemma normalize_canonical:
  assumes "canonical cond"
  shows "normalizeCondition (Some (partial_of cond)) = cond"
proof (cases cond)
  case (OnTime c)
  have "text_or (Some s) [] = s" for s by (simp add: text_or_def)
  with assms show ?thesis
    by (cases c) (auto simp: OnTime canonical_def normalizeCondition_def partial_of_def isTimeFunc_def offered_mode_def
        getRequestRuleMatchOptions_def text_or_def name_ok_def split: if_splits)
next
  case (OnRequest c)
  with assms show ?thesis
    by (cases c; cases "ph_source c") (auto simp: canonical_def normalizeCondition_def partial_of_def offered_mode_def
        getRequestRuleMatchOptions_def text_or_def source_name_def name_ok_def)
qed

section \<open>One condition\<close>

abbreviation source_text :: "ParamHeaderCondition \<Rightarrow> string" where
  "source_text c \<equiv> source_name (ph_source c) @ ''('' @ json_quote (ph_path c) @ '')''"

abbreviation time_text :: "TimeCondition \<Rightarrow> string" where
  "time_text c \<equiv> tm_timeFunc c @ ''('' @ json_quote (tm_timezone c) @ '')''"

lemma build_time:
  assumes "canonical (OnTime c)"
  shows "buildTimeConditionExpr c =
    (if tm_mode c = MATCH_RANGE then time_text c @ '' >= '' @ tm_rangeStart c @ '' || '' @ time_text c @ '' < '' @ tm_rangeEnd c
     else time_text c @ '' '' @ (if tm_mode c = MATCH_GTE then ''>='' else if tm_mode c = MATCH_LT then ''<'' else ''=='') @
       '' '' @ tm_value c)"
  using assms unfolding buildTimeConditionExpr_def normalize_canonical [OF assms]
  by (auto simp: canonical_def numeric_trim Let_def split: if_splits)

lemma build_request:
  assumes "canonical (OnRequest c)"
  shows "buildRequestConditionExpr (OnRequest c) =
    (if ph_mode c = MATCH_EXISTS then source_text c @ (if ph_source c = Header then '' != '' @ [quote, quote] else '' != nil'')
     else if ph_mode c = MATCH_CONTAINS then ''has('' @ source_text c @ '', '' @ json_quote (ph_value c) @ '')''
     else source_text c @ '' == '' @ buildExprLiteral MATCH_EQ (ph_value c))"
  using assms unfolding buildRequestConditionExpr_def RequestCondition.case normalize_canonical [OF assms]
  by (auto simp: canonical_def name_ok_facts(2,3) buildExprLiteral_def value_ok_trim(1) Let_def)

lemma time_call_text: "canonical (OnTime c) \<Longrightarrow> time_call (time_text c @ t) = Some (tm_timeFunc c, tm_timezone c, t)"
  using time_call_quote [of "tm_timeFunc c" "tm_timezone c" t] by (simp add: canonical_def)

lemma source_call_text: "canonical (OnRequest c) \<Longrightarrow> source_call (ph_source c) (source_text c @ t) = Some (ph_path c, t)"
  using source_call_quote [of "ph_path c" "ph_source c" t] by (simp add: canonical_def)

lemma not_num [simp]: "\<not> num_char CHR '' ''" "\<not> num_char CHR '')''"
  by (simp_all add: num_char_def is_digit_def)

lemma lit_both [simp]: "lit (p @ q) (p @ s) = lit q s"
  by (induction p) auto

lemma time_range_text:
  assumes "canonical (OnTime c)" "tm_mode c = MATCH_RANGE" "closing = [] \<or> closing = '')''"
  shows "time_range closing (buildTimeConditionExpr c @ closing) = Some c"
proof -
  have nums: "numeric_literal (tm_rangeStart c)" "numeric_literal (tm_rangeEnd c)" "tm_value c = []" "name_ok (tm_timezone c)"
    using assms(1,2) by (auto simp: canonical_def)
  have "c = \<lparr>tm_timeFunc = tm_timeFunc c, tm_timezone = tm_timezone c, tm_mode = MATCH_RANGE, tm_value = [],
      tm_rangeStart = tm_rangeStart c, tm_rangeEnd = tm_rangeEnd c\<rparr>"
    using assms(2) nums(3) by simp
  moreover have "run_of num_char (tm_rangeEnd c @ closing) = Some (tm_rangeEnd c, closing)"
    using assms(3) by (intro run_num_token [OF nums(2)]) auto
  then have "time_range closing (buildTimeConditionExpr c @ closing) = Some \<lparr>tm_timeFunc = tm_timeFunc c,
      tm_timezone = tm_timezone c, tm_mode = MATCH_RANGE, tm_value = [], tm_rangeStart = tm_rangeStart c,
      tm_rangeEnd = tm_rangeEnd c\<rparr>"
    using time_call_text [OF assms(1)] run_num_token [OF nums(1)] assms(2)
    by (simp add: build_time [OF assms(1)] time_range_def name_ok_quote [OF nums(4)] at_end_def)
  ultimately show ?thesis by simp
qed

lemma parse_time:
  assumes "canonical (OnTime c)"
  shows "tryParseTimeCondition (buildTimeConditionExpr c) = Some c"
proof (cases "tm_mode c = MATCH_RANGE")
  case True
  have "time_range [] (buildTimeConditionExpr c) = Some c"
    using time_range_text [OF assms True, of "[]"] by simp
  then show ?thesis by (simp add: tryParseTimeCondition_def or_else_def)
next
  case False
  have nums: "numeric_literal (tm_value c)" "tm_rangeStart c = []" "tm_rangeEnd c = []"
    "tm_mode c \<in> {MATCH_EQ, MATCH_GTE, MATCH_LT}"
    using assms False by (auto simp: canonical_def)
  define op where "op = (if tm_mode c = MATCH_GTE then ''>='' else if tm_mode c = MATCH_LT then ''<'' else ''=='')"
  have shape: "buildTimeConditionExpr c = time_text c @ '' '' @ op @ '' '' @ tm_value c"
    using False by (simp add: build_time [OF assms] op_def)
  have "operator_num [(''=='', MATCH_EQ), (''>='', MATCH_GTE), (''<'', MATCH_LT)] ('' '' @ op @ '' '' @ tm_value c) =
      Some (tm_mode c, tm_value c)"
    using nums(4) run_num_token [OF nums(1), of "[]"] by (auto simp: operator_num_def op_def at_end_def)
  then have "time_compare (buildTimeConditionExpr c) = Some c"
    using time_call_text [OF assms] nums(2,3) by (simp add: shape time_compare_def)
  moreover have "time_range [] (buildTimeConditionExpr c) = None"
    using nums(4) time_call_text [OF assms] run_num_token [OF nums(1), of "[]"]
    by (auto simp: shape time_range_def op_def)
  moreover have "hd (buildTimeConditionExpr c) \<noteq> CHR ''(''"
    using assms unfolding shape by (auto simp: canonical_def TIME_FUNCS_def)
  ultimately show ?thesis
    by (cases "buildTimeConditionExpr c") (simp_all add: tryParseTimeCondition_def or_else_def)
qed

lemma no_time:
  assumes "prefix (source_name src) s \<or> prefix ''has('' s"
  shows "tryParseTimeCondition s = None"
proof -
  have "time_call s = None" using assms time_call_other by (auto simp: prefix_def)
  moreover have "hd s \<noteq> CHR ''(''" "s \<noteq> []" using assms by (cases src; auto simp: source_name_def prefix_def)+
  ultimately show ?thesis
    by (cases s) (simp_all add: tryParseTimeCondition_def or_else_def time_range_def time_compare_def)
qed

lemma parse_literal:
  assumes "trimmed_by is_ws v"
  shows "parseExprLiteral other (buildExprLiteral MATCH_EQ v) = Some v"
proof -
  have "\<not> numeric_literal (json_quote v)"
    using numeric_literal_num [of "json_quote v"] by (auto simp: json_quote_def quote_def num_char_def is_digit_def)
  moreover have "json_quote v \<noteq> ''true''" "json_quote v \<noteq> ''false''" by (simp_all add: json_quote_def quote_def)
  moreover have "trimmed_by is_ws (json_quote v)" by (simp add: trimmed_by_def json_quote_def quote_def is_ws_def)
  ultimately show ?thesis
    using assms numeric_trim [of v] json_string_round_trip [of v]
    by (simp add: parseExprLiteral_def buildExprLiteral_def Let_def)
qed

lemma literal_one_line:
  assumes "c \<in> set (buildExprLiteral MATCH_EQ v)"
  shows "c \<noteq> CHR 0x0A \<and> c \<noteq> CHR 0x0D"
proof -
  have "c \<noteq> CHR 0x0A \<and> c \<noteq> CHR 0x0D" if "c \<in> set (json_quote w)" for w
    using that escape_chars by (fastforce simp: json_quote_def quote_def)
  moreover have "c \<noteq> CHR 0x0A \<and> c \<noteq> CHR 0x0D" if "numeric_literal w" "c \<in> set w" for w
    using numeric_literal_num [OF that(1)] that(2) by (auto simp: list_all_iff num_char_def is_digit_def)
  ultimately show ?thesis
    using assms by (auto simp: buildExprLiteral_def Let_def split: if_splits)
qed

lemma parse_request:
  assumes "canonical (OnRequest c)"
  shows "tryParseRequestCondition other (buildRequestConditionExpr (OnRequest c)) = Inr (Some (OnRequest c))"
proof -
  have ok: "name_ok (ph_path c)" using assms by (simp add: canonical_def)
  consider (exists) "ph_mode c = MATCH_EXISTS" "ph_value c = []"
    | (contains) "ph_mode c = MATCH_CONTAINS" "ph_source c = Header" "value_ok (ph_value c)"
    | (eq) "ph_mode c = MATCH_EQ" "value_ok (ph_value c)"
    using assms by (auto simp: canonical_def)
  then show ?thesis
  proof cases
    case exists
    have c: "request_condition (ph_source c) (ph_path c) MATCH_EXISTS [] = OnRequest c"
      using exists by (cases c) (simp add: request_condition_def)
    have "tryParseTimeCondition (buildRequestConditionExpr (OnRequest c)) = None"
      unfolding build_request [OF assms] using exists(1) by (intro no_time [of "ph_source c"]) simp
    moreover have "or_else (header_exists (buildRequestConditionExpr (OnRequest c)))
        (param_exists (buildRequestConditionExpr (OnRequest c))) = Some (OnRequest c)"
      using source_call_text [OF assms] source_call_other exists(1) c
      by (cases "ph_source c") (simp_all add: build_request [OF assms] header_exists_def param_exists_def or_else_def at_end_def)
    ultimately show ?thesis by (simp add: tryParseRequestCondition_def or_else_def)
  next
    case contains
    have c: "request_condition Header (ph_path c) MATCH_CONTAINS (ph_value c) = OnRequest c"
      using contains by (cases c) (simp add: request_condition_def)
    let ?s = "''has('' @ source_text c @ '', '' @ json_quote (ph_value c) @ '')''"
    have s: "buildRequestConditionExpr (OnRequest c) = ?s"
      unfolding build_request [OF assms] using contains(1) by simp
    have "tryParseTimeCondition ?s = None" by (intro no_time [of Param]) simp
    moreover have "source_call src ?s = None" for src by (cases src) (simp_all add: source_call_def source_name_def)
    moreover have "has_call Header ?s = Some (ph_path c, json_quote (ph_value c))"
      using source_call_text [OF assms] string_literal_quote contains(2) by (simp add: has_call_def at_end_def)
    ultimately show ?thesis
      unfolding s by (simp add: tryParseRequestCondition_def or_else_def header_exists_def param_exists_def
          contains_condition_def json_string_round_trip c)
  next
    case eq
    have c: "request_condition (ph_source c) (ph_path c) MATCH_EQ (ph_value c) = OnRequest c"
      using eq by (cases c) (simp add: request_condition_def)
    let ?v = "buildExprLiteral MATCH_EQ (ph_value c)"
    let ?s = "source_text c @ '' == '' @ ?v"
    have s: "buildRequestConditionExpr (OnRequest c) = ?s"
      unfolding build_request [OF assms] using eq(1) by simp
    have "?v \<noteq> []" by (auto simp: buildExprLiteral_def Let_def json_quote_def simp del: trim_by_eq_Nil dest: numeric_literal_num)
    then have "equals_call ?s = Some (ph_source c, ph_path c, ?v)"
      using source_call_text [OF assms, of "'' == '' @ ?v"] source_call_other literal_one_line
      by (cases "ph_source c") (auto simp: equals_call_def or_else_def)
    moreover have "tryParseTimeCondition ?s = None" by (intro no_time [of "ph_source c"]) simp
    moreover have "header_exists ?s = None" "param_exists ?s = None" "guarded_has ?s = None" "guarded_compare ?s = None"
      using source_call_text [OF assms, of "'' == '' @ ?v"] source_call_other
      by (cases "ph_source c"; simp add: header_exists_def param_exists_def guarded_has_def guarded_compare_def guarded_param_def)+
    moreover have "has_call Header ?s = None" by (cases "ph_source c") (simp_all add: has_call_def source_name_def)
    ultimately show ?thesis
      using parse_literal [of "ph_value c" other] eq(2) c unfolding s
      by (simp add: tryParseRequestCondition_def or_else_def value_ok_def)
  qed
qed

lemma parse_condition:
  assumes "canonical cond"
  shows "tryParseRequestCondition other (buildRequestConditionExpr cond) = Inr (Some cond)"
proof (cases cond)
  case (OnTime c)
  then show ?thesis
    using parse_time [of c] assms
    by (simp add: buildRequestConditionExpr_def tryParseRequestCondition_def or_else_def)
next
  case (OnRequest c)
  then show ?thesis using parse_request [of c other] assms by simp
qed

lemma parse_wrapped:
  assumes "canonical (OnTime c)" "tm_mode c = MATCH_RANGE"
  shows "tryParseRequestCondition other (''('' @ buildRequestConditionExpr (OnTime c) @ '')'') = Inr (Some (OnTime c))"
proof -
  have "time_range [] (''('' @ t) = None" for t by (simp add: time_range_def time_call_def TIME_FUNCS_def)
  then have "tryParseTimeCondition (''('' @ buildTimeConditionExpr c @ '')'') = Some c"
    using time_range_text [OF assms, of "'')''"] by (simp add: tryParseTimeCondition_def or_else_def)
  then show ?thesis by (simp add: tryParseRequestCondition_def buildRequestConditionExpr_def or_else_def)
qed

section \<open>The text of a condition\<close>

lemma bal_skip: "CHR ''('' \<notin> set s \<Longrightarrow> CHR '')'' \<notin> set s \<Longrightarrow> bal d (s @ t) = bal d t"
  by (induction s arbitrary: d) auto

lemma escape_plain:
  assumes "c \<in> set ''()&|''"
  shows "escape c = [c]" "d \<noteq> c \<Longrightarrow> c \<notin> set (escape d)"
proof -
  show "escape c = [c]" using assms by (auto simp: escape_def quote_def)
  assume "d \<noteq> c"
  then show "c \<notin> set (escape d)" using assms escape_chars [of c d] by (auto simp: quote_def)
qed

lemma quote_plain:
  assumes "c \<in> set ''()&|''"
  shows "c \<in> set (json_quote v) \<longleftrightarrow> c \<in> set v"
proof -
  have "c \<in> set (escape d) \<longleftrightarrow> d = c" for d using escape_plain [OF assms] by (cases "d = c") simp_all
  moreover have "c \<noteq> quote" using assms by (auto simp: quote_def)
  ultimately show ?thesis by (simp add: json_quote_def)
qed

lemma bal_quote:
  assumes "bal 0 v"
  shows "bal 0 (json_quote v)"
proof -
  have "bal d (concat (map escape v) @ [quote])" if "bal d v" for d
    using that
  proof (induction d v rule: bal.induct)
    case (2 d c v)
    show ?case
    proof (cases "c = CHR ''('' \<or> c = CHR '')''")
      case True
      then show ?thesis using 2 escape_plain(1) [of c] by auto
    next
      case False
      then have "bal d (escape c @ t) = bal d t" for t
        using escape_plain(2) [of "CHR ''(''" c] escape_plain(2) [of "CHR '')''" c] by (intro bal_skip) auto
      then show ?thesis using 2 False by simp
    qed
  qed (simp add: quote_def)
  from this [OF assms] show ?thesis by (simp add: json_quote_def quote_def)
qed

definition text_ok :: "string \<Rightarrow> bool" where
  "text_ok t \<longleftrightarrow> bal 0 t \<and> t \<noteq> [] \<and> \<not> is_ws (hd t) \<and> \<not> is_ws (last t) \<and> CHR ''&'' \<notin> set t"

lemma num_char_plain: "num_char c \<Longrightarrow> c \<notin> set ''()&|''" "num_char c \<Longrightarrow> \<not> is_ws c"
  by (auto simp: num_char_def is_digit_def is_ws_def)

lemma num_text:
  assumes "numeric_literal v"
  shows "bal 0 v" "CHR ''&'' \<notin> set v" "CHR ''|'' \<notin> set v" "\<not> is_ws (last v)" "v \<noteq> []" "\<not> is_ws (hd v)"
proof -
  have v: "\<forall>c \<in> set v. num_char c" "v \<noteq> []" using numeric_literal_num [OF assms] by (auto simp: list_all_iff)
  have *: "c \<notin> set v" if "c \<in> set ''()&|''" for c using v(1) num_char_plain(1) that by blast
  show "CHR ''&'' \<notin> set v" "CHR ''|'' \<notin> set v" by (rule *; simp)+
  show "bal 0 v" by (intro bal_plain *) simp_all
  show "\<not> is_ws (last v)" "v \<noteq> []" "\<not> is_ws (hd v)" using v num_char_plain(2) by simp_all
qed

lemma quote_text: "last (json_quote v) = quote" "hd (json_quote v) = quote" "json_quote v \<noteq> []" "\<not> is_ws quote"
  by (simp_all add: json_quote_def quote_def is_ws_def)

lemma literal_cases:
  assumes "value_ok v"
  obtains "buildExprLiteral MATCH_EQ v = json_quote v" | "buildExprLiteral MATCH_EQ v = v" "numeric_literal v"
    | "buildExprLiteral MATCH_EQ v = ''true''" | "buildExprLiteral MATCH_EQ v = ''false''"
proof -
  have "buildExprLiteral MATCH_EQ v =
      (if v = ''true'' \<or> v = ''false'' then v else if numeric_literal v then v else json_quote v)"
    by (simp add: buildExprLiteral_def Let_def value_ok_trim(1) [OF assms])
  then show thesis using that by (metis (full_types))
qed

lemma literal_text:
  assumes "value_ok v"
  shows "bal 0 (buildExprLiteral MATCH_EQ v)" "CHR ''&'' \<notin> set (buildExprLiteral MATCH_EQ v)"
    "CHR ''|'' \<notin> set (buildExprLiteral MATCH_EQ v)" "\<not> is_ws (last (buildExprLiteral MATCH_EQ v))"
    "buildExprLiteral MATCH_EQ v \<noteq> []"
proof -
  have v: "bal 0 v" "CHR ''&'' \<notin> set v" "CHR ''|'' \<notin> set v" using assms unfolding value_ok_def by auto
  from assms have "bal 0 (buildExprLiteral MATCH_EQ v) \<and> CHR ''&'' \<notin> set (buildExprLiteral MATCH_EQ v) \<and>
      CHR ''|'' \<notin> set (buildExprLiteral MATCH_EQ v) \<and> \<not> is_ws (last (buildExprLiteral MATCH_EQ v)) \<and>
      buildExprLiteral MATCH_EQ v \<noteq> []"
  proof (cases rule: literal_cases)
    case 1
    then show ?thesis using v bal_quote quote_plain [of "CHR ''&''" v] quote_plain [of "CHR ''|''" v] quote_text by simp
  next
    case 2
    then show ?thesis using num_text by simp
  qed (simp_all add: is_ws_def)
  then show "bal 0 (buildExprLiteral MATCH_EQ v)" "CHR ''&'' \<notin> set (buildExprLiteral MATCH_EQ v)"
    "CHR ''|'' \<notin> set (buildExprLiteral MATCH_EQ v)" "\<not> is_ws (last (buildExprLiteral MATCH_EQ v))"
    "buildExprLiteral MATCH_EQ v \<noteq> []" by simp_all
qed

definition op_free :: "string \<Rightarrow> bool" where
  "op_free s \<longleftrightarrow> CHR ''&'' \<notin> set s \<and> CHR ''|'' \<notin> set s"

lemma op_free_simps [simp]:
  "op_free []" "op_free (c # s) \<longleftrightarrow> c \<noteq> CHR ''&'' \<and> c \<noteq> CHR ''|'' \<and> op_free s" "op_free (s @ t) \<longleftrightarrow> op_free s \<and> op_free t"
  by (auto simp: op_free_def)

lemma op_free_texts:
  "name_ok v \<Longrightarrow> op_free v" "value_ok v \<Longrightarrow> op_free v" "op_free v \<Longrightarrow> op_free (json_quote v)"
  "numeric_literal v \<Longrightarrow> op_free v" "op_free (source_name src)"
  "f \<in> set TIME_FUNCS \<Longrightarrow> op_free f" "value_ok v \<Longrightarrow> op_free (buildExprLiteral MATCH_EQ v)"
  using num_text(2,3) literal_text(2,3) quote_plain [of "CHR ''&''" v] quote_plain [of "CHR ''|''" v]
  by (auto simp: op_free_def name_ok_def value_ok_def TIME_FUNCS_def source_name_def split: RequestSource.split)

lemma bal_through: "bal e s \<Longrightarrow> bal (e + d) (s @ t) = bal d t"
  by (induction e s rule: bal.induct) (auto split: if_splits simp: Suc_diff_le)

lemma call_text:
  assumes "bal 0 v" "CHR ''('' \<notin> set f" "CHR '')'' \<notin> set f"
  shows "bal d (f @ ''('' @ json_quote v @ '')'' @ t) = bal d t"
  using bal_skip [OF assms(2,3)] bal_through [OF bal_quote [OF assms(1)], of "Suc d"] by simp

lemma time_text_bal: "canonical (OnTime c) \<Longrightarrow> bal d (time_text c @ t) = bal d t"
  using call_text [of "tm_timezone c" "tm_timeFunc c" d t] name_ok_facts(4) [of "tm_timezone c"]
  by (auto simp: canonical_def TIME_FUNCS_def)

lemma source_text_bal: "canonical (OnRequest c) \<Longrightarrow> bal d (source_text c @ t) = bal d t"
  using call_text [of "ph_path c" "source_name (ph_source c)" d t] name_ok_facts(4) [of "ph_path c"]
  by (auto simp: canonical_def source_name_def split: RequestSource.split)

lemma op_free_no_or: "op_free s \<Longrightarrow> \<not> str_includes s '' || ''"
  using set_mono_sublist [of "'' || ''" s] by (auto simp: str_includes_iff_sublist op_free_def)

lemma text_okI: "bal 0 t \<Longrightarrow> t \<noteq> [] \<Longrightarrow> \<not> is_ws (hd t) \<Longrightarrow> \<not> is_ws (last t) \<Longrightarrow> op_free t \<Longrightarrow> text_ok t"
  by (simp add: text_ok_def op_free_def)

lemma time_name_start: "f \<in> set TIME_FUNCS \<Longrightarrow> f \<noteq> [] \<and> \<not> is_ws (hd f)"
  by (auto simp: TIME_FUNCS_def is_ws_def)

lemma source_name_start: "source_name src \<noteq> []" "\<not> is_ws (hd (source_name src))"
  by (cases src; simp add: source_name_def is_ws_def)+

lemma time_condition_text:
  assumes "canonical (OnTime c)"
  shows "text_ok (buildTimeConditionExpr c)" "str_includes (buildTimeConditionExpr c) '' || '' \<longleftrightarrow> tm_mode c = MATCH_RANGE"
proof -
  have c: "tm_timeFunc c \<in> set TIME_FUNCS" "name_ok (tm_timezone c)" using assms by (simp_all add: canonical_def)
  have call: "op_free (time_text c)" using op_free_texts(1,3,6) c by simp
  have start: "hd (time_text c @ t) = hd (tm_timeFunc c)" for t using time_name_start [OF c(1)] by (cases "tm_timeFunc c") simp_all
  show "text_ok (buildTimeConditionExpr c)"
  proof (cases "tm_mode c = MATCH_RANGE")
    case True
    then have nums: "numeric_literal (tm_rangeStart c)" "numeric_literal (tm_rangeEnd c)" using assms by (auto simp: canonical_def)
    have shape: "buildTimeConditionExpr c = time_text c @ '' >= '' @ tm_rangeStart c @ '' || '' @ time_text c @ '' < '' @ tm_rangeEnd c"
      using True by (simp add: build_time [OF assms])
    have "bal 0 (buildTimeConditionExpr c)"
      unfolding shape time_text_bal [OF assms] by (simp add: bal_append0 num_text nums time_text_bal [OF assms, simplified])
    then show ?thesis
      using start time_name_start [OF c(1)] num_text [OF nums(1)] num_text [OF nums(2)] call
      unfolding text_ok_def shape by (simp add: op_free_def)
  next
    case False
    then have num: "numeric_literal (tm_value c)" using assms by (auto simp: canonical_def)
    define op where "op = (if tm_mode c = MATCH_GTE then ''>='' else if tm_mode c = MATCH_LT then ''<'' else ''=='')"
    have op: "bal 0 op" "op_free op" by (simp_all add: op_def)
    have shape: "buildTimeConditionExpr c = time_text c @ '' '' @ op @ '' '' @ tm_value c"
      using False by (simp add: build_time [OF assms] op_def)
    have "bal 0 (buildTimeConditionExpr c)"
      unfolding shape time_text_bal [OF assms] by (simp add: bal_append0 num_text num op)
    then show ?thesis
      using start time_name_start [OF c(1)] num_text [OF num] call op(2)
      unfolding text_ok_def shape by (simp add: op_free_def)
  qed
  show "str_includes (buildTimeConditionExpr c) '' || '' \<longleftrightarrow> tm_mode c = MATCH_RANGE"
  proof (cases "tm_mode c = MATCH_RANGE")
    case True
    then have "buildTimeConditionExpr c =
        (time_text c @ '' >= '' @ tm_rangeStart c) @ '' || '' @ time_text c @ '' < '' @ tm_rangeEnd c"
      by (simp add: build_time [OF assms])
    then have "sublist '' || '' (buildTimeConditionExpr c)" by (simp only: sublist_appendI)
    then show ?thesis using True by (simp add: str_includes_iff_sublist)
  next
    case False
    then have "numeric_literal (tm_value c)" using assms by (auto simp: canonical_def)
    then have "op_free (buildTimeConditionExpr c)"
      using False call op_free_texts(4) by (simp add: build_time [OF assms])
    then show ?thesis using False op_free_no_or by blast
  qed
qed

lemma request_condition_text:
  assumes "canonical (OnRequest c)"
  shows "text_ok (buildRequestConditionExpr (OnRequest c))"
    "\<not> str_includes (buildRequestConditionExpr (OnRequest c)) '' || ''"
proof -
  let ?t = "buildRequestConditionExpr (OnRequest c)"
  have c: "name_ok (ph_path c)" using assms by (simp add: canonical_def)
  have call: "op_free (source_text c)" using op_free_texts(1,3,5) c by simp
  have start: "hd (source_text c @ t) = hd (source_name (ph_source c))" for t
    using source_name_start(1) by (cases "source_name (ph_source c)") simp_all
  have ws: "\<not> is_ws CHR ''l''" "\<not> is_ws CHR '')''" "\<not> is_ws CHR ''h''" by (simp_all add: is_ws_def)
  consider (exists) "ph_mode c = MATCH_EXISTS"
    | (contains) "ph_mode c = MATCH_CONTAINS" "ph_source c = Header" "value_ok (ph_value c)"
    | (eq) "ph_mode c = MATCH_EQ" "value_ok (ph_value c)"
    using assms by (auto simp: canonical_def)
  then have "bal 0 ?t \<and> ?t \<noteq> [] \<and> \<not> is_ws (hd ?t) \<and> \<not> is_ws (last ?t) \<and> op_free ?t"
  proof cases
    case exists
    define t where "t = (if ph_source c = Header then '' != '' @ [quote, quote] else '' != nil'')"
    have t: "bal 0 t" "op_free t" "t \<noteq> []" "\<not> is_ws (last t)" using ws quote_text(4) by (simp_all add: t_def quote_def)
    have "?t = source_text c @ t" unfolding build_request [OF assms] using exists by (simp add: t_def)
    then show ?thesis
      using source_text_bal [OF assms, of 0 t] t call start [of t] source_name_start by (simp del: append_assoc)
  next
    case contains
    let ?v = "json_quote (ph_value c)"
    have "?t = ''has('' @ source_text c @ '', '' @ ?v @ '')''" unfolding build_request [OF assms] using contains(1) by simp
    moreover have "bal 0 (''has('' @ source_text c @ '', '' @ ?v @ '')'')"
      using source_text_bal [OF assms, of 1 "'', '' @ ?v @ '')''"] bal_through [OF bal_quote [OF value_ok_trim(2) [OF contains(3)]], of 1 "'')''"]
      by simp
    ultimately show ?thesis using call op_free_texts(2,3) contains(3) ws by simp
  next
    case eq
    let ?v = "buildExprLiteral MATCH_EQ (ph_value c)"
    have "?t = source_text c @ '' == '' @ ?v" unfolding build_request [OF assms] using eq(1) by simp
    then show ?thesis
      using source_text_bal [OF assms, of 0 "'' == '' @ ?v"] call start [of "'' == '' @ ?v"] source_name_start
        literal_text [OF eq(2)] op_free_texts(7) [OF eq(2)] by (simp del: append_assoc)
  qed
  then show "text_ok ?t" "\<not> str_includes ?t '' || ''" using text_okI op_free_no_or by blast+
qed

section \<open>Groups\<close>

definition canonical_group :: "RequestRuleGroup \<Rightarrow> bool" where
  "canonical_group g \<longleftrightarrow> rg_conditions g \<noteq> [] \<and> (\<forall>c \<in> set (rg_conditions g). canonical c) \<and>
     numeric_literal (rg_multiplier g) \<and> rg_conditionText g = None \<and> rg_matched g = None"

definition reads_as :: "(string \<Rightarrow> string option) \<Rightarrow> string \<Rightarrow> RequestCondition \<Rightarrow> bool" where
  "reads_as other t c \<longleftrightarrow> text_ok t \<and> tryParseRequestCondition other t = Inr (Some c)"

definition wrap_or :: "string \<Rightarrow> string" where
  "wrap_or e = (if str_includes e '' || '' then ''('' @ e @ '')'' else e)"

lemma build_OnTime [simp]: "buildRequestConditionExpr (OnTime d) = buildTimeConditionExpr d"
  by (simp add: buildRequestConditionExpr_def)

lemma condition_reads: "canonical c \<Longrightarrow> reads_as other (buildRequestConditionExpr c) c"
  using parse_condition [of c other] time_condition_text(1) request_condition_text(1)
  by (cases c) (simp_all add: reads_as_def)

lemma wrapped_reads:
  assumes "canonical c"
  shows "reads_as other (wrap_or (buildRequestConditionExpr c)) c"
proof (cases "\<exists>d. c = OnTime d \<and> tm_mode d = MATCH_RANGE")
  case True
  then obtain d where d: "c = OnTime d" "tm_mode d = MATCH_RANGE" by blast
  let ?e = "buildRequestConditionExpr c"
  have e: "?e = buildTimeConditionExpr d" by (simp add: d(1))
  have "text_ok ?e" "str_includes ?e '' || ''" using time_condition_text [of d] assms d unfolding e by simp_all
  then have "text_ok (''('' @ ?e @ '')'')" "wrap_or ?e = ''('' @ ?e @ '')''"
    using bal_wrap [of ?e] by (simp_all add: text_ok_def wrap_or_def is_ws_def)
  then show ?thesis using parse_wrapped [of d other] assms d by (simp add: reads_as_def)
next
  case False
  then have "\<not> str_includes (buildRequestConditionExpr c) '' || ''"
    using time_condition_text(2) request_condition_text(2) assms by (cases c) auto
  then show ?thesis using condition_reads [OF assms] by (simp add: wrap_or_def)
qed

lemma text_ok_facts:
  assumes "text_ok t"
  shows "trim t = t" "quiet '' && '' d t" "net_depth t = 0" "t \<noteq> []" "last t \<notin> set '' && ''" "bal 0 t"
proof -
  have "\<not> sublist '' && '' t"
    using assms set_mono_sublist [of "'' && ''" t] by (auto simp: text_ok_def)
  then show "quiet '' && '' d t" by (rule quiet_absent)
  have "last t \<in> set t" "CHR ''&'' \<notin> set t" using assms by (simp_all add: text_ok_def)
  then have "last t \<noteq> CHR ''&''" by metis
  moreover have "is_ws CHR '' ''" by (simp add: is_ws_def)
  ultimately show "last t \<notin> set '' && ''" using assms by (auto simp: text_ok_def)
  show "trim t = t" using assms by (intro trim_by_trimmed) (simp add: text_ok_def trimmed_by_def)
  show "net_depth t = 0" "t \<noteq> []" "bal 0 t" using assms bal_net [of 0 t] by (simp_all add: text_ok_def)
qed

lemma parse_parts_all:
  "list_all2 (\<lambda>t x. parse t = Inr (Some x)) ts xs \<Longrightarrow> parse_parts parse ts = Inr (Some xs)"
  by (induction rule: list_all2_induct) simp_all

lemma split_conditions:
  assumes "\<forall>t \<in> set ts. text_ok t" "ts \<noteq> []"
  shows "splitTopLevelAnd (join '' && '' ts) = ts"
proof -
  have "split_top '' && '' 0 [] (join '' && '' ts) = map trim ts"
    using assms text_ok_facts by (intro split_top_join) auto
  also have "\<dots> = ts" using assms(1) text_ok_facts(1) by (simp add: map_idI)
  finally show ?thesis using assms(1) text_ok_facts(4) by (simp add: splitTopLevelAnd_def filter_id_conv)
qed

lemma parse_conditions:
  assumes "list_all2 (reads_as other) ts cs" "cs \<noteq> []"
  shows "tryParseRequestConditions other (join '' && '' ts) = Inr (Some cs)"
proof -
  have ok: "\<forall>t \<in> set ts. text_ok t" using assms(1) by (auto simp: list_all2_conv_all_nth in_set_conv_nth reads_as_def)
  have "ts \<noteq> []" using assms by auto
  then have "splitTopLevelAnd (join '' && '' ts) = ts" using ok by (intro split_conditions)
  moreover have "parse_parts (\<lambda>part. tryParseRequestCondition other (trim part)) ts = Inr (Some cs)"
    using assms(1) text_ok_facts(1) by (intro parse_parts_all) (auto simp: reads_as_def elim!: list_all2_mono)
  ultimately show ?thesis using assms(2) by (cases cs) (simp_all add: tryParseRequestConditions_def)
qed

lemma factor_parts_text:
  assumes "numeric_literal m" "k \<noteq> []"
  shows "factor_parts (''('' @ k @ '' ? '' @ m @ '' : 1)'') = Some (k, m)"
proof -
  have "run_of num_char (rev m @ rev '' ? '' @ rev k) = Some (rev m, rev '' ? '' @ rev k)"
    using numeric_literal_num [OF assms(1)] by (intro run_of_append) (auto simp: list_all_iff)
  moreover have "rev (k @ '' ? '' @ m @ '' : 1)'') = rev '' : 1)'' @ rev m @ rev '' ? '' @ rev k" by simp
  ultimately show ?thesis using assms(2) by (simp add: factor_parts_def del: rev.simps rev_append)
qed

text \<open>The text of a group, and that it is read back.\<close>

lemma group_factor:
  assumes "canonical_group g"
  obtains k where "buildRuleGroupFactor g = ''('' @ k @ '' ? '' @ rg_multiplier g @ '' : 1)''" "bal 0 k" "k \<noteq> []"
    "tryParseRequestConditions other k = Inr (Some (rg_conditions g))"
proof -
  let ?es = "map buildRequestConditionExpr (rg_conditions g)"
  have ok: "\<forall>c \<in> set (rg_conditions g). reads_as other (buildRequestConditionExpr c) c"
    "\<forall>c \<in> set (rg_conditions g). reads_as other (wrap_or (buildRequestConditionExpr c)) c"
    using assms condition_reads wrapped_reads by (auto simp: canonical_group_def)
  define ts where "ts = (if length (rg_conditions g) = 1 then ?es else map wrap_or ?es)"
  have reads: "list_all2 (reads_as other) ts (rg_conditions g)"
    using ok by (auto simp: ts_def list_all2_conv_all_nth)
  have texts: "\<forall>t \<in> set ts. text_ok t" using reads by (auto simp: list_all2_conv_all_nth in_set_conv_nth reads_as_def)
  have ne: "rg_conditions g \<noteq> []" "ts \<noteq> []" using assms by (auto simp: canonical_group_def ts_def)
  have es: "filter (\<lambda>e. e \<noteq> []) ?es = ?es" using ok(1) text_ok_facts(4) by (auto simp: filter_id_conv reads_as_def)
  have combined: "(case ?es of [e] \<Rightarrow> e | _ \<Rightarrow> join '' && '' (map wrap_or ?es)) = join '' && '' ts"
    using ne(1) by (cases "rg_conditions g"; cases "tl (rg_conditions g)") (auto simp: ts_def)
  have "buildRuleGroupFactor g = ''('' @ join '' && '' ts @ '' ? '' @ rg_multiplier g @ '' : 1)''"
    using assms ne(1) numeric_trim [of "rg_multiplier g"]
    unfolding buildRuleGroupFactor_def es wrap_or_def [abs_def, symmetric] combined Let_def
    by (simp add: canonical_group_def)
  moreover have "bal 0 (join '' && '' ts)" using texts text_ok_facts(6) by (intro bal_join) auto
  moreover have "join '' && '' ts \<noteq> []" using ne(2) texts text_ok_facts(4) by (cases ts; cases "tl ts") auto
  ultimately show thesis using parse_conditions [OF reads ne(1)] that by blast
qed

end
