(* ===== verification/BillingRules.thy ===== *)
theory BillingRules
  imports RulesRoundTrip
begin

text \<open>
  The properties of billing expressions with request rules: the round trip of rules, the separation of rules and price
  expression, and the conditions that the parser cannot read back.
\<close>

section \<open>Factors\<close>

lemma factor_facts:
  assumes "canonical_group g"
  shows "tryParseRuleGroupFactor other (buildRuleGroupFactor g) = Inr (Some g)"
    "quiet '' * '' 0 (buildRuleGroupFactor g)" "net_depth (buildRuleGroupFactor g) = 0" "buildRuleGroupFactor g \<noteq> []"
    "hd (buildRuleGroupFactor g) = CHR ''(''" "last (buildRuleGroupFactor g) = CHR '')''"
proof -
  obtain k where k: "buildRuleGroupFactor g = ''('' @ k @ '' ? '' @ rg_multiplier g @ '' : 1)''" "bal 0 k" "k \<noteq> []"
    "tryParseRequestConditions other k = Inr (Some (rg_conditions g))"
    using assms by (rule group_factor)
  have m: "numeric_literal (rg_multiplier g)" using assms by (simp add: canonical_group_def)
  let ?b = "k @ '' ? '' @ rg_multiplier g @ '' : 1''"
  have b: "bal 0 ?b" using k(2) num_text(1) [OF m] by (intro bal_append0) simp_all
  have f: "buildRuleGroupFactor g = CHR ''('' # ?b @ '')''" by (simp add: k(1))
  have "rule_group (rg_conditions g) (rg_multiplier g) = g"
    using assms by (cases g) (simp add: canonical_group_def rule_group_def)
  then show "tryParseRuleGroupFactor other (buildRuleGroupFactor g) = Inr (Some g)"
    using k(4) unfolding tryParseRuleGroupFactor_def k(1) factor_parts_text [OF m k(3)] by simp
  show "quiet '' * '' 0 (buildRuleGroupFactor g)" unfolding f by (rule quiet_wrap [OF b]) simp_all
  show "net_depth (buildRuleGroupFactor g) = 0" using bal_net [OF bal_wrap [OF b]] unfolding f by simp
  show "buildRuleGroupFactor g \<noteq> []" "hd (buildRuleGroupFactor g) = CHR ''(''" "last (buildRuleGroupFactor g) = CHR '')''"
    unfolding f by simp_all
qed

definition factor_like :: "string \<Rightarrow> bool" where
  "factor_like f \<longleftrightarrow> quiet '' * '' 0 f \<and> net_depth f = 0 \<and> f \<noteq> [] \<and> hd f = CHR ''('' \<and> last f = CHR '')''"

lemma factor_like_trim: "factor_like f \<Longrightarrow> trim f = f"
  by (intro trim_by_trimmed) (simp add: factor_like_def trimmed_by_def is_ws_def)

lemma join_ends:
  assumes "\<forall>f \<in> set fs. factor_like f" "fs \<noteq> []"
  shows "join sep fs \<noteq> [] \<and> hd (join sep fs) = CHR ''('' \<and> last (join sep fs) = CHR '')''"
  using assms by (induction sep fs rule: join.induct) (auto simp: factor_like_def)

lemma split_factors:
  assumes "\<forall>f \<in> set fs. factor_like f" "fs \<noteq> []"
  shows "splitTopLevelMultiply (join '' * '' fs) = fs" "trim (join '' * '' fs) = join '' * '' fs"
proof -
  have "split_top '' * '' 0 [] (join '' * '' fs) = map trim fs"
    using assms by (intro split_top_join) (auto simp: factor_like_def)
  also have "\<dots> = fs" using assms(1) factor_like_trim by (simp add: map_idI)
  finally show "splitTopLevelMultiply (join '' * '' fs) = fs"
    using assms(1) by (auto simp: splitTopLevelMultiply_def filter_id_conv factor_like_def)
  show "trim (join '' * '' fs) = join '' * '' fs"
    using join_ends [OF assms, of "'' * ''"] by (intro trim_by_trimmed) (simp add: trimmed_by_def is_ws_def)
qed

lemma group_factor_like: "canonical_group g \<Longrightarrow> factor_like (buildRuleGroupFactor g)"
  using factor_facts by (simp add: factor_like_def)

lemma build_rules:
  assumes "\<forall>g \<in> set gs. canonical_group g"
  shows "buildRequestRuleExpr gs = join '' * '' (map buildRuleGroupFactor gs)"
  using assms factor_facts(4) by (auto simp: buildRequestRuleExpr_def filter_id_conv)

text \<open>C31. Rules survive a round trip through their text: for every list of canonical rule groups, tryParseRequestRuleExpr
reads from what buildRequestRuleExpr writes exactly the groups that were written, with their conditions, time ranges and
multipliers in order, whatever JSON.parse makes of other texts.\<close>
theorem rules_round_trip:
  assumes "\<forall>g \<in> set gs. canonical_group g"
  shows "tryParseRequestRuleExpr other (buildRequestRuleExpr gs) = Inr (Some gs)"
proof (cases "gs = []")
  case False
  let ?fs = "map buildRuleGroupFactor gs"
  have fs: "\<forall>f \<in> set ?fs. factor_like f" "?fs \<noteq> []" using assms group_factor_like False by auto
  have "parse_parts (tryParseRuleGroupFactor other) ?fs = Inr (Some gs)"
    using assms factor_facts(1) by (intro parse_parts_all) (auto simp: list_all2_conv_all_nth)
  then show ?thesis
    using split_factors [OF fs] join_ends [OF fs, of "'' * ''"]
    by (simp add: tryParseRequestRuleExpr_def build_rules [OF assms] del: trim_by_eq_Nil)
qed (simp add: buildRequestRuleExpr_def tryParseRequestRuleExpr_def)

section \<open>Rules and price expression\<close>

lemma single_rule:
  assumes "canonical_group g"
  shows "tryParseRequestRuleExpr other (buildRuleGroupFactor g) = Inr (Some [g])"
proof -
  have "factor_like (buildRuleGroupFactor g)" using assms by (rule group_factor_like)
  then have "splitTopLevelMultiply (buildRuleGroupFactor g) = [buildRuleGroupFactor g]" "trim (buildRuleGroupFactor g) = buildRuleGroupFactor g"
    using split_factors [of "[buildRuleGroupFactor g]"] by simp_all
  then show ?thesis
    using factor_facts(1,4) [OF assms] by (simp add: tryParseRequestRuleExpr_def del: trim_by_eq_Nil)
qed

lemma sort_rules:
  "\<forall>g \<in> set gs. canonical_group g \<Longrightarrow> sort_parts other (map buildRuleGroupFactor gs) = Inr (map buildRuleGroupFactor gs, [])"
  by (induction gs) (simp_all add: single_rule)

lemma full_outer_wrap: "bal d s \<Longrightarrow> full_outer (int d + 1) (s @ '')'')"
  by (induction d s rule: bal.induct) (auto simp: depth_after_def of_nat_diff algebra_simps split: if_splits)

lemma unwrap_wrap:
  assumes "bal 0 b" "trim b = b"
  shows "unwrapOuterParens (''('' @ b @ '')'') = unwrapOuterParens b"
proof -
  let ?w = "''('' @ b @ '')''"
  have "full_outer 0 ?w" using full_outer_wrap [OF assms(1)] by (simp add: depth_after_def)
  then have "hasFullOuterParens ?w" by (simp add: hasFullOuterParens_def suffix_def)
  moreover have "peel ?w = b" using assms(2) by (simp add: peel_def butlast_append)
  moreover have "trim ?w = ?w" by (intro trim_by_trimmed) (simp add: trimmed_by_def is_ws_def)
  ultimately show ?thesis
    using assms(2) unwrap_loop.simps [of ?w] by (simp add: unwrapOuterParens_def)
qed

text \<open>C32. Rules and price expression are separated again: when combineBillingExpr has put rules behind a price expression
whose brackets match, splitBillingExprAndRequestRules gives back the price expression, without outer brackets, and the rules as
they were written, unless the bracketed price expression itself reads as a rule.\<close>
theorem split_combine:
  assumes "\<forall>g \<in> set gs. canonical_group g" "gs \<noteq> []" "trim base \<noteq> []" "bal 0 (trim base)"
    and "tryParseRequestRuleExpr other (''('' @ trim base @ '')'') = Inr None"
  shows "splitBillingExprAndRequestRules other (combineBillingExpr base (buildRequestRuleExpr gs)) =
    Inr (unwrapOuterParens base, buildRequestRuleExpr gs)"
proof -
  let ?b = "''('' @ trim base @ '')''" and ?fs = "map buildRuleGroupFactor gs"
  have "factor_like ?b"
    using quiet_wrap [OF assms(4), of "'' * ''"] bal_net [OF bal_wrap [OF assms(4)]] by (simp add: factor_like_def)
  then have fs: "\<forall>f \<in> set (?b # ?fs). factor_like f" "\<forall>f \<in> set ?fs. factor_like f"
    using assms(1) group_factor_like by auto
  have rules: "buildRequestRuleExpr gs = join '' * '' ?fs" using assms(1) by (rule build_rules)
  have "trim (join '' * '' ?fs) = join '' * '' ?fs" "join '' * '' ?fs \<noteq> []"
    using split_factors(2) [OF fs(2)] join_ends [OF fs(2), of "'' * ''"] assms(2) by simp_all
  then have whole: "combineBillingExpr base (buildRequestRuleExpr gs) = join '' * '' (?b # ?fs)"
    using assms(2,3) unfolding combineBillingExpr_def rules Let_def by (cases gs) (simp_all del: trim_by_eq_Nil)
  have parts: "splitTopLevelMultiply (join '' * '' (?b # ?fs)) = ?b # ?fs" "trim (join '' * '' (?b # ?fs)) = join '' * '' (?b # ?fs)"
    using split_factors [OF fs(1)] by simp_all
  have "sort_parts other (?b # ?fs) = Inr (?fs, [?b])"
    using sort_rules [OF assms(1)] assms(5) by simp
  moreover have "unwrapOuterParens ?b = unwrapOuterParens base"
    using unwrap_wrap [OF assms(4)] by (simp add: unwrapOuterParens_def)
  moreover have "join '' * '' (?b # ?fs) \<noteq> []" using join_ends [OF fs(1), of "'' * ''"] by simp
  ultimately show ?thesis
    using assms(2) unfolding whole unfolding splitBillingExprAndRequestRules_def rules Let_def parts
    by (simp del: sort_parts.simps)
qed

text \<open>unwrapOuterParens finishes its work: what it returns is not enclosed in a pair of brackets any more, has no white
space at its ends, and is left alone by a second call.\<close>
theorem unwrap_complete:
  "\<not> hasFullOuterParens (unwrapOuterParens expr) \<and> trim (unwrapOuterParens expr) = unwrapOuterParens expr \<and>
   unwrapOuterParens (unwrapOuterParens expr) = unwrapOuterParens expr"
proof -
  have loop: "\<not> hasFullOuterParens (unwrap_loop s)" for s
    by (induction s rule: unwrap_loop.induct) (subst unwrap_loop.simps, simp)
  have trimmed: "trim s = s \<Longrightarrow> trim (unwrap_loop s) = unwrap_loop s" for s
    by (induction s rule: unwrap_loop.induct) (subst (1 2) unwrap_loop.simps, simp add: peel_def)
  have "\<not> hasFullOuterParens s \<Longrightarrow> unwrap_loop s = s" for s
    by (subst unwrap_loop.simps) simp
  then show ?thesis
    using loop trimmed by (simp add: unwrapOuterParens_def)
qed

section \<open>Conditions that are not read back\<close>

text \<open>A comparison or containment of a request parameter is written with a guard, as two conjuncts.\<close>

definition guarded :: "ParamHeaderCondition \<Rightarrow> bool" where
  "guarded c \<longleftrightarrow> ph_source c = Param \<and> name_ok (ph_path c) \<and>
     (ph_mode c \<in> {MATCH_GT, MATCH_GTE, MATCH_LT, MATCH_LTE} \<and> numeric_literal (ph_value c) \<or>
      ph_mode c = MATCH_CONTAINS \<and> value_ok (ph_value c))"

definition guarded_part :: "ParamHeaderCondition \<Rightarrow> string" where
  "guarded_part c = (if ph_mode c = MATCH_CONTAINS then ''has('' @ source_text c @ '', '' @ json_quote (ph_value c) @ '')''
     else source_text c @ '' '' @ compare_op (ph_mode c) @ '' '' @ ph_value c)"

lemma build_guarded:
  assumes "guarded c"
  shows "buildRequestConditionExpr (OnRequest c) = source_text c @ '' != nil && '' @ guarded_part c"
proof -
  have "normalizeCondition (Some (partial_of (OnRequest c))) = OnRequest c"
    using assms by (cases c) (auto simp: guarded_def normalizeCondition_def partial_of_def offered_mode_def
        getRequestRuleMatchOptions_def text_or_def source_name_def name_ok_facts(2))
  then show ?thesis
    using assms unfolding buildRequestConditionExpr_def
    by (auto simp: guarded_def guarded_part_def name_ok_facts(2,3) numeric_trim value_ok_trim buildExprLiteral_def Let_def)
qed

lemma guarded_call: "guarded c \<Longrightarrow> source_call Param (source_text c @ t) = Some (ph_path c, t)"
  using source_call_quote [of "ph_path c" Param t] by (simp add: guarded_def)

lemma compare_num:
  assumes "mode \<in> {MATCH_GT, MATCH_GTE, MATCH_LT, MATCH_LTE}" "numeric_literal v"
  shows "operator_num [(''>'', MATCH_GT), (''>='', MATCH_GTE), (''<'', MATCH_LT), (''<='', MATCH_LTE)]
    ('' '' @ compare_op mode @ '' '' @ v) = Some (mode, v)"
  using assms(1) run_num_token [OF assms(2), of "[]"] by (auto simp: operator_num_def compare_op_def at_end_def)

lemma guarded_condition: "guarded c \<Longrightarrow> request_condition Param (ph_path c) (ph_mode c) (ph_value c) = OnRequest c"
  by (cases c) (simp add: request_condition_def guarded_def)

lemma no_source: "source_call src (''has('' @ t) = None"
  by (cases src) (simp_all add: source_call_def source_name_def)

lemma param_no_header: "guarded c \<Longrightarrow> source_call Header (source_text c @ t) = None" "guarded c \<Longrightarrow> has_call src (source_text c @ t) = None"
  by (simp_all add: guarded_def source_call_def has_call_def source_name_def)

lemma parse_late:
  assumes "tryParseTimeCondition t = None" "header_exists t = None" "param_exists t = None" "has_call Header t = None"
  shows "tryParseRequestCondition other t =
      (case guarded_has t of Some (path, l) \<Rightarrow> contains_condition Param path l
       | None \<Rightarrow> (case guarded_compare t of Some cond \<Rightarrow> Inr (Some cond)
         | None \<Rightarrow> (case equals_call t of
             Some (src, path, raw) \<Rightarrow> Inr (map_option (request_condition src path MATCH_EQ) (parseExprLiteral other raw))
           | None \<Rightarrow> Inr None)))"
  using assms by (simp add: tryParseRequestCondition_def or_else_def)

lemma parse_guarded_alone:
  assumes "guarded c"
  shows "tryParseRequestCondition other (buildRequestConditionExpr (OnRequest c)) = Inr (Some (OnRequest c))"
proof -
  let ?t = "source_text c @ '' != nil && '' @ guarded_part c"
  note call = guarded_call [OF assms] and no = param_no_header [OF assms]
  have guard: "guarded_param ?t = Some (ph_path c, guarded_part c)" using call by (simp add: guarded_param_def)
  have "tryParseTimeCondition ?t = None" by (intro no_time [of "ph_source c"]) simp
  note step = parse_late [OF this _ _ no(2)]
  have none: "header_exists ?t = None" "param_exists ?t = None"
    using call no(1) by (simp_all add: header_exists_def param_exists_def at_end_def)
  show ?thesis
  proof (cases "ph_mode c = MATCH_CONTAINS")
    case True
    then have "has_call Param (guarded_part c) = Some (ph_path c, json_quote (ph_value c))"
      using call string_literal_quote by (simp add: guarded_part_def has_call_def at_end_def)
    then have "guarded_has ?t = Some (ph_path c, json_quote (ph_value c))" using guard by (simp add: guarded_has_def)
    then show ?thesis
      using guarded_condition [OF assms] True
      unfolding build_guarded [OF assms] step [OF none] by (simp add: contains_condition_def json_string_round_trip)
  next
    case False
    then have "ph_mode c \<in> {MATCH_GT, MATCH_GTE, MATCH_LT, MATCH_LTE}" "numeric_literal (ph_value c)"
      using assms by (auto simp: guarded_def)
    from compare_num [OF this] have "guarded_compare ?t = Some (OnRequest c)"
      using guard call guarded_condition [OF assms] False by (simp add: guarded_compare_def guarded_part_def)
    moreover have "guarded_has ?t = None" using guard no(2) False by (simp add: guarded_has_def guarded_part_def)
    ultimately show ?thesis unfolding build_guarded [OF assms] step [OF none] by simp
  qed
qed

lemma guarded_part_unread:
  assumes "guarded c"
  shows "tryParseRequestCondition other (guarded_part c) = Inr None"
proof (cases "ph_mode c = MATCH_CONTAINS")
  case True
  let ?t = "''has('' @ source_text c @ '', '' @ json_quote (ph_value c) @ '')''"
  have "tryParseTimeCondition ?t = None" by (intro no_time [of Param]) simp
  moreover have "has_call Header ?t = None" using param_no_header(1) [OF assms] by (simp add: has_call_def)
  ultimately show ?thesis
    using True no_source [of _ "source_text c @ '', '' @ json_quote (ph_value c) @ '')''"]
    by (simp add: guarded_part_def tryParseRequestCondition_def or_else_def header_exists_def param_exists_def
        guarded_has_def guarded_compare_def guarded_param_def equals_call_def)
next
  case False
  let ?s = "'' '' @ compare_op (ph_mode c) @ '' '' @ ph_value c"
  have mode: "ph_mode c \<in> {MATCH_GT, MATCH_GTE, MATCH_LT, MATCH_LTE}" using assms False by (auto simp: guarded_def)
  then have "lit '' != nil'' ?s = None" "lit '' != nil && '' ?s = None" "lit '' == '' ?s = None" "lit ('' != '' @ [quote, quote]) ?s = None"
    by (auto simp: compare_op_def)
  moreover have "tryParseTimeCondition (source_text c @ ?s) = None" by (intro no_time [of "ph_source c"]) simp
  ultimately show ?thesis
    using False guarded_call [OF assms, of ?s] param_no_header(1) [OF assms, of ?s] param_no_header(2) [OF assms, of Header ?s]
    by (simp add: guarded_part_def tryParseRequestCondition_def or_else_def header_exists_def param_exists_def
        guarded_has_def guarded_compare_def guarded_param_def equals_call_def)
qed

lemma guarded_part_text:
  assumes "guarded c"
  shows "text_ok (guarded_part c)"
proof -
  have c: "ph_source c = Param" "name_ok (ph_path c)" using assms by (simp_all add: guarded_def)
  have call: "bal d (source_text c @ t) = bal d t" for d t
    using call_text [OF name_ok_facts(4) [OF c(2)], of "source_name Param" d t] by (simp add: c(1) source_name_def)
  have free: "op_free (source_text c)" using op_free_texts(1,3,5) c by simp
  show ?thesis
  proof (cases "ph_mode c = MATCH_CONTAINS")
    case True
    then have v: "value_ok (ph_value c)" using assms by (simp add: guarded_def)
    have "bal 0 (guarded_part c)"
      using True call [of 1 "'', '' @ json_quote (ph_value c) @ '')''"] bal_through [OF bal_quote [OF value_ok_trim(2) [OF v]], of 1 "'')''"]
      by (simp add: guarded_part_def)
    then show ?thesis
      using True free op_free_texts(2,3) v by (intro text_okI) (simp_all add: guarded_part_def is_ws_def)
  next
    case False
    then have mode: "ph_mode c \<in> {MATCH_GT, MATCH_GTE, MATCH_LT, MATCH_LTE}" "numeric_literal (ph_value c)"
      using assms by (auto simp: guarded_def)
    let ?s = "'' '' @ compare_op (ph_mode c) @ '' '' @ ph_value c"
    have op: "bal 0 (compare_op (ph_mode c))" "op_free (compare_op (ph_mode c))" by (simp_all add: compare_op_def)
    have "bal 0 ?s" using op(1) num_text(1) [OF mode(2)] by (simp add: bal_append0)
    moreover have "hd (source_text c @ ?s) = CHR ''p''" by (simp add: c(1) source_name_def)
    ultimately show ?thesis
      using False call [of 0 ?s] free op(2) op_free_texts(4) [OF mode(2)] num_text [OF mode(2)]
      by (intro text_okI) (simp_all add: guarded_part_def is_ws_def)
  qed
qed

lemma guarded_unread:
  assumes "guarded c"
  shows "tryParseRequestConditions other (buildRequestConditionExpr (OnRequest c)) = Inr None"
proof -
  let ?e = "c\<lparr>ph_mode := MATCH_EXISTS, ph_value := []\<rparr>"
  have e: "canonical (OnRequest ?e)" using assms by (simp add: canonical_def guarded_def)
  have a: "buildRequestConditionExpr (OnRequest ?e) = source_text c @ '' != nil''"
    unfolding build_request [OF e] using assms by (simp add: guarded_def)
  let ?ts = "[source_text c @ '' != nil'', guarded_part c]"
  have ok: "\<forall>t \<in> set ?ts. text_ok t"
    using request_condition_text(1) [OF e] guarded_part_text [OF assms] unfolding a by simp
  have "splitTopLevelAnd (buildRequestConditionExpr (OnRequest c)) = ?ts"
    using split_conditions [OF ok] unfolding build_guarded [OF assms] by simp
  moreover have "parse_parts (\<lambda>part. tryParseRequestCondition other (trim part)) ?ts = Inr None"
  proof -
    have "trim (source_text c @ '' != nil'') = source_text c @ '' != nil''" "trim (guarded_part c) = guarded_part c"
      using ok text_ok_facts(1) by simp_all
    moreover have "tryParseRequestCondition other (source_text c @ '' != nil'') = Inr (Some (OnRequest ?e))"
      using parse_request [OF e, of other] unfolding a .
    ultimately show ?thesis using guarded_part_unread [OF assms, of other] by (simp only: parse_parts.simps sum.case option.case)
  qed
  ultimately show ?thesis by (simp add: tryParseRequestConditions_def)
qed

lemma guarded_factor:
  assumes "guarded c" "numeric_literal m"
  defines "f \<equiv> buildRuleGroupFactor (rule_group [OnRequest c] m)"
  shows "factor_like f" "tryParseRequestRuleExpr other f = Inr None"
proof -
  let ?k = "buildRequestConditionExpr (OnRequest c)"
  have c: "ph_source c = Param" "name_ok (ph_path c)" using assms(1) by (simp_all add: guarded_def)
  have "bal 0 (source_text c @ t) = bal 0 t" for t
    using call_text [OF name_ok_facts(4) [OF c(2)], of "source_name Param" 0 t] by (simp add: c(1) source_name_def)
  then have k: "bal 0 ?k" "?k \<noteq> []"
    using text_ok_facts(6) [OF guarded_part_text [OF assms(1)]] unfolding build_guarded [OF assms(1)] by simp_all
  have f: "f = ''('' @ ?k @ '' ? '' @ m @ '' : 1)''"
    using assms(2) k(2) numeric_trim [OF assms(2)] by (simp add: f_def buildRuleGroupFactor_def rule_group_def)
  let ?b = "?k @ '' ? '' @ m @ '' : 1''"
  have b: "bal 0 ?b" using k(1) num_text(1) [OF assms(2)] by (intro bal_append0) simp_all
  have f': "f = CHR ''('' # ?b @ '')''" by (simp add: f)
  show like: "factor_like f"
    using quiet_wrap [OF b, of "'' * ''"] bal_net [OF bal_wrap [OF b]] unfolding factor_like_def f' by simp
  have "tryParseRuleGroupFactor other f = Inr None"
    using guarded_unread [OF assms(1), of other] unfolding f tryParseRuleGroupFactor_def factor_parts_text [OF assms(2) k(2)] by simp
  moreover have "splitTopLevelMultiply f = [f]" "trim f = f" "f \<noteq> []"
    using split_factors [of "[f]"] like by (simp_all add: factor_like_def)
  ultimately show "tryParseRequestRuleExpr other f = Inr None"
    by (simp add: tryParseRequestRuleExpr_def del: trim_by_eq_Nil)
qed

text \<open>C33. A rule that compares a request parameter with a number, or looks for a text in it, is lost when an expression is read
back, although the parser has a pattern for exactly that condition: the text of the condition alone is recognised, but the rule
that buildRequestRuleExpr writes for it is rejected, because the guard of the condition is taken for a conjunct of its own; and a
price expression combined with the rule comes back from splitBillingExprAndRequestRules as one price expression without rules.\<close>
theorem guarded_rule_lost:
  assumes "guarded c" "numeric_literal m" "trim base \<noteq> []" "bal 0 (trim base)"
    and "tryParseRequestRuleExpr other (''('' @ trim base @ '')'') = Inr None"
  shows "tryParseRequestCondition other (buildRequestConditionExpr (OnRequest c)) = Inr (Some (OnRequest c)) \<and>
    tryParseRequestRuleExpr other (buildRequestRuleExpr [rule_group [OnRequest c] m]) = Inr None \<and>
    splitBillingExprAndRequestRules other (combineBillingExpr base (buildRequestRuleExpr [rule_group [OnRequest c] m])) =
      Inr (combineBillingExpr base (buildRequestRuleExpr [rule_group [OnRequest c] m]), [])"
proof -
  let ?f = "buildRuleGroupFactor (rule_group [OnRequest c] m)" and ?b = "''('' @ trim base @ '')''"
  have f: "factor_like ?f" "tryParseRequestRuleExpr other ?f = Inr None"
    using guarded_factor [OF assms(1,2)] by simp_all
  have rules: "buildRequestRuleExpr [rule_group [OnRequest c] m] = ?f"
    using f(1) by (simp add: buildRequestRuleExpr_def factor_like_def)
  have "factor_like ?b"
    using quiet_wrap [OF assms(4), of "'' * ''"] bal_net [OF bal_wrap [OF assms(4)]] by (simp add: factor_like_def)
  then have fs: "\<forall>f \<in> set [?b, ?f]. factor_like f" using f(1) by simp
  have whole: "combineBillingExpr base ?f = join '' * '' [?b, ?f]"
    using assms(3) factor_like_trim [OF f(1)] f(1) by (simp add: combineBillingExpr_def factor_like_def Let_def del: trim_by_eq_Nil)
  have parts: "splitTopLevelMultiply (join '' * '' [?b, ?f]) = [?b, ?f]" "trim (join '' * '' [?b, ?f]) = join '' * '' [?b, ?f]"
    using split_factors [OF fs] by simp_all
  have "sort_parts other [?b, ?f] = Inr ([], [?b, ?f])" using assms(5) f(2) by simp
  then have "splitBillingExprAndRequestRules other (join '' * '' [?b, ?f]) = Inr (join '' * '' [?b, ?f], [])"
    using join_ends [OF fs, of "'' * ''"] unfolding splitBillingExprAndRequestRules_def Let_def parts by (simp del: join.simps sort_parts.simps)
  then show ?thesis using parse_guarded_alone [OF assms(1)] f(2) unfolding rules whole by simp
qed

section \<open>Witnesses\<close>

definition sample_rule :: RequestRuleGroup where
  "sample_rule = rule_group [request_condition Header ''x-plan'' MATCH_EQ ''pro user'',
     OnTime \<lparr>tm_timeFunc = ''hour'', tm_timezone = ''UTC'', tm_mode = MATCH_RANGE, tm_value = [], tm_rangeStart = ''22'',
       tm_rangeEnd = ''6''\<rparr>] ''0.5''"

lemma sample_rule_canonical: "canonical_group sample_rule"
  by code_simp

theorem rules_round_trip_witness:
  "tryParseRequestRuleExpr (\<lambda>_. None) (buildRequestRuleExpr [sample_rule, sample_rule]) = Inr (Some [sample_rule, sample_rule])"
  using rules_round_trip [of "[sample_rule, sample_rule]"] sample_rule_canonical by simp

lemma sample_base: "tryParseRequestRuleExpr (\<lambda>_. None) (''('' @ trim ''p * 2'' @ '')'') = Inr None" "trim ''p * 2'' = ''p * 2''"
  by code_simp+

theorem split_combine_witness:
  "splitBillingExprAndRequestRules (\<lambda>_. None) (combineBillingExpr ''p * 2'' (buildRequestRuleExpr [sample_rule])) =
    Inr (unwrapOuterParens ''p * 2'', buildRequestRuleExpr [sample_rule])"
  using split_combine [of "[sample_rule]" "''p * 2''" "\<lambda>_. None"] sample_rule_canonical sample_base by simp

definition sample_guarded :: ParamHeaderCondition where
  "sample_guarded = \<lparr>ph_source = Param, ph_path = ''n'', ph_mode = MATCH_GT, ph_value = ''3''\<rparr>"

theorem guarded_rule_lost_witness:
  "tryParseRequestRuleExpr (\<lambda>_. None) (buildRequestRuleExpr [rule_group [OnRequest sample_guarded] ''2'']) = Inr None"
proof -
  have "guarded sample_guarded" "numeric_literal ''2''" by code_simp+
  then show ?thesis
    using guarded_rule_lost [of sample_guarded "''2''" "''p * 2''" "\<lambda>_. None"] sample_base by simp
qed

end
