(* ===== verification/Regex.thy ===== *)
theory Regex
  imports Prelude
begin

text \<open>
  Regular expressions of the language, as its backtracking matcher runs them. A match in progress is a cursor:
  the character before it, the text that is left, and what the groups have captured. \<open>runs\<close> lists the cursors
  an expression can end in, in the order the matcher tries them (alternatives from the left, repetitions
  greedily), so the match that is returned is the first of the list. A repetition whose round consumed nothing
  is given up, as the language demands.
\<close>

section \<open>Expressions and their runs\<close>

datatype re =
    Eps
  | Chr "char \<Rightarrow> bool"
  | Seq re re
  | Alt re re
  | Star re
  | Group nat re
  | AtStart
  | AtEnd
  | WordBoundary

type_synonym captures = "nat \<Rightarrow> string option"
type_synonym cursor = "char option \<times> string \<times> captures"

fun left :: "cursor \<Rightarrow> string" where "left (b, s, cs) = s"

text \<open>\<^verbatim>\<open>\b\<close>: a word character on one side and none on the other.\<close>

definition at_boundary :: "char option \<Rightarrow> string \<Rightarrow> bool" where
  "at_boundary b s \<longleftrightarrow> not_word b \<noteq> not_word (case s of [] \<Rightarrow> None | c # _ \<Rightarrow> Some c)"

fun capture_text :: "nat \<Rightarrow> string \<Rightarrow> cursor \<Rightarrow> cursor" where
  "capture_text i s (b, t, cs) = (b, t, cs(i \<mapsto> take (length s - length t) s))"

function runs :: "re \<Rightarrow> cursor \<Rightarrow> cursor list" where
  "runs Eps k = [k]"
| "runs (Chr p) k = (case k of (b, s, cs) \<Rightarrow>
     (case s of [] \<Rightarrow> [] | c # t \<Rightarrow> if p c then [(Some c, t, cs)] else []))"
| "runs (Seq r q) k = concat (map (runs q) (runs r k))"
| "runs (Alt r q) k = runs r k @ runs q k"
| "runs (Star r) k =
     concat (map (runs (Star r)) (filter (\<lambda>k'. length (left k') < length (left k)) (runs r k))) @ [k]"
| "runs (Group i r) k = map (capture_text i (left k)) (runs r k)"
| "runs AtStart k = (if fst k = None then [k] else [])"
| "runs AtEnd k = (if left k = [] then [k] else [])"
| "runs WordBoundary k = (if at_boundary (fst k) (left k) then [k] else [])"
  by pat_completeness auto
termination
  by (relation "measures [\<lambda>(r, k). size r, \<lambda>(r, k). length (left k)]") auto

lemmas runs_Star = runs.simps(5)
declare runs.simps(5) [simp del]

text \<open>The first place from which there is a match: what was skipped, and where the match ends.\<close>

fun search :: "re \<Rightarrow> char option \<Rightarrow> string \<Rightarrow> (string \<times> cursor) option" where
  "search r b [] = (case runs r (b, [], Map.empty) of [] \<Rightarrow> None | k # _ \<Rightarrow> Some ([], k))"
| "search r b (c # s) =
     (case runs r (b, c # s, Map.empty) of
        k # _ \<Rightarrow> Some ([], k)
      | [] \<Rightarrow> map_option (\<lambda>(u, k). (c # u, k)) (search r (Some c) s))"

text \<open>\<^verbatim>\<open>s.match(r)\<close> without the flag \<^verbatim>\<open>g\<close>: the groups of the first match. \<^verbatim>\<open>r.test(s)\<close>.\<close>

definition re_match :: "re \<Rightarrow> string \<Rightarrow> captures option" where
  "re_match r s = map_option (\<lambda>(u, b, t, cs). cs) (search r None s)"

definition re_test :: "re \<Rightarrow> string \<Rightarrow> bool" where
  "re_test r s \<longleftrightarrow> re_match r s \<noteq> None"

text \<open>\<^verbatim>\<open>while ((m = r.exec(s)) !== null)\<close> with the flag \<^verbatim>\<open>g\<close>: the groups of the matches, one after the other. A match of
  the empty text is found again and again, and the loop does not end: the result is \<open>None\<close>.\<close>

lemma search_left: "search r b s = Some (u, k) \<Longrightarrow> length u \<le> length s"
  by (induction s arbitrary: b u) (auto split: list.splits)

function exec_loop :: "re \<Rightarrow> char option \<Rightarrow> string \<Rightarrow> captures list option" where
  "exec_loop r b s =
     (case search r b s of
        None \<Rightarrow> Some []
      | Some (u, b', t, cs) \<Rightarrow>
          (if length u + length t < length s then map_option (Cons cs) (exec_loop r b' t) else None))"
  by pat_completeness auto
termination by (relation "measure (\<lambda>(r, b, s). length s)") auto

declare exec_loop.simps [simp del]

text \<open>\<^verbatim>\<open>s.split(r)\<close> for an expression that does not match the empty text: the texts between the matches.\<close>

function split_re :: "re \<Rightarrow> char option \<Rightarrow> string \<Rightarrow> string list" where
  "split_re r b s =
     (case search r b s of
        None \<Rightarrow> [s]
      | Some (u, b', t, cs) \<Rightarrow> (if length u + length t < length s then u # split_re r b' t else [s]))"
  by pat_completeness auto
termination by (relation "measure (\<lambda>(r, b, s). length s)") auto

declare split_re.simps [simp del]

text \<open>How the sources write expressions: literal text, sequences, \<^verbatim>\<open>r+\<close>, \<^verbatim>\<open>r?\<close>, \<^verbatim>\<open>r|q|...\<close> and \<^verbatim>\<open>\s*\<close>.\<close>

primrec lit_re :: "string \<Rightarrow> re" where
  "lit_re [] = Eps"
| "lit_re (c # s) = Seq (Chr ((=) c)) (lit_re s)"

primrec seq :: "re list \<Rightarrow> re" where
  "seq [] = Eps"
| "seq (r # rs) = Seq r (seq rs)"

definition Plus :: "re \<Rightarrow> re" where "Plus r = Seq r (Star r)"
definition Opt :: "re \<Rightarrow> re" where "Opt r = Alt r Eps"
definition ws :: re where "ws = Star (Chr is_ws)"

fun one_of :: "string list \<Rightarrow> re" where
  "one_of [] = Chr (\<lambda>_. False)"
| "one_of [s] = lit_re s"
| "one_of (s # t # ss) = Alt (lit_re s) (one_of (t # ss))"

section \<open>What a run consumes\<close>

text \<open>The characters an expression can consume, and whether it can consume none.\<close>

fun alphabet :: "re \<Rightarrow> char \<Rightarrow> bool" where
  "alphabet (Chr p) c = p c"
| "alphabet (Seq r q) c = (alphabet r c \<or> alphabet q c)"
| "alphabet (Alt r q) c = (alphabet r c \<or> alphabet q c)"
| "alphabet (Star r) c = alphabet r c"
| "alphabet (Group i r) c = alphabet r c"
| "alphabet _ c = False"

fun may_be_empty :: "re \<Rightarrow> bool" where
  "may_be_empty (Chr p) = False"
| "may_be_empty (Seq r q) = (may_be_empty r \<and> may_be_empty q)"
| "may_be_empty (Alt r q) = (may_be_empty r \<or> may_be_empty q)"
| "may_be_empty (Group i r) = may_be_empty r"
| "may_be_empty _ = True"

definition after :: "char option \<Rightarrow> string \<Rightarrow> char option" where
  "after b u = (if u = [] then b else Some (last u))"

lemma after_simps [simp]:
  "after b [] = b" "after b (c # u) = after (Some c) u" "after (after b u) v = after b (u @ v)"
  "after b (u @ c # v) = after (Some c) v"
  by (auto simp: after_def)

lemma left_capture [simp]: "left (capture_text i s k) = left k" "fst (capture_text i s k) = fst k"
  by (cases k; simp)+

definition consumes :: "re \<Rightarrow> cursor \<Rightarrow> cursor \<Rightarrow> bool" where
  "consumes r k k' \<longleftrightarrow> (\<exists>u. left k = u @ left k' \<and> fst k' = after (fst k) u \<and> (\<forall>c \<in> set u. alphabet r c) \<and>
     (u = [] \<longrightarrow> may_be_empty r))"

lemma consumesE:
  assumes "consumes r k k'"
  obtains u where "left k = u @ left k'" "fst k' = after (fst k) u" "\<forall>c \<in> set u. alphabet r c"
    "u = [] \<longrightarrow> may_be_empty r"
  using assms by (auto simp: consumes_def)

lemma consumes_refl: "may_be_empty r \<Longrightarrow> consumes r k k"
  by (simp add: consumes_def)

lemma consumes_Seq:
  assumes "consumes r k k1" "consumes q k1 k'"
  shows "consumes (Seq r q) k k'"
proof -
  obtain u where "left k = u @ left k1" "fst k1 = after (fst k) u" "\<forall>c \<in> set u. alphabet r c"
    "u = [] \<longrightarrow> may_be_empty r" using assms(1) by (rule consumesE)
  moreover obtain v where "left k1 = v @ left k'" "fst k' = after (fst k1) v" "\<forall>c \<in> set v. alphabet q c"
    "v = [] \<longrightarrow> may_be_empty q" using assms(2) by (rule consumesE)
  ultimately show ?thesis unfolding consumes_def by (intro exI [of _ "u @ v"]) (simp add: ball_Un)
qed

lemma consumes_mono:
  assumes "consumes r k k'" "\<And>c. alphabet r c \<Longrightarrow> alphabet q c" "may_be_empty r \<Longrightarrow> may_be_empty q"
  shows "consumes q k k'"
proof -
  obtain u where "left k = u @ left k'" "fst k' = after (fst k) u" "\<forall>c \<in> set u. alphabet r c"
    "u = [] \<longrightarrow> may_be_empty r" using assms(1) by (rule consumesE)
  with assms(2,3) show ?thesis unfolding consumes_def by (intro exI [of _ u]) simp
qed

lemma runs_consume: "k' \<in> set (runs r k) \<Longrightarrow> consumes r k k'"
proof (induction r k arbitrary: k' rule: runs.induct)
  case (2 p k)
  then obtain b c t cs where "k = (b, c # t, cs)" "k' = (Some c, t, cs)" "p c"
    by (cases k) (auto split: list.splits if_splits)
  then show ?case unfolding consumes_def by (intro exI [of _ "[c]"]) simp
next
  case (3 r q k)
  then obtain k1 where k1: "k1 \<in> set (runs r k)" "k' \<in> set (runs q k1)" by auto
  show ?case by (rule consumes_Seq [OF 3(1) [OF k1(1)] 3(2) [OF k1]])
next
  case (4 r q k)
  from 4(3) have "k' \<in> set (runs r k) \<union> set (runs q k)" by simp
  then show ?case
  proof
    assume "k' \<in> set (runs r k)"
    then show ?thesis by (rule consumes_mono [OF 4(1)]) simp_all
  next
    assume "k' \<in> set (runs q k)"
    then show ?thesis by (rule consumes_mono [OF 4(2)]) simp_all
  qed
next
  case (5 r k)
  show ?case
  proof (cases "k' = k")
    case False
    with 5(3) [unfolded runs_Star [of r k]] obtain k1 where k1: "k1 \<in> set (runs r k)"
      "length (left k1) < length (left k)" "k' \<in> set (runs (Star r) k1)" by auto
    then have "consumes (Star r) k1 k'" by (intro 5(2)) simp_all
    then have "consumes (Seq r (Star r)) k k'" by (rule consumes_Seq [OF 5(1) [OF k1(1)]])
    then show ?thesis by (rule consumes_mono) auto
  qed (simp add: consumes_refl)
next
  case (6 i r k)
  then obtain k1 where "k1 \<in> set (runs r k)" "k' = capture_text i (left k) k1" by auto
  with 6(1) show ?case by (simp add: consumes_def)
qed (auto simp: consumes_refl split: if_splits)

text \<open>A search skips texts only as a whole, so an expression that consumes something makes progress in every loop.\<close>

lemma search_split:
  assumes "search r b s = Some (u, k)"
  obtains v where "s = u @ v @ left k" "fst k = after b (u @ v)" "\<forall>c \<in> set v. alphabet r c"
    "v = [] \<longrightarrow> may_be_empty r"
proof -
  have "\<exists>v. s = u @ v @ left k \<and> fst k = after b (u @ v) \<and> (\<forall>c \<in> set v. alphabet r c) \<and> (v = [] \<longrightarrow> may_be_empty r)"
    using assms
  proof (induction s arbitrary: b u)
    case Nil
    then have "u = []" "k \<in> set (runs r (b, [], Map.empty))" by (auto split: list.splits)
    with runs_consume [OF this(2)] show ?case by (simp add: consumes_def)
  next
    case (Cons c s)
    show ?case
    proof (cases "runs r (b, c # s, Map.empty)")
      case Nil
      with Cons.prems obtain w where w: "u = c # w" "search r (Some c) s = Some (w, k)" by auto
      from Cons.IH [OF w(2)] show ?thesis by (simp add: w(1))
    next
      case first: (Cons k1 ks)
      with Cons.prems have k: "u = []" "k = k1" by auto
      have "consumes r (b, c # s, Map.empty) k" using runs_consume [of k1 r "(b, c # s, Map.empty)"] first k by simp
      then obtain v where "c # s = v @ left k" "fst k = after b v" "\<forall>c \<in> set v. alphabet r c" "v = [] \<longrightarrow> may_be_empty r"
        by (rule consumesE) simp
      then show ?thesis using k(1) by (intro exI [of _ v]) simp
    qed
  qed
  then show thesis using that by blast
qed

theorem exec_loop_ends: "\<not> may_be_empty r \<Longrightarrow> \<exists>ms. exec_loop r b s = Some ms"
proof (induction s arbitrary: b rule: length_induct)
  case (1 s)
  show ?case
  proof (cases "search r b s")
    case None
    then show ?thesis by (simp add: exec_loop.simps)
  next
    case (Some m)
    obtain u b' t cs where m: "m = (u, b', t, cs)" by (cases m)
    obtain v where "s = u @ v @ t" "v \<noteq> []"
      using search_split [OF Some [unfolded m]] 1(2) by (metis left.simps)
    then have less: "length t < length s" "length u + length t < length s" by (cases v; simp)+
    obtain ms where "exec_loop r b' t = Some ms" using 1 less(1) by blast
    then show ?thesis using Some m less(2) by (simp add: exec_loop.simps)
  qed
qed

section \<open>The first run\<close>

definition leads :: "re \<Rightarrow> cursor \<Rightarrow> cursor \<Rightarrow> bool" where
  "leads r k k' \<longleftrightarrow> (\<exists>ks. runs r k = k' # ks)"

definition dead :: "re \<Rightarrow> cursor \<Rightarrow> bool" where
  "dead r k \<longleftrightarrow> runs r k = []"

lemma leads_Eps: "leads Eps k k"
  by (simp add: leads_def)

lemma leads_Seq: "leads r k k1 \<Longrightarrow> leads q k1 k2 \<Longrightarrow> leads (Seq r q) k k2"
  by (auto simp: leads_def)

lemma leads_Seq_skip:
  assumes "runs r k = ks @ k1 # ks'" "\<forall>k' \<in> set ks. dead q k'" "leads q k1 k2"
  shows "leads (Seq r q) k k2"
proof -
  have "concat (map (runs q) ks) = []" using assms(2) by (simp add: dead_def)
  then show ?thesis using assms(1,3) by (auto simp: leads_def simp del: concat_eq_Nil_conv)
qed

lemma leads_Alt1: "leads r k k' \<Longrightarrow> leads (Alt r q) k k'"
  by (auto simp: leads_def)

lemma leads_Alt2: "dead r k \<Longrightarrow> leads q k k' \<Longrightarrow> leads (Alt r q) k k'"
  by (simp add: leads_def dead_def)

lemma leads_Opt: "leads r k k' \<Longrightarrow> leads (Opt r) k k'"
  by (simp add: Opt_def leads_Alt1)

lemma leads_Opt_skip: "dead r k \<Longrightarrow> leads (Opt r) k k"
  by (simp add: Opt_def leads_Alt2 leads_Eps)

lemma leads_Group: "leads r (b, u @ s, cs) (b', s, cs') \<Longrightarrow> leads (Group i r) (b, u @ s, cs) (b', s, cs'(i \<mapsto> u))"
  by (auto simp: leads_def)

lemma dead_Seq: "dead r k \<Longrightarrow> dead (Seq r q) k"
  by (simp add: dead_def)

lemma dead_Seq2: "(\<And>k'. k' \<in> set (runs r k) \<Longrightarrow> dead q k') \<Longrightarrow> dead (Seq r q) k"
  by (simp add: dead_def)

lemma runs_lit: "runs (lit_re u) (b, u @ s, cs) = [(after b u, s, cs)]"
  by (induction u arbitrary: b) simp_all

lemma leads_lit: "leads (lit_re u) (b, u @ s, cs) (after b u, s, cs)"
  by (simp add: leads_def runs_lit)

lemma dead_lit: "\<not> prefix u s \<Longrightarrow> dead (lit_re u) (b, s, cs)"
proof (induction u arbitrary: b s)
  case (Cons c u)
  then show ?case by (cases s) (auto simp: dead_def)
qed simp

text \<open>A class repeated greedily takes the longest text of that class.\<close>

lemma runs_class:
  "runs (Star (Chr p)) (b, s, cs) =
     (case s of [] \<Rightarrow> [] | c # t \<Rightarrow> if p c then runs (Star (Chr p)) (Some c, t, cs) else []) @ [(b, s, cs)]"
  by (subst runs_Star) (simp split: list.split)

lemma leads_class:
  assumes "list_all p u" "s = [] \<or> \<not> p (hd s)"
  shows "leads (Star (Chr p)) (b, u @ s, cs) (after b u, s, cs)"
  using assms(1)
proof (induction u arbitrary: b)
  case Nil
  show ?case using assms(2) by (subst leads_def, subst runs_class) (cases s, simp_all)
next
  case (Cons c u)
  then obtain ks where "runs (Star (Chr p)) (Some c, u @ s, cs) = (after (Some c) u, s, cs) # ks"
    by (auto simp: leads_def)
  with Cons.prems show ?case by (subst leads_def, subst runs_class) simp
qed

lemma leads_plus_class:
  assumes "list_all p u" "u \<noteq> []" "s = [] \<or> \<not> p (hd s)"
  shows "leads (Plus (Chr p)) (b, u @ s, cs) (after b u, s, cs)"
proof -
  obtain c v where u: "u = c # v" using assms(2) by (cases u) auto
  have "leads (Chr p) (b, u @ s, cs) (Some c, v @ s, cs)" using assms(1) by (simp add: leads_def u)
  moreover have "leads (Star (Chr p)) (Some c, v @ s, cs) (after (Some c) v, s, cs)"
    using assms by (intro leads_class) (simp_all add: u)
  ultimately have "leads (Plus (Chr p)) (b, u @ s, cs) (after (Some c) v, s, cs)"
    unfolding Plus_def by (rule leads_Seq)
  then show ?thesis by (simp add: u)
qed

section \<open>Searching and repeated matching\<close>

lemma search_here: "leads r (b, s, Map.empty) k \<Longrightarrow> search r b s = Some ([], k)"
  by (cases s) (auto simp: leads_def)

lemma search_later: "dead r (b, c # s, Map.empty) \<Longrightarrow>
    search r b (c # s) = map_option (\<lambda>(u, k). (c # u, k)) (search r (Some c) s)"
  by (simp add: dead_def)

lemma exec_here:
  assumes "leads r (b, u @ t, Map.empty) (b', t, cs)" "u \<noteq> []"
  shows "exec_loop r b (u @ t) = map_option (Cons cs) (exec_loop r b' t)"
  using search_here [OF assms(1)] assms(2) by (subst exec_loop.simps) simp

lemma exec_later:
  assumes "dead r (b, c # s, Map.empty)"
  shows "exec_loop r b (c # s) = exec_loop r (Some c) s"
proof (cases "search r (Some c) s")
  case None
  then show ?thesis by (subst (1 2) exec_loop.simps) (simp add: search_later [OF assms] del: search.simps)
next
  case (Some m)
  obtain u b' t cs where m: "m = (u, b', t, cs)" by (cases m)
  show ?thesis
    by (subst (1 2) exec_loop.simps) (simp add: search_later [OF assms] Some m del: search.simps)
qed

lemma exec_Nil: "dead r (b, [], Map.empty) \<Longrightarrow> exec_loop r b [] = Some []"
  by (subst exec_loop.simps) (simp add: dead_def)

text \<open>An anchored expression is matched at the start or not at all.\<close>

lemma dead_anchored: "dead (Seq AtStart r) (Some c, s, cs)"
  by (simp add: dead_def)

lemma search_anchored: "search (Seq AtStart r) (Some c) s = None"
  by (induction s arbitrary: c) simp_all

lemma match_anchored: "dead (Seq AtStart r) (None, s, Map.empty) \<Longrightarrow> re_match (Seq AtStart r) s = None"
  by (cases s) (simp_all add: re_match_def dead_def search_anchored)

lemma re_match_here: "leads r (None, s, Map.empty) (b, t, cs) \<Longrightarrow> re_match r s = Some cs"
  by (simp add: re_match_def search_here)

lemma split_re_none: "search r b s = None \<Longrightarrow> split_re r b s = [s]"
  by (subst split_re.simps) simp

lemma split_re_step:
  assumes "search r b (u @ v @ t) = Some (u, b', t, cs)" "v \<noteq> []"
  shows "split_re r b (u @ v @ t) = u # split_re r b' t"
  using assms by (subst split_re.simps) simp

section \<open>Texts an expression takes\<close>

text \<open>Before the text \<open>s\<close>, the expression first takes \<open>u\<close>, and turns the captures \<open>cs\<close> into \<open>cs'\<close>.\<close>

definition takes :: "re \<Rightarrow> string \<Rightarrow> string \<Rightarrow> captures \<Rightarrow> captures \<Rightarrow> bool" where
  "takes r u s cs cs' \<longleftrightarrow> (\<forall>b. leads r (b, u @ s, cs) (after b u, s, cs'))"

definition refuses :: "re \<Rightarrow> string \<Rightarrow> bool" where
  "refuses r s \<longleftrightarrow> (\<forall>b cs. dead r (b, s, cs))"

lemma takes_lit: "takes (lit_re u) u s cs cs"
  by (simp add: takes_def leads_lit)

lemma takes_class: "list_all p u \<Longrightarrow> s = [] \<or> \<not> p (hd s) \<Longrightarrow> takes (Star (Chr p)) u s cs cs"
  by (simp add: takes_def leads_class)

lemma takes_plus: "list_all p u \<Longrightarrow> u \<noteq> [] \<Longrightarrow> s = [] \<or> \<not> p (hd s) \<Longrightarrow> takes (Plus (Chr p)) u s cs cs"
  by (simp add: takes_def leads_plus_class)

lemma takes_Group: "takes r u s cs cs' \<Longrightarrow> takes (Group i r) u s cs (cs'(i \<mapsto> u))"
  by (simp add: takes_def leads_Group)

lemma takes_AtEnd: "takes AtEnd [] [] cs cs"
  by (simp add: takes_def leads_def)

lemma takes_Seq:
  assumes "takes r u (v @ s) cs cs1" "takes q v s cs1 cs2"
  shows "takes (Seq r q) (u @ v) s cs cs2"
  unfolding takes_def
proof
  fix b
  have "leads r (b, u @ v @ s, cs) (after b u, v @ s, cs1)" "leads q (after b u, v @ s, cs1) (after (after b u) v, s, cs2)"
    using assms unfolding takes_def by blast+
  then have "leads (Seq r q) (b, u @ v @ s, cs) (after (after b u) v, s, cs2)" by (rule leads_Seq)
  then show "leads (Seq r q) (b, (u @ v) @ s, cs) (after b (u @ v), s, cs2)" by simp
qed

lemma takes_Nil: "takes (seq []) [] s cs cs"
  by (simp add: takes_def leads_Eps)

lemma takes_one: "takes r u s cs cs' \<Longrightarrow> takes (seq [r]) u s cs cs'"
  using takes_Seq [of r u "[]" s cs cs' Eps cs'] takes_Nil [of s cs'] by simp

lemma takes_Cons: "takes r u (v @ s) cs cs1 \<Longrightarrow> takes (seq rs) v s cs1 cs2 \<Longrightarrow> takes (seq (r # rs)) (u @ v) s cs cs2"
  by (simp add: takes_Seq)

lemma runs_append: "runs (seq (rs @ qs)) k = runs (Seq (seq rs) (seq qs)) k"
proof (induction rs arbitrary: k)
  case (Cons r rs)
  have "concat (map (\<lambda>x. concat (map f (g x))) xs) = concat (map f (concat (map g xs)))"
    for f :: "cursor \<Rightarrow> cursor list" and g :: "cursor \<Rightarrow> cursor list" and xs
    by (induction xs) simp_all
  moreover have "runs (seq (rs @ qs)) = (\<lambda>k. concat (map (runs (seq qs)) (runs (seq rs) k)))"
    using Cons by (simp add: fun_eq_iff)
  ultimately show ?case by simp
qed simp

lemma takes_append:
  assumes "takes (seq rs) u (v @ s) cs cs1" "takes (seq qs) v s cs1 cs2"
  shows "takes (seq (rs @ qs)) (u @ v) s cs cs2"
  using takes_Seq [OF assms] unfolding takes_def leads_def runs_append .

lemma takes_Opt: "takes r u s cs cs' \<Longrightarrow> takes (Opt r) u s cs cs'"
  by (simp add: takes_def leads_Opt)

lemma takes_Opt_skip: "refuses r s \<Longrightarrow> takes (Opt r) [] s cs cs"
  by (simp add: takes_def refuses_def leads_Opt_skip)

lemma takes_Star_skip: "refuses r s \<Longrightarrow> takes (Star r) [] s cs cs"
  by (simp add: takes_def refuses_def leads_def dead_def runs_Star)

lemma takes_Star:
  assumes "takes r u (v @ s) cs cs1" "u \<noteq> []" "takes (Star r) v s cs1 cs2"
  shows "takes (Star r) (u @ v) s cs cs2"
  unfolding takes_def
proof
  fix b
  obtain ks where ks: "runs r (b, u @ v @ s, cs) = (after b u, v @ s, cs1) # ks"
    using assms(1) by (auto simp: takes_def leads_def)
  obtain ks' where "runs (Star r) (after b u, v @ s, cs1) = (after (after b u) v, s, cs2) # ks'"
    using assms(3) unfolding takes_def leads_def by blast
  then show "leads (Star r) (b, (u @ v) @ s, cs) (after b (u @ v), s, cs2)"
    using ks assms(2) by (simp add: leads_def runs_Star [of r "(b, u @ v @ s, cs)"])
qed

lemma refuses_lit: "\<not> prefix u s \<Longrightarrow> refuses (lit_re u) s"
  by (simp add: refuses_def dead_lit)

lemma refuses_Cons: "refuses r s \<Longrightarrow> refuses (seq (r # rs)) s"
  by (simp add: refuses_def dead_def)

lemma refuses_Seq: "refuses r s \<Longrightarrow> refuses (Seq r q) s"
  by (simp add: refuses_def dead_def)

lemma refuses_Group: "refuses r s \<Longrightarrow> refuses (Group i r) s"
  by (simp add: refuses_def dead_def)

lemma refuses_Opt_Seq: "refuses r s \<Longrightarrow> refuses q s \<Longrightarrow> refuses (Seq (Opt r) q) s"
  by (simp add: refuses_def dead_def Opt_def)

lemma refuses_append: "refuses (seq (rs @ qs)) s \<longleftrightarrow> refuses (Seq (seq rs) (seq qs)) s"
  unfolding refuses_def dead_def runs_append ..

lemma refuses_AtEnd: "s \<noteq> [] \<Longrightarrow> refuses (Seq AtEnd q) s"
  by (simp add: refuses_def dead_def)

lemma alphabet_seq: "alphabet (seq rs) c \<longleftrightarrow> (\<exists>r \<in> set rs. alphabet r c)"
  by (induction rs) simp_all

lemma alphabet_lit: "alphabet (lit_re u) c \<longleftrightarrow> c \<in> set u"
  by (induction u) auto

text \<open>One expression and then another: refused when the second comes after no text that the first can consume.\<close>

lemma refuses_after:
  assumes "\<And>u t. s = u @ t \<Longrightarrow> \<forall>c \<in> set u. alphabet r c \<Longrightarrow> refuses q t"
  shows "refuses (Seq r q) s"
  unfolding refuses_def
proof (intro allI dead_Seq2)
  fix b cs k'
  assume k': "k' \<in> set (runs r (b, s, cs))"
  obtain u where "s = u @ left k'" "\<forall>c \<in> set u. alphabet r c"
    using runs_consume [OF k'] by (auto simp: consumes_def)
  then have "refuses q (left k')" by (rule assms)
  then show "dead q k'" by (cases k') (simp add: refuses_def)
qed

lemma refuses_ws:
  assumes "\<And>u t. s = u @ t \<Longrightarrow> list_all is_ws u \<Longrightarrow> refuses q t"
  shows "refuses (Seq ws q) s"
  by (rule refuses_after) (auto simp: ws_def list_all_iff intro: assms)

end
