(* ===== verification/TierExpr.thy ===== *)
theory TierExpr
  imports Regex ExprText
begin

text \<open>
  Tier expressions: the registry of price variables and the tier parser of
  \<^verbatim>\<open>features/pricing/lib/billing-expr.ts\<close>, and the visual price editor's printer and parser of
  \<^verbatim>\<open>features/pricing/lib/tier-expr.ts\<close>. The regular expressions are the sources' own, as values of \<open>re\<close>; how the
  language writes and reads numbers is the argument \<open>numfmt\<close>. The local evaluator \<^verbatim>\<open>evalExprLocally\<close> compiles the
  text with \<^verbatim>\<open>new Function\<close> and is not modelled.
\<close>

section \<open>The registry of variables\<close>

datatype VarSide = InputSide | OutputSide | ConditionSide

record BillingVar =
  bv_key :: string
  bv_field :: "string option"
  bv_tierField :: "string option"
  bv_label :: string
  bv_shortLabel :: string
  bv_side :: VarSide
  bv_isBase :: bool
  bv_isConditionOnly :: bool
  bv_group :: "string option"

definition BILLING_VARS :: "BillingVar list" where
  "BILLING_VARS = [
     \<lparr>bv_key = ''p'', bv_field = Some ''inputPrice'', bv_tierField = Some ''input_unit_cost'',
      bv_label = ''Input price'', bv_shortLabel = ''Input'', bv_side = InputSide, bv_isBase = True,
      bv_isConditionOnly = False, bv_group = None\<rparr>,
     \<lparr>bv_key = ''c'', bv_field = Some ''outputPrice'', bv_tierField = Some ''output_unit_cost'',
      bv_label = ''Completion price'', bv_shortLabel = ''Output'', bv_side = OutputSide, bv_isBase = True,
      bv_isConditionOnly = False, bv_group = None\<rparr>,
     \<lparr>bv_key = ''len'', bv_field = None, bv_tierField = None,
      bv_label = ''Input length'', bv_shortLabel = ''Length'', bv_side = ConditionSide, bv_isBase = False,
      bv_isConditionOnly = True, bv_group = None\<rparr>,
     \<lparr>bv_key = ''cr'', bv_field = Some ''cacheReadPrice'', bv_tierField = Some ''cache_read_unit_cost'',
      bv_label = ''Cache read price'', bv_shortLabel = ''Cache Read'', bv_side = InputSide, bv_isBase = False,
      bv_isConditionOnly = False, bv_group = Some ''cache''\<rparr>,
     \<lparr>bv_key = ''cc'', bv_field = Some ''cacheCreatePrice'', bv_tierField = Some ''cache_create_unit_cost'',
      bv_label = ''Cache create price'', bv_shortLabel = ''Cache Write'', bv_side = InputSide, bv_isBase = False,
      bv_isConditionOnly = False, bv_group = Some ''cache''\<rparr>,
     \<lparr>bv_key = ''cc1h'', bv_field = Some ''cacheCreate1hPrice'', bv_tierField = Some ''cache_create_1h_unit_cost'',
      bv_label = ''Cache create (1h) price'', bv_shortLabel = ''Cache Write (1h)'', bv_side = InputSide,
      bv_isBase = False, bv_isConditionOnly = False, bv_group = Some ''cache''\<rparr>,
     \<lparr>bv_key = ''img'', bv_field = Some ''imagePrice'', bv_tierField = Some ''image_unit_cost'',
      bv_label = ''Image input price'', bv_shortLabel = ''Image In'', bv_side = InputSide, bv_isBase = False,
      bv_isConditionOnly = False, bv_group = Some ''media''\<rparr>,
     \<lparr>bv_key = ''img_o'', bv_field = Some ''imageOutputPrice'', bv_tierField = Some ''image_output_unit_cost'',
      bv_label = ''Image output price'', bv_shortLabel = ''Image Out'', bv_side = OutputSide, bv_isBase = False,
      bv_isConditionOnly = False, bv_group = Some ''media''\<rparr>,
     \<lparr>bv_key = ''ai'', bv_field = Some ''audioInputPrice'', bv_tierField = Some ''audio_input_unit_cost'',
      bv_label = ''Audio input price'', bv_shortLabel = ''Audio In'', bv_side = InputSide, bv_isBase = False,
      bv_isConditionOnly = False, bv_group = Some ''media''\<rparr>,
     \<lparr>bv_key = ''ao'', bv_field = Some ''audioOutputPrice'', bv_tierField = Some ''audio_output_unit_cost'',
      bv_label = ''Audio output price'', bv_shortLabel = ''Audio Out'', bv_side = OutputSide, bv_isBase = False,
      bv_isConditionOnly = False, bv_group = Some ''media''\<rparr>]"

definition BILLING_PRICING_VARS :: "BillingVar list" where
  "BILLING_PRICING_VARS = filter (\<lambda>v. \<not> bv_isConditionOnly v) BILLING_VARS"

definition BILLING_CONDITION_VARS :: "string list" where
  "BILLING_CONDITION_VARS = map bv_key (filter (\<lambda>v. bv_isBase v \<or> bv_isConditionOnly v) BILLING_VARS)"

definition BILLING_VAR_KEY_TO_FIELD :: "(string \<times> string) list" where
  "BILLING_VAR_KEY_TO_FIELD = map (\<lambda>v. (bv_key v, or_value (bv_field v) [])) BILLING_PRICING_VARS"

definition BILLING_EXTRA_VARS :: "BillingVar list" where
  "BILLING_EXTRA_VARS = filter (\<lambda>v. \<not> bv_isBase v \<and> \<not> bv_isConditionOnly v) BILLING_VARS"

text \<open>The price fields of a tier beside input and output, with the variable each is charged by.\<close>

definition BILLING_CACHE_VAR_MAP :: "(string \<times> string) list" where
  "BILLING_CACHE_VAR_MAP = map (\<lambda>v. (or_value (bv_tierField v) [], bv_key v)) BILLING_EXTRA_VARS"

section \<open>Tiers\<close>

text \<open>\<^verbatim>\<open>String(n)\<close> and \<^verbatim>\<open>Number(s)\<close>.\<close>

record numfmt =
  nf_text :: "jsnum \<Rightarrow> string"
  nf_number :: "string \<Rightarrow> jsnum"

datatype TierVar = VarP | VarC | VarLen
datatype TierOp = Lt | Le | Gt | Ge
datatype TierValue = NumValue jsnum | TextValue string
datatype CacheMode = Timed | Generic

record TierConditionInput =
  tc_var :: TierVar
  tc_op :: TierOp
  tc_value :: TierValue

text \<open>A tier; \<open>None\<close> is a field that is not there. A tier of a configuration and a partial tier differ only in that.\<close>

record VisualTier =
  vt_label :: "string option"
  vt_conditions :: "TierConditionInput list option"
  vt_input_unit_cost :: "jsnum option"
  vt_output_unit_cost :: "jsnum option"
  vt_cache_mode :: "CacheMode option"
  vt_cache_read_unit_cost :: "jsnum option"
  vt_cache_create_unit_cost :: "jsnum option"
  vt_cache_create_1h_unit_cost :: "jsnum option"
  vt_image_unit_cost :: "jsnum option"
  vt_image_output_unit_cost :: "jsnum option"
  vt_audio_input_unit_cost :: "jsnum option"
  vt_audio_output_unit_cost :: "jsnum option"

type_synonym VisualConfig = "VisualTier list"

definition no_tier :: VisualTier where
  "no_tier = \<lparr>vt_label = None, vt_conditions = None, vt_input_unit_cost = None, vt_output_unit_cost = None,
     vt_cache_mode = None, vt_cache_read_unit_cost = None, vt_cache_create_unit_cost = None,
     vt_cache_create_1h_unit_cost = None, vt_image_unit_cost = None, vt_image_output_unit_cost = None,
     vt_audio_input_unit_cost = None, vt_audio_output_unit_cost = None\<rparr>"

text \<open>\<^verbatim>\<open>Number(x) || 0\<close> of a field.\<close>

fun num_or_zero :: "jsnum option \<Rightarrow> jsnum" where
  "num_or_zero None = Fin 0"
| "num_or_zero (Some NaN) = Fin 0"
| "num_or_zero (Some n) = n"

definition getTierCacheMode :: "VisualTier \<Rightarrow> CacheMode" where
  "getTierCacheMode tier =
     (case vt_cache_mode tier of
        Some m \<Rightarrow> m
      | None \<Rightarrow> (case vt_cache_create_1h_unit_cost tier of
            None \<Rightarrow> Generic
          | Some n \<Rightarrow> if num_gt n 0 then Timed else Generic))"

text \<open>The fields of the tier itself are spread over the first five, so those only supply what is missing.\<close>

definition normalizeVisualTier :: "VisualTier \<Rightarrow> VisualTier" where
  "normalizeVisualTier tier =
     \<lparr>vt_label = Some (or_value (vt_label tier) []),
      vt_conditions = Some (or_value (vt_conditions tier) []),
      vt_input_unit_cost = Some (or_value (vt_input_unit_cost tier) (num_or_zero None)),
      vt_output_unit_cost = Some (or_value (vt_output_unit_cost tier) (num_or_zero None)),
      vt_cache_mode = Some (or_value (vt_cache_mode tier) (getTierCacheMode tier)),
      vt_cache_read_unit_cost = Some (num_or_zero (vt_cache_read_unit_cost tier)),
      vt_cache_create_unit_cost = Some (num_or_zero (vt_cache_create_unit_cost tier)),
      vt_cache_create_1h_unit_cost = Some (num_or_zero (vt_cache_create_1h_unit_cost tier)),
      vt_image_unit_cost = Some (num_or_zero (vt_image_unit_cost tier)),
      vt_image_output_unit_cost = Some (num_or_zero (vt_image_output_unit_cost tier)),
      vt_audio_input_unit_cost = Some (num_or_zero (vt_audio_input_unit_cost tier)),
      vt_audio_output_unit_cost = Some (num_or_zero (vt_audio_output_unit_cost tier))\<rparr>"

definition createDefaultVisualConfig :: VisualConfig where
  "createDefaultVisualConfig = [normalizeVisualTier (no_tier\<lparr>vt_conditions := Some [],
     vt_input_unit_cost := Some (Fin 0), vt_output_unit_cost := Some (Fin 0), vt_label := Some ''base'',
     vt_cache_mode := Some Generic\<rparr>)]"

definition normalizeVisualConfig :: "VisualConfig option \<Rightarrow> VisualConfig" where
  "normalizeVisualConfig config =
     (case config of
        None \<Rightarrow> createDefaultVisualConfig
      | Some tiers \<Rightarrow> (if tiers = [] then createDefaultVisualConfig else map normalizeVisualTier tiers))"

section \<open>Writing an expression\<close>

fun var_text :: "TierVar \<Rightarrow> string" where
  "var_text VarP = ''p''"
| "var_text VarC = ''c''"
| "var_text VarLen = ''len''"

fun op_text :: "TierOp \<Rightarrow> string" where
  "op_text Lt = ''<''"
| "op_text Le = ''<=''"
| "op_text Gt = ''>''"
| "op_text Ge = ''>=''"

fun value_text :: "numfmt \<Rightarrow> TierValue \<Rightarrow> string" where
  "value_text f (NumValue n) = nf_text f n"
| "value_text f (TextValue t) = t"

definition condition_text :: "numfmt \<Rightarrow> TierConditionInput \<Rightarrow> string" where
  "condition_text f c = var_text (tc_var c) @ '' '' @ op_text (tc_op c) @ '' '' @ value_text f (tc_value c)"

definition buildConditionStr :: "numfmt \<Rightarrow> TierConditionInput list option \<Rightarrow> string" where
  "buildConditionStr f conditions =
     (case conditions of
        None \<Rightarrow> []
      | Some cs \<Rightarrow> join '' && '' (map (condition_text f) (filter (\<lambda>c. tc_value c \<noteq> TextValue []) cs)))"

text \<open>\<^verbatim>\<open>tier[field]\<close> for the fields of \<^verbatim>\<open>BILLING_CACHE_VAR_MAP\<close>, read and written.\<close>

definition tier_field :: "string \<Rightarrow> VisualTier \<Rightarrow> jsnum option" where
  "tier_field field tier =
     (if field = ''cache_read_unit_cost'' then vt_cache_read_unit_cost tier
      else if field = ''cache_create_unit_cost'' then vt_cache_create_unit_cost tier
      else if field = ''cache_create_1h_unit_cost'' then vt_cache_create_1h_unit_cost tier
      else if field = ''image_unit_cost'' then vt_image_unit_cost tier
      else if field = ''image_output_unit_cost'' then vt_image_output_unit_cost tier
      else if field = ''audio_input_unit_cost'' then vt_audio_input_unit_cost tier
      else if field = ''audio_output_unit_cost'' then vt_audio_output_unit_cost tier
      else None)"

definition set_tier_field :: "string \<Rightarrow> jsnum \<Rightarrow> VisualTier \<Rightarrow> VisualTier" where
  "set_tier_field field n tier =
     (if field = ''cache_read_unit_cost'' then tier\<lparr>vt_cache_read_unit_cost := Some n\<rparr>
      else if field = ''cache_create_unit_cost'' then tier\<lparr>vt_cache_create_unit_cost := Some n\<rparr>
      else if field = ''cache_create_1h_unit_cost'' then tier\<lparr>vt_cache_create_1h_unit_cost := Some n\<rparr>
      else if field = ''image_unit_cost'' then tier\<lparr>vt_image_unit_cost := Some n\<rparr>
      else if field = ''image_output_unit_cost'' then tier\<lparr>vt_image_output_unit_cost := Some n\<rparr>
      else if field = ''audio_input_unit_cost'' then tier\<lparr>vt_audio_input_unit_cost := Some n\<rparr>
      else if field = ''audio_output_unit_cost'' then tier\<lparr>vt_audio_output_unit_cost := Some n\<rparr>
      else tier)"

definition price_part :: "numfmt \<Rightarrow> string \<Rightarrow> jsnum \<Rightarrow> string" where
  "price_part f var n = var @ '' * '' @ nf_text f n"

definition buildTierBodyExpr :: "numfmt \<Rightarrow> VisualTier \<Rightarrow> string" where
  "buildTierBodyExpr f tier =
     join '' + '' ([price_part f ''p'' (num_or_zero (vt_input_unit_cost tier)),
         price_part f ''c'' (num_or_zero (vt_output_unit_cost tier))] @
       map (\<lambda>(field, var). price_part f var (num_or_zero (tier_field field tier)))
         (filter (\<lambda>(field, var). num_or_zero (tier_field field tier) \<noteq> Fin 0) BILLING_CACHE_VAR_MAP))"

text \<open>\<^verbatim>\<open>tier.label || fallback\<close>, and \<^verbatim>\<open>tier("label", body)\<close>.\<close>

definition label_or :: "string \<Rightarrow> VisualTier \<Rightarrow> string" where
  "label_or fallback tier = (case vt_label tier of None \<Rightarrow> fallback | Some l \<Rightarrow> if l = [] then fallback else l)"

definition tier_call :: "numfmt \<Rightarrow> string \<Rightarrow> VisualTier \<Rightarrow> string" where
  "tier_call f label tier = ''tier('' @ [quote] @ label @ [quote] @ '', '' @ buildTierBodyExpr f tier @ '')''"

definition ZERO_EXPR :: string where "ZERO_EXPR = ''p * 0 + c * 0''"

definition tier_part :: "numfmt \<Rightarrow> nat \<Rightarrow> nat \<Rightarrow> VisualTier \<Rightarrow> string" where
  "tier_part f n i tier =
     (let body = tier_call f (label_or (''tier_'' @ show_nat (i + 1)) tier) tier;
          cond = buildConditionStr f (vt_conditions tier) in
      if i < n - 1 \<and> cond \<noteq> [] then cond @ '' ? '' @ body else body)"

definition generateExprFromVisualConfig :: "numfmt \<Rightarrow> VisualConfig option \<Rightarrow> string" where
  "generateExprFromVisualConfig f config =
     (case config of
        None \<Rightarrow> ZERO_EXPR
      | Some [] \<Rightarrow> ZERO_EXPR
      | Some [tier] \<Rightarrow>
          (let body = tier_call f (label_or ''default'' tier) tier;
               cond = buildConditionStr f (vt_conditions tier) in
           if cond \<noteq> [] then cond @ '' ? '' @ body @ '' : '' @ ZERO_EXPR else body)
      | Some tiers \<Rightarrow>
          join '' : '' (map (\<lambda>(i, tier). tier_part f (length tiers) i tier) (enumerate 0 tiers)))"

section \<open>The expressions the parsers match with\<close>

text \<open>\<^verbatim>\<open>[\d.eE+-]+\<close> and, in conditions, \<^verbatim>\<open>[\d.eE+]+\<close>.\<close>

definition bound_char :: "char \<Rightarrow> bool" where
  "bound_char c \<longleftrightarrow> is_digit c \<or> c \<in> set ''.eE+''"

definition num_re :: re where "num_re = Plus (Chr num_char)"
definition bound_re :: re where "bound_re = Plus (Chr bound_char)"
definition var_re :: re where "var_re = one_of [''p'', ''c'', ''len'']"
definition op_re :: re where "op_re = one_of [''<'', ''<='', ''>'', ''>='']"

text \<open>\<^verbatim>\<open>(?:\s*\+\s*v\s*\*\s*([\d.eE+-]+))?\<close> for group \<open>i\<close>.\<close>

definition extra_re :: "nat \<Rightarrow> string \<Rightarrow> re" where
  "extra_re i v = Opt (seq [ws, lit_re ''+'', ws, lit_re v, ws, lit_re ''*'', ws, Group i num_re])"

text \<open>\<^verbatim>\<open>bodyPat\<close>, whose groups start at \<open>i\<close>.\<close>

definition body_res :: "nat \<Rightarrow> re list" where
  "body_res i =
     [lit_re ''p'', ws, lit_re ''*'', ws, Group i num_re, ws, lit_re ''+'', ws, lit_re ''c'', ws, lit_re ''*'', ws,
      Group (i + 1) num_re] @
     map (\<lambda>(j, field, v). extra_re j v) (enumerate (i + 2) BILLING_CACHE_VAR_MAP)"

definition label_re :: "nat \<Rightarrow> re list" where
  "label_re i = [lit_re (''tier('' @ [quote]), Group i (Star (Chr (\<lambda>c. c \<noteq> quote))), lit_re [quote, CHR '','']]"

definition single_re :: re where
  "single_re = seq ([AtStart] @ label_re 1 @ [ws] @ body_res 2 @ [lit_re '')'', AtEnd])"

definition cond_re :: re where
  "cond_re = seq [var_re, ws, op_re, ws, bound_re]"

definition more_cond_re :: re where
  "more_cond_re = Star (seq [ws, lit_re ''&&'', ws, var_re, ws, op_re, ws, bound_re])"

definition guard_re :: re where
  "guard_re = Opt (seq [Group 1 (Seq cond_re more_cond_re), ws, lit_re ''?'', ws])"

definition tier_re :: re where
  "tier_re = seq ([guard_re] @ label_re 2 @ [ws] @ body_res 3 @ [lit_re '')''])"

definition and_re :: re where "and_re = seq [ws, lit_re ''&&'', ws]"

definition condition_re :: re where
  "condition_re = seq [AtStart, Group 1 var_re, ws, Group 2 op_re, ws, Group 3 bound_re, AtEnd]"

text \<open>The version in front of an expression, as the pricing page reads it; the editor's pattern has no group around the
  digits, so that the rest is its group 1.\<close>

definition version_re :: re where
  "version_re = seq [AtStart, lit_re ''v'', Group 1 (Plus (Chr is_digit)), lit_re '':'', Group 2 (Star (Chr (\<lambda>_. True))), AtEnd]"

section \<open>Reading an expression back\<close>

definition var_of :: "string \<Rightarrow> TierVar" where
  "var_of s = (if s = ''p'' then VarP else if s = ''c'' then VarC else VarLen)"

definition op_of :: "string \<Rightarrow> TierOp" where
  "op_of s = (if s = ''<'' then Lt else if s = ''<='' then Le else if s = ''>'' then Gt else Ge)"

text \<open>\<^verbatim>\<open>Number(m[i])\<close>.\<close>

definition group_num :: "numfmt \<Rightarrow> captures \<Rightarrow> nat \<Rightarrow> jsnum" where
  "group_num f cs i = (case cs i of None \<Rightarrow> NaN | Some t \<Rightarrow> nf_number f t)"

definition read_condition :: "numfmt \<Rightarrow> string \<Rightarrow> TierConditionInput option" where
  "read_condition f cp =
     map_option (\<lambda>cs. \<lparr>tc_var = var_of (or_value (cs 1) []), tc_op = op_of (or_value (cs 2) []),
         tc_value = NumValue (group_num f cs 3)\<rparr>)
       (re_match condition_re (trim cp))"

definition read_conditions :: "numfmt \<Rightarrow> string option \<Rightarrow> TierConditionInput list" where
  "read_conditions f condStr =
     (case condStr of
        None \<Rightarrow> []
      | Some s \<Rightarrow> (if s = [] then [] else List.map_filter (read_condition f) (split_re and_re None s)))"

text \<open>The tier of a match: the label in group \<open>l\<close>, the prices from group \<open>l + 1\<close> on.\<close>

definition set_extras :: "numfmt \<Rightarrow> captures \<Rightarrow> nat \<Rightarrow> VisualTier \<Rightarrow> VisualTier" where
  "set_extras f cs i tier =
     foldl (\<lambda>tier (j, field, v). if cs j \<noteq> None then set_tier_field field (group_num f cs j) tier else tier)
       tier (enumerate i BILLING_CACHE_VAR_MAP)"

definition read_tier :: "numfmt \<Rightarrow> nat \<Rightarrow> TierConditionInput list \<Rightarrow> captures \<Rightarrow> VisualTier" where
  "read_tier f l conditions cs =
     normalizeVisualTier (set_extras f cs (l + 3) (no_tier\<lparr>vt_conditions := Some conditions,
       vt_input_unit_cost := Some (group_num f cs (l + 1)), vt_output_unit_cost := Some (group_num f cs (l + 2)),
       vt_label := cs l\<rparr>))"

definition strip_version :: "string \<Rightarrow> string" where
  "strip_version s = (case re_match version_re s of None \<Rightarrow> s | Some cs \<Rightarrow> or_value (cs 2) [])"

definition remove_ws :: "string \<Rightarrow> string" where
  "remove_ws s = filter (\<lambda>c. \<not> is_ws c) s"

text \<open>The outer \<open>None\<close> is a loop that does not end.\<close>

definition tryParseVisualConfig :: "numfmt \<Rightarrow> string \<Rightarrow> VisualConfig option option" where
  "tryParseVisualConfig f exprStr =
     (if exprStr = [] then Some None
      else (let body = strip_version exprStr in
        case re_match single_re body of
          Some cs \<Rightarrow> Some (Some (normalizeVisualConfig (Some [read_tier f 1 [] cs])))
        | None \<Rightarrow>
            map_option (\<lambda>ms.
                let tiers = map (\<lambda>cs. read_tier f 2 (read_conditions f (cs 1)) cs) ms;
                    cfg = normalizeVisualConfig (Some tiers) in
                if tiers = [] then None
                else if remove_ws (generateExprFromVisualConfig f (Some cfg)) \<noteq> remove_ws body then None
                else Some cfg)
              (exec_loop tier_re None body)))"

section \<open>The tiers the pricing page shows\<close>

definition stripExprVersion :: "numfmt \<Rightarrow> string \<Rightarrow> jsnum \<times> string" where
  "stripExprVersion f exprStr =
     (if exprStr = [] then (Fin 1, [])
      else (case re_match version_re exprStr of
          Some cs \<Rightarrow> (group_num f cs 1, or_value (cs 2) [])
        | None \<Rightarrow> (Fin 1, exprStr)))"

definition BILLING_VAR_REGEX :: re where
  "BILLING_VAR_REGEX =
     seq [WordBoundary, Group 1 (one_of (map bv_key BILLING_PRICING_VARS)), ws, lit_re ''*'', ws, Group 2 num_re]"

definition add_coefficient :: "numfmt \<Rightarrow> (string \<times> jsnum) list \<Rightarrow> captures \<Rightarrow> (string \<times> jsnum) list" where
  "add_coefficient f coeffs cs =
     (let v = or_value (cs 1) [] in
      if map_of coeffs v = None then coeffs @ [(v, group_num f cs 2)] else coeffs)"

definition parseTierBody :: "numfmt \<Rightarrow> string \<Rightarrow> (string \<times> jsnum) list option" where
  "parseTierBody f bodyStr =
     map_option (\<lambda>ms.
         let coeffs = foldl (add_coefficient f) [] ms in
         map (\<lambda>(varName, field). (field, num_or_zero (map_of coeffs varName))) BILLING_VAR_KEY_TO_FIELD)
       (exec_loop BILLING_VAR_REGEX None bodyStr)"

record ParsedTier =
  pt_label :: string
  pt_conditions :: "TierConditionInput list"
  pt_prices :: "(string \<times> jsnum) list"

text \<open>\<^verbatim>\<open>[^)]+\<close> in place of the prices.\<close>

definition call_re :: re where
  "call_re = seq ([guard_re] @ label_re 2 @ [ws, Group 3 (Plus (Chr (\<lambda>c. c \<noteq> CHR '')''))), lit_re '')''])"

definition parsed_tier :: "numfmt \<Rightarrow> captures \<Rightarrow> ParsedTier option" where
  "parsed_tier f cs =
     map_option (\<lambda>prices. \<lparr>pt_label = or_value (cs 2) [], pt_conditions = read_conditions f (cs 1), pt_prices = prices\<rparr>)
       (parseTierBody f (or_value (cs 3) []))"

fun all_some :: "'a option list \<Rightarrow> 'a list option" where
  "all_some [] = Some []"
| "all_some (None # xs) = None"
| "all_some (Some x # xs) = map_option (Cons x) (all_some xs)"

definition parseTiersFromExpr :: "numfmt \<Rightarrow> string \<Rightarrow> ParsedTier list option" where
  "parseTiersFromExpr f exprStr =
     (if exprStr = [] then Some []
      else Option.bind (exec_loop call_re None (snd (stripExprVersion f exprStr)))
        (\<lambda>ms. all_some (map (parsed_tier f) ms)))"

text \<open>\<^verbatim>\<open>ESTIMATOR_VARS\<close>, and whether an expression mentions one of them.\<close>

definition ESTIMATOR_VARS :: "(string \<times> string) list" where
  "ESTIMATOR_VARS = [(''cr'', ''cacheReadTokens''), (''cc'', ''cacheCreateTokens''), (''cc1h'', ''cacheCreate1hTokens''),
     (''img'', ''imageTokens''), (''img_o'', ''imageOutputTokens''), (''ai'', ''audioInputTokens''),
     (''ao'', ''audioOutputTokens'')]"

definition exprUsesExtraVars :: "string \<Rightarrow> bool" where
  "exprUsesExtraVars exprStr \<longleftrightarrow> exprStr \<noteq> [] \<and>
     re_test (seq [WordBoundary, Group 1 (one_of (map fst ESTIMATOR_VARS)), WordBoundary]) exprStr"

end
