(* ===== verification/TierText.thy ===== *)
theory TierText
  imports TierExpr
begin

text \<open>
  What the expressions of the tier parsers take of the texts the printer writes: prices, conditions, calls of
  \<^verbatim>\<open>tier\<close>, and the matches of a whole expression one after the other.
\<close>

section \<open>Prices\<close>

text \<open>A number is written in the characters of the class and read back as itself.\<close>

definition price_ok :: "numfmt \<Rightarrow> jsnum \<Rightarrow> bool" where
  "price_ok f n \<longleftrightarrow> nf_text f n \<noteq> [] \<and> list_all num_char (nf_text f n) \<and> nf_number f (nf_text f n) = n"

lemma char_facts [simp]:
  "\<not> num_char CHR '' ''" "\<not> num_char CHR '')''" "\<not> is_ws CHR ''+''" "\<not> is_ws CHR ''*''" "is_ws CHR '' ''"
  "\<not> bound_char CHR '' ''" "\<not> is_ws CHR ''p''" "\<not> is_ws CHR ''c''" "\<not> is_ws CHR ''l''" "\<not> is_ws CHR '')''"
  "\<not> is_ws CHR ''?''" "\<not> is_ws CHR ''&''" "\<not> is_ws CHR ''<''" "\<not> is_ws CHR ''>''" "\<not> is_ws CHR ''t''"
  "\<not> is_ws CHR ''i''" "\<not> is_ws CHR ''a''" "\<not> is_ws CHR '':''" "\<not> is_ws CHR ''=''" "\<not> bound_char CHR ''=''"
  by (simp_all add: num_char_def bound_char_def is_ws_def is_digit_def)

lemma num_not_ws: "num_char c \<Longrightarrow> \<not> is_ws c"
  unfolding num_char_def by (elim disjE) (simp_all add: digit_not_ws, auto simp: is_ws_def)

lemma bound_num: "bound_char c \<Longrightarrow> num_char c"
  by (auto simp: bound_char_def num_char_def)

lemma takes_ws_none: "s = [] \<or> \<not> is_ws (hd s) \<Longrightarrow> takes ws [] s cs cs"
  unfolding ws_def by (rule takes_class) simp_all

lemma takes_space: "s = [] \<or> \<not> is_ws (hd s) \<Longrightarrow> takes ws '' '' s cs cs"
  unfolding ws_def by (rule takes_class) simp_all

lemma takes_num:
  "price_ok f n \<Longrightarrow> s = [] \<or> \<not> num_char (hd s) \<Longrightarrow> takes num_re (nf_text f n) s cs cs"
  unfolding num_re_def price_ok_def by (intro takes_plus) simp_all

lemma price_hd: "price_ok f n \<Longrightarrow> nf_text f n @ s \<noteq> [] \<and> \<not> is_ws (hd (nf_text f n @ s))"
  by (cases "nf_text f n") (simp_all add: price_ok_def num_not_ws)

text \<open>\<^verbatim>\<open>v\s*\*\s*([\d.eE+-]+)\<close>.\<close>

definition part_re :: "nat \<Rightarrow> string \<Rightarrow> re list" where
  "part_re i v = [lit_re v, ws, lit_re ''*'', ws, Group i num_re]"

lemma takes_part:
  assumes "price_ok f n" "s = [] \<or> \<not> num_char (hd s)"
  shows "takes (seq (part_re i v)) (price_part f v n) s cs (cs(i \<mapsto> nf_text f n))"
proof -
  let ?n = "nf_text f n"
  have "takes (seq [Group i num_re]) ?n s cs (cs(i \<mapsto> ?n))"
    by (intro takes_one takes_Group takes_num assms)
  from takes_Cons [OF takes_space this] have "takes (seq [ws, Group i num_re]) ('' '' @ ?n) s cs (cs(i \<mapsto> ?n))"
    using price_hd [OF assms(1)] by simp
  from takes_Cons [OF takes_lit this] have "takes (seq [lit_re ''*'', ws, Group i num_re]) (''*'' @ '' '' @ ?n) s cs (cs(i \<mapsto> ?n))" .
  from takes_Cons [OF takes_space this] have
    "takes (seq [ws, lit_re ''*'', ws, Group i num_re]) ('' '' @ ''*'' @ '' '' @ ?n) s cs (cs(i \<mapsto> ?n))" by simp
  from takes_Cons [OF takes_lit this] show ?thesis
    unfolding part_re_def price_part_def by simp
qed

definition plus_re :: "re list" where
  "plus_re = [ws, lit_re ''+'', ws]"

lemma takes_plus_sign: "s \<noteq> [] \<Longrightarrow> \<not> is_ws (hd s) \<Longrightarrow> takes (seq plus_re) '' + '' s cs cs"
proof -
  assume s: "s \<noteq> []" "\<not> is_ws (hd s)"
  have "takes (seq [ws]) '' '' s cs cs" using s by (intro takes_one takes_space) simp
  from takes_Cons [OF takes_lit this] have "takes (seq [lit_re ''+'', ws]) (''+'' @ '' '') s cs cs" .
  from takes_Cons [OF takes_space this] show ?thesis by (simp add: plus_re_def)
qed

lemma extra_re_alt: "extra_re i v = Opt (seq (plus_re @ part_re i v))"
  by (simp add: extra_re_def plus_re_def part_re_def)

text \<open>A price of another variable is not taken for one of \<open>v\<close>.\<close>

definition apart :: "string \<Rightarrow> string \<Rightarrow> bool" where
  "apart v w \<longleftrightarrow> \<not> prefix v w \<and> \<not> prefix w v \<or> (\<exists>c t. w = v @ c # t \<and> \<not> is_ws c \<and> c \<noteq> CHR ''*'')"

lemma refuses_ws_hd:
  assumes "s = [] \<or> \<not> is_ws (hd s)" "refuses q s"
  shows "refuses (Seq ws q) s"
proof (rule refuses_ws)
  fix u t assume "s = u @ t" "list_all is_ws u"
  with assms(1) have "u = []" by (cases u) auto
  with assms(2) \<open>s = u @ t\<close> show "refuses q t" by simp
qed

lemma refuses_space:
  assumes "s \<noteq> []" "\<not> is_ws (hd s)" "refuses q ('' '' @ s)" "refuses q s"
  shows "refuses (Seq ws q) ('' '' @ s)"
proof (rule refuses_ws)
  fix u t assume u: "'' '' @ s = u @ t" "list_all is_ws u"
  with assms(1,2) have "u = [] \<or> u = '' ''" by (cases u; cases "tl u"; cases s) auto
  with assms(3,4) u(1) show "refuses q t" by auto
qed

lemma refuses_after_lit:
  assumes "\<And>t. s = u @ t \<Longrightarrow> refuses q t"
  shows "refuses (Seq (lit_re u) q) s"
proof (cases "prefix u s")
  case True
  then obtain t where "s = u @ t" by (auto simp: prefix_def)
  then show ?thesis using assms by (simp add: refuses_def dead_def runs_lit)
qed (intro refuses_Seq refuses_lit)

lemma refuses_char: "s = [] \<or> hd s \<noteq> c \<Longrightarrow> refuses (Seq (lit_re (c # u)) q) s"
  by (intro refuses_Seq refuses_lit) (cases s; simp)

lemma refuses_part:
  assumes "apart v w"
  shows "refuses (seq (part_re i v)) (price_part f w n @ s)"
  unfolding part_re_def seq.simps price_part_def
proof (rule refuses_after_lit)
  fix t assume t: "(w @ '' * '' @ nf_text f n) @ s = v @ t"
  have "\<not> (\<not> prefix v w \<and> \<not> prefix w v)"
    using t by (metis append.assoc prefixI prefix_same_cases)
  with assms obtain c x where "w = v @ c # x" "\<not> is_ws c" "c \<noteq> CHR ''*''" by (auto simp: apart_def)
  with t have "t \<noteq> []" "\<not> is_ws (hd t)" "hd t \<noteq> CHR ''*''" by auto
  then show "refuses (Seq ws (Seq (lit_re ''*'') (Seq ws (Seq (Group i num_re) Eps)))) t"
    by (intro refuses_ws_hd refuses_char) simp_all
qed

text \<open>A variable starts with a letter.\<close>

definition var_like :: "string \<Rightarrow> bool" where
  "var_like v \<longleftrightarrow> v \<noteq> [] \<and> \<not> is_ws (hd v) \<and> hd v \<notin> set ''+*)''"

lemma refuses_other:
  assumes "apart v w" "var_like v" "var_like w"
  shows "refuses (seq (plus_re @ part_re i v)) ('' + '' @ price_part f w n @ s)"
proof -
  let ?s = "price_part f w n @ s" and ?q = "seq (part_re i v)"
  obtain c w' where w: "w = c # w'" "\<not> is_ws c" "c \<noteq> CHR ''+''" using assms(3) by (cases w) (auto simp: var_like_def)
  obtain d v' where v: "v = d # v'" "\<not> is_ws d" using assms(2) by (cases v) (auto simp: var_like_def)
  have "refuses (Seq (lit_re (d # v')) (seq [ws, lit_re ''*'', ws, Group i num_re])) ('' '' @ ?s)"
    using v(2) by (intro refuses_char) auto
  then have "refuses ?q ('' '' @ ?s)" by (simp add: part_re_def v(1))
  then have "refuses (Seq ws ?q) ('' '' @ ?s)"
    using refuses_part [OF assms(1)] w(2) by (intro refuses_space) (simp_all add: price_part_def w(1))
  then have "refuses (Seq (lit_re ''+'') (Seq ws ?q)) (''+'' @ '' '' @ ?s)"
    by (intro refuses_after_lit) simp
  moreover have "refuses (Seq (lit_re ''+'') (Seq ws ?q)) ('' '' @ ''+'' @ '' '' @ ?s)"
    by (rule refuses_char) simp
  ultimately have "refuses (Seq ws (Seq (lit_re ''+'') (Seq ws ?q))) ('' '' @ ''+'' @ '' '' @ ?s)"
    by (intro refuses_space) simp_all
  then show ?thesis by (simp add: plus_re_def)
qed

lemma refuses_close: "hd s = CHR '')'' \<Longrightarrow> s \<noteq> [] \<Longrightarrow> refuses (seq (plus_re @ rs)) s"
  unfolding plus_re_def by (simp only: append.simps seq.simps) (intro refuses_ws_hd refuses_char; simp)

section \<open>The optional prices\<close>

abbreviation extra_price :: "VisualTier \<Rightarrow> string \<times> string \<Rightarrow> jsnum" where
  "extra_price tier x \<equiv> num_or_zero (tier_field (fst x) tier)"

fun extra_text :: "numfmt \<Rightarrow> VisualTier \<Rightarrow> (string \<times> string) list \<Rightarrow> string" where
  "extra_text f tier [] = []"
| "extra_text f tier (x # xs) =
     (if extra_price tier x = Fin 0 then [] else '' + '' @ price_part f (snd x) (extra_price tier x)) @
     extra_text f tier xs"

fun extra_res :: "nat \<Rightarrow> (string \<times> string) list \<Rightarrow> re list" where
  "extra_res i [] = []"
| "extra_res i (x # xs) = extra_re i (snd x) # extra_res (Suc i) xs"

lemma extra_res_enumerate: "map (\<lambda>(j, field, v). extra_re j v) (enumerate i xs) = extra_res i xs"
  by (induction xs arbitrary: i) auto

fun extra_caps :: "numfmt \<Rightarrow> VisualTier \<Rightarrow> nat \<Rightarrow> (string \<times> string) list \<Rightarrow> captures \<Rightarrow> captures" where
  "extra_caps f tier i [] cs = cs"
| "extra_caps f tier i (x # xs) cs =
     extra_caps f tier (Suc i) xs (if extra_price tier x = Fin 0 then cs else cs(i \<mapsto> nf_text f (extra_price tier x)))"

lemma extra_text_start:
  "extra_text f tier xs = [] \<or> (\<exists>x \<in> set xs. \<exists>s. extra_text f tier xs = '' + '' @ price_part f (snd x) (extra_price tier x) @ s)"
  by (induction xs) auto

lemma takes_extras:
  assumes "\<forall>x \<in> set xs. price_ok f (extra_price tier x) \<and> var_like (snd x)"
    and "sorted_wrt (\<lambda>x y. apart (snd x) (snd y)) xs" "s \<noteq> []" "hd s = CHR '')''"
  shows "takes (seq (extra_res i xs)) (extra_text f tier xs) s cs (extra_caps f tier i xs cs)"
  using assms(1,2)
proof (induction xs arbitrary: i cs)
  case Nil
  then show ?case using takes_Nil by simp
next
  case (Cons x xs)
  let ?n = "extra_price tier x" and ?rest = "extra_text f tier xs"
  let ?cs = "if ?n = Fin 0 then cs else cs(i \<mapsto> nf_text f ?n)"
  let ?u = "if ?n = Fin 0 then [] else '' + '' @ price_part f (snd x) ?n"
  have start: "?rest @ s \<noteq> []" "\<not> num_char (hd (?rest @ s))"
    using extra_text_start [of f tier xs] assms(3,4) by auto
  have "takes (extra_re i (snd x)) ?u (?rest @ s) cs ?cs"
  proof (cases "?n = Fin 0")
    case True
    have "refuses (seq (plus_re @ part_re i (snd x))) (?rest @ s)"
      using extra_text_start [of f tier xs]
    proof
      assume "?rest = []"
      then show ?thesis using refuses_close assms(3,4) by simp
    next
      assume "\<exists>y \<in> set xs. \<exists>t. ?rest = '' + '' @ price_part f (snd y) (extra_price tier y) @ t"
      then obtain y t where y: "y \<in> set xs" "?rest = '' + '' @ price_part f (snd y) (extra_price tier y) @ t" by blast
      then have "apart (snd x) (snd y)" "var_like (snd x)" "var_like (snd y)" using Cons.prems by auto
      from refuses_other [OF this] show ?thesis by (simp add: y(2))
    qed
    then show ?thesis using True by (simp add: extra_re_alt takes_Opt_skip)
  next
    case False
    have x: "price_ok f ?n" "var_like (snd x)" using Cons.prems(1) by simp_all
    then have "takes (seq (part_re i (snd x))) (price_part f (snd x) ?n) (?rest @ s) cs (cs(i \<mapsto> nf_text f ?n))"
      using start by (intro takes_part) auto
    moreover have "takes (seq plus_re) '' + '' (price_part f (snd x) ?n @ ?rest @ s) cs cs"
      using x(2) by (intro takes_plus_sign) (cases "snd x"; simp add: price_part_def var_like_def)+
    ultimately show ?thesis
      using False takes_append [of plus_re "'' + ''"] by (simp add: extra_re_alt takes_Opt)
  qed
  moreover have "takes (seq (extra_res (Suc i) xs)) ?rest s ?cs (extra_caps f tier (Suc i) xs ?cs)"
    using Cons by simp
  ultimately show ?case unfolding extra_res.simps extra_text.simps extra_caps.simps by (rule takes_Cons)
qed

section \<open>Calls of a tier\<close>

lemma cache_vars:
  "BILLING_CACHE_VAR_MAP = [(''cache_read_unit_cost'', ''cr''), (''cache_create_unit_cost'', ''cc''),
     (''cache_create_1h_unit_cost'', ''cc1h''), (''image_unit_cost'', ''img''), (''image_output_unit_cost'', ''img_o''),
     (''audio_input_unit_cost'', ''ai''), (''audio_output_unit_cost'', ''ao'')]"
  by (simp add: BILLING_CACHE_VAR_MAP_def BILLING_EXTRA_VARS_def BILLING_VARS_def)

lemma cache_vars_apart: "sorted_wrt (\<lambda>x y. apart (snd x) (snd y)) BILLING_CACHE_VAR_MAP"
  "\<forall>x \<in> set BILLING_CACHE_VAR_MAP. var_like (snd x)"
  by (simp_all add: cache_vars apart_def var_like_def is_ws_def)

definition prices_ok :: "numfmt \<Rightarrow> VisualTier \<Rightarrow> bool" where
  "prices_ok f tier \<longleftrightarrow> price_ok f (num_or_zero (vt_input_unit_cost tier)) \<and>
     price_ok f (num_or_zero (vt_output_unit_cost tier)) \<and>
     (\<forall>x \<in> set BILLING_CACHE_VAR_MAP. price_ok f (extra_price tier x))"

lemma join_Cons: "join sep (x # xs) = x @ concat (map (\<lambda>y. sep @ y) xs)"
proof (induction xs arbitrary: x)
  case (Cons y ys)
  then show ?case by (simp only: join.simps list.map concat.simps append_assoc)
qed simp

lemma body_expr_text:
  "buildTierBodyExpr f tier = price_part f ''p'' (num_or_zero (vt_input_unit_cost tier)) @ '' + '' @
     price_part f ''c'' (num_or_zero (vt_output_unit_cost tier)) @ extra_text f tier BILLING_CACHE_VAR_MAP"
proof -
  have "concat (map (\<lambda>y. '' + '' @ y) (map (\<lambda>(field, var). price_part f var (num_or_zero (tier_field field tier)))
      (filter (\<lambda>(field, var). num_or_zero (tier_field field tier) \<noteq> Fin 0) xs))) = extra_text f tier xs" for xs
    by (induction xs) (auto split: prod.split)
  then show ?thesis unfolding buildTierBodyExpr_def append.simps join_Cons by simp
qed

lemma body_res_alt:
  "body_res i = part_re i ''p'' @ plus_re @ part_re (i + 1) ''c'' @ extra_res (i + 2) BILLING_CACHE_VAR_MAP"
  unfolding body_res_def extra_res_enumerate by (simp add: part_re_def plus_re_def)

definition body_caps :: "numfmt \<Rightarrow> nat \<Rightarrow> VisualTier \<Rightarrow> captures \<Rightarrow> captures" where
  "body_caps f i tier cs = extra_caps f tier (i + 2) BILLING_CACHE_VAR_MAP
     (cs(i \<mapsto> nf_text f (num_or_zero (vt_input_unit_cost tier)),
         i + 1 \<mapsto> nf_text f (num_or_zero (vt_output_unit_cost tier))))"

lemma takes_body:
  assumes "prices_ok f tier" "s \<noteq> []" "hd s = CHR '')''"
  shows "takes (seq (body_res i)) (buildTierBodyExpr f tier) s cs (body_caps f i tier cs)"
proof -
  let ?p = "num_or_zero (vt_input_unit_cost tier)" and ?c = "num_or_zero (vt_output_unit_cost tier)"
  let ?xs = BILLING_CACHE_VAR_MAP
  let ?cs = "cs(i \<mapsto> nf_text f ?p)"
  have xs: "takes (seq (extra_res (i + 2) ?xs)) (extra_text f tier ?xs) s (?cs(i + 1 \<mapsto> nf_text f ?c)) (body_caps f i tier cs)"
    unfolding body_caps_def using assms cache_vars_apart by (intro takes_extras) (auto simp: prices_ok_def)
  have start: "extra_text f tier ?xs @ s \<noteq> []" "\<not> num_char (hd (extra_text f tier ?xs @ s))"
    using extra_text_start [of f tier ?xs] assms(2,3) by auto
  then have "takes (seq (part_re (i + 1) ''c'')) (price_part f ''c'' ?c) (extra_text f tier ?xs @ s) ?cs (?cs(i + 1 \<mapsto> nf_text f ?c))"
    using assms(1) by (intro takes_part) (auto simp: prices_ok_def)
  from takes_append [OF this xs] have c: "takes (seq (part_re (i + 1) ''c'' @ extra_res (i + 2) ?xs))
      (price_part f ''c'' ?c @ extra_text f tier ?xs) s ?cs (body_caps f i tier cs)" .
  have "takes (seq plus_re) '' + '' ((price_part f ''c'' ?c @ extra_text f tier ?xs) @ s) ?cs ?cs"
    by (rule takes_plus_sign) (simp_all add: price_part_def)
  from takes_append [OF this c] have plus: "takes (seq (plus_re @ part_re (i + 1) ''c'' @ extra_res (i + 2) ?xs))
      ('' + '' @ price_part f ''c'' ?c @ extra_text f tier ?xs) s ?cs (body_caps f i tier cs)" .
  have "takes (seq (part_re i ''p'')) (price_part f ''p'' ?p)
      (('' + '' @ price_part f ''c'' ?c @ extra_text f tier ?xs) @ s) cs ?cs"
    using assms(1) by (intro takes_part) (simp_all add: prices_ok_def)
  from takes_append [OF this plus] show ?thesis unfolding body_res_alt body_expr_text .
qed

lemma takes_label:
  assumes "quote \<notin> set label"
  shows "takes (seq (label_re i)) (''tier('' @ [quote] @ label @ [quote] @ '','') s cs (cs(i \<mapsto> label))"
proof -
  have "takes (seq [lit_re [quote, CHR '','']]) [quote, CHR '',''] s (cs(i \<mapsto> label)) (cs(i \<mapsto> label))"
    by (intro takes_one takes_lit)
  moreover have "takes (Group i (Star (Chr (\<lambda>c. c \<noteq> quote)))) label ([quote, CHR '',''] @ s) cs (cs(i \<mapsto> label))"
    using assms by (intro takes_Group takes_class) (auto simp: list_all_iff)
  ultimately have "takes (seq [Group i (Star (Chr (\<lambda>c. c \<noteq> quote))), lit_re [quote, CHR '','']])
      (label @ [quote, CHR '','']) s cs (cs(i \<mapsto> label))" by (intro takes_Cons)
  from takes_Cons [OF takes_lit this, of "''tier('' @ [quote]"] show ?thesis by (simp add: label_re_def)
qed

definition call_caps :: "numfmt \<Rightarrow> nat \<Rightarrow> string \<Rightarrow> VisualTier \<Rightarrow> captures \<Rightarrow> captures" where
  "call_caps f l label tier cs = body_caps f (l + 1) tier (cs(l \<mapsto> label))"

lemma body_start: "\<exists>t. buildTierBodyExpr f tier = CHR ''p'' # t"
  by (simp add: body_expr_text price_part_def)

lemma takes_call:
  assumes "prices_ok f tier" "quote \<notin> set label"
  shows "takes (seq (label_re l @ [ws] @ body_res (l + 1) @ [lit_re '')''])) (tier_call f label tier) s cs
    (call_caps f l label tier cs)"
proof -
  let ?cs = "cs(l \<mapsto> label)" and ?b = "buildTierBodyExpr f tier"
  have "takes (seq [lit_re '')'']) '')'' s (call_caps f l label tier cs) (call_caps f l label tier cs)"
    by (intro takes_one takes_lit)
  moreover have "takes (seq (body_res (l + 1))) ?b ('')'' @ s) ?cs (call_caps f l label tier cs)"
    unfolding call_caps_def by (rule takes_body [OF assms(1)]) simp_all
  ultimately have "takes (seq (body_res (l + 1) @ [lit_re '')''])) (?b @ '')'') s ?cs (call_caps f l label tier cs)"
    by (intro takes_append)
  moreover have "takes ws '' '' ((?b @ '')'') @ s) ?cs ?cs"
    using body_start [of f tier] by (intro takes_space) auto
  ultimately have "takes (seq ([ws] @ body_res (l + 1) @ [lit_re '')''])) ('' '' @ ?b @ '')'') s ?cs (call_caps f l label tier cs)"
    unfolding append.simps(2) [of ws "[]"] append.simps(1) [of "body_res (l + 1) @ [lit_re '')'']"] by (intro takes_Cons)
  from takes_append [OF takes_label [OF assms(2)] this] show ?thesis
    by (simp add: tier_call_def)
qed

section \<open>Conditions\<close>

text \<open>The bound of a condition is a numeral without a minus sign that is written as it is read.\<close>

definition bound_ok :: "numfmt \<Rightarrow> TierValue \<Rightarrow> bool" where
  "bound_ok f v \<longleftrightarrow> value_text f v \<noteq> [] \<and> list_all bound_char (value_text f v) \<and>
     nf_text f (nf_number f (value_text f v)) = value_text f v"

lemma takes_Alt1: "takes r u s cs cs' \<Longrightarrow> takes (Alt r q) u s cs cs'"
  by (simp add: takes_def leads_Alt1)

lemma takes_Alt2: "refuses r (u @ s) \<Longrightarrow> takes q u s cs cs' \<Longrightarrow> takes (Alt r q) u s cs cs'"
  by (simp add: takes_def refuses_def leads_Alt2)

lemma takes_var: "takes var_re (var_text v) s cs cs"
proof -
  have p: "takes (lit_re ''p'') ''p'' s cs cs" and c: "takes (lit_re ''c'') ''c'' s cs cs"
    and len: "takes (lit_re ''len'') ''len'' s cs cs"
    by (rule takes_lit)+
  show ?thesis
    unfolding var_re_def one_of.simps
    by (cases v; simp only: var_text.simps)
      (rule takes_Alt1 [OF p] takes_Alt2 [OF refuses_lit takes_Alt1 [OF c]]
         takes_Alt2 [OF refuses_lit takes_Alt2 [OF refuses_lit len]]; simp)+
qed

lemma op_runs:
  obtains ks where "runs op_re (b, op_text oper @ '' '' @ x, cs) = ks @ [(after b (op_text oper), '' '' @ x, cs)]"
    "\<forall>k \<in> set ks. \<exists>b'. k = (b', ''= '' @ x, cs)"
  by (cases oper) (simp_all add: op_re_def)

lemma takes_op:
  assumes "takes q ('' '' @ t) s cs cs'" "refuses q (''= '' @ t @ s)"
  shows "takes (Seq op_re q) (op_text oper @ '' '' @ t) s cs cs'"
  unfolding takes_def
proof
  fix b
  obtain ks where ks: "runs op_re (b, op_text oper @ '' '' @ t @ s, cs) = ks @ [(after b (op_text oper), '' '' @ t @ s, cs)]"
    "\<forall>k \<in> set ks. \<exists>b'. k = (b', ''= '' @ t @ s, cs)" by (rule op_runs)
  have "leads q (after b (op_text oper), '' '' @ t @ s, cs) (after (after b (op_text oper)) ('' '' @ t), s, cs')"
    using assms(1) unfolding takes_def append_assoc by blast
  moreover have "\<forall>k \<in> set ks. dead q k" using ks(2) assms(2) by (auto simp: refuses_def)
  ultimately show "leads (Seq op_re q) (b, (op_text oper @ '' '' @ t) @ s, cs) (after b (op_text oper @ '' '' @ t), s, cs')"
    using leads_Seq_skip [of op_re _ ks] ks(1) by simp
qed

lemma takes_op_group:
  assumes "takes q ('' '' @ t) s (cs(i \<mapsto> op_text oper)) cs'" "refuses q (''= '' @ t @ s)"
  shows "takes (Seq (Group i op_re) q) (op_text oper @ '' '' @ t) s cs cs'"
  unfolding takes_def
proof
  fix b
  let ?s = "op_text oper @ '' '' @ t @ s"
  obtain ks where ks: "runs op_re (b, ?s, cs) = ks @ [(after b (op_text oper), '' '' @ t @ s, cs)]"
    "\<forall>k \<in> set ks. \<exists>b'. k = (b', ''= '' @ t @ s, cs)" by (rule op_runs)
  let ?ks = "map (capture_text i ?s) ks"
  have "runs (Group i op_re) (b, ?s, cs) = ?ks @ [(after b (op_text oper), '' '' @ t @ s, cs(i \<mapsto> op_text oper))]"
    unfolding runs.simps ks(1) by simp
  moreover have "\<forall>k \<in> set ?ks. dead q k" using ks(2) assms(2) by (auto simp: refuses_def)
  moreover have "leads q (after b (op_text oper), '' '' @ t @ s, cs(i \<mapsto> op_text oper))
      (after (after b (op_text oper)) ('' '' @ t), s, cs')"
    using assms(1) unfolding takes_def append_assoc by blast
  ultimately show "leads (Seq (Group i op_re) q) (b, (op_text oper @ '' '' @ t) @ s, cs)
      (after b (op_text oper @ '' '' @ t), s, cs')"
    using leads_Seq_skip [of "Group i op_re" "(b, ?s, cs)" ?ks] by simp
qed

lemma refuses_bound: "hd s = CHR ''='' \<Longrightarrow> s \<noteq> [] \<Longrightarrow> refuses bound_re s"
  by (cases s) (simp_all add: bound_re_def Plus_def refuses_def dead_def)

lemma bound_hd: "bound_ok f v \<Longrightarrow> value_text f v @ s \<noteq> [] \<and> \<not> is_ws (hd (value_text f v @ s))"
  by (cases "value_text f v") (simp_all add: bound_ok_def num_not_ws bound_num)

lemma takes_bound:
  "bound_ok f v \<Longrightarrow> s = [] \<or> \<not> bound_char (hd s) \<Longrightarrow> takes bound_re (value_text f v) s cs cs"
  unfolding bound_re_def bound_ok_def by (intro takes_plus) simp_all

lemma op_hd: "\<not> is_ws (hd (op_text oper @ s))" "op_text oper \<noteq> []"
  by (cases oper; simp)+

lemma takes_cond:
  assumes "bound_ok f (tc_value c)" "s = [] \<or> \<not> bound_char (hd s)"
  shows "takes cond_re (condition_text f c) s cs cs"
proof -
  let ?t = "value_text f (tc_value c)"
  have "takes (seq [bound_re]) ?t s cs cs" by (intro takes_one takes_bound assms)
  from takes_Cons [OF takes_space this] have "takes (seq [ws, bound_re]) ('' '' @ ?t) s cs cs"
    using bound_hd [OF assms(1)] by simp
  moreover have "refuses (seq [ws, bound_re]) (''= '' @ ?t @ s)"
    unfolding seq.simps by (intro refuses_ws_hd refuses_Seq refuses_bound) simp_all
  ultimately have op: "takes (seq [op_re, ws, bound_re]) (op_text (tc_op c) @ '' '' @ ?t) s cs cs"
    using takes_op by simp
  have "takes ws '' '' ((op_text (tc_op c) @ '' '' @ ?t) @ s) cs cs"
    using op_hd by (intro takes_space) simp
  from takes_Cons [OF this op]
  have "takes (seq [ws, op_re, ws, bound_re]) ('' '' @ op_text (tc_op c) @ '' '' @ ?t) s cs cs" .
  from takes_Cons [OF takes_var this] show ?thesis
    unfolding cond_re_def condition_text_def .
qed

lemma var_hd: "var_text v @ s \<noteq> []" "\<not> is_ws (hd (var_text v @ s))" "var_text v \<noteq> []"
  by (cases v; simp)+

lemma condition_hd: "condition_text f c @ s \<noteq> []" "\<not> is_ws (hd (condition_text f c @ s))"
  using var_hd unfolding condition_text_def append_assoc by blast+

lemma takes_and: "s \<noteq> [] \<Longrightarrow> \<not> is_ws (hd s) \<Longrightarrow> takes and_re '' && '' s cs cs"
proof -
  assume s: "s \<noteq> []" "\<not> is_ws (hd s)"
  have "takes (seq [ws]) '' '' s cs cs" using s by (intro takes_one takes_space) simp
  from takes_Cons [OF takes_lit this] have "takes (seq [lit_re ''&&'', ws]) (''&&'' @ '' '') s cs cs" .
  from takes_Cons [OF takes_space this] show ?thesis by (simp add: and_re_def)
qed

fun more_text :: "numfmt \<Rightarrow> TierConditionInput list \<Rightarrow> string" where
  "more_text f [] = []"
| "more_text f (c # cs) = '' && '' @ condition_text f c @ more_text f cs"

lemma join_conditions: "join '' && '' (map (condition_text f) (c # cs)) = condition_text f c @ more_text f cs"
  unfolding list.map join_Cons by (induction cs) simp_all

lemma more_hd: "s \<noteq> [] \<Longrightarrow> hd s = CHR '' '' \<Longrightarrow> more_text f cs @ s \<noteq> [] \<and> \<not> bound_char (hd (more_text f cs @ s))"
  by (cases cs) simp_all

lemma takes_more:
  assumes "\<forall>c \<in> set conds. bound_ok f (tc_value c)"
  shows "takes more_cond_re (more_text f conds) ('' ? '' @ s) cs cs"
  using assms
proof (induction conds)
  case Nil
  have "refuses (seq [ws, lit_re ''&&'', ws, var_re, ws, op_re, ws, bound_re]) ('' '' @ ''? '' @ s)"
    unfolding seq.simps by (intro refuses_space refuses_char) simp_all
  then show ?case unfolding more_cond_re_def by (simp add: takes_Star_skip)
next
  case (Cons c conds)
  let ?t = "more_text f conds @ '' ? '' @ s"
  have "takes cond_re (condition_text f c) ?t cs cs"
    using Cons.prems more_hd [of "'' ? '' @ s"] by (intro takes_cond) simp_all
  moreover have "takes and_re '' && '' (condition_text f c @ ?t) cs cs"
    by (intro takes_and condition_hd)
  ultimately have "takes (seq ([ws, lit_re ''&&'', ws] @ [var_re, ws, op_re, ws, bound_re])) ('' && '' @ condition_text f c) ?t cs cs"
    unfolding cond_re_def and_re_def by (intro takes_append)
  then show ?case
    using takes_Star [of _ "'' && '' @ condition_text f c" "more_text f conds" "'' ? '' @ s" cs cs cs] Cons
    by (simp add: more_cond_re_def)
qed

definition guard_text :: "numfmt \<Rightarrow> TierConditionInput list \<Rightarrow> string" where
  "guard_text f conds = join '' && '' (map (condition_text f) conds)"

lemma takes_guard:
  assumes "\<forall>c \<in> set conds. bound_ok f (tc_value c)" "conds \<noteq> []" "s \<noteq> []" "\<not> is_ws (hd s)"
  shows "takes guard_re (guard_text f conds @ '' ? '') s cs (cs(1 \<mapsto> guard_text f conds))"
proof -
  obtain c rest where conds: "conds = c # rest" using assms(2) by (cases conds) auto
  have g: "guard_text f conds = condition_text f c @ more_text f rest"
    unfolding guard_text_def conds by (rule join_conditions)
  have "takes cond_re (condition_text f c) (more_text f rest @ '' ? '' @ s) cs cs"
    using assms(1) more_hd [of "'' ? '' @ s"] by (intro takes_cond) (simp_all add: conds)
  moreover have "takes more_cond_re (more_text f rest) ('' ? '' @ s) cs cs"
    using assms(1) by (intro takes_more) (simp add: conds)
  ultimately have "takes (Group 1 (Seq cond_re more_cond_re)) (guard_text f conds) ('' ? '' @ s) cs (cs(1 \<mapsto> guard_text f conds))"
    unfolding g by (intro takes_Group takes_Seq)
  then have group: "takes (Group 1 (Seq cond_re more_cond_re)) (guard_text f conds) (('' '' @ ''?'' @ '' '') @ s) cs
      (cs(1 \<mapsto> guard_text f conds))" by simp
  have "takes (seq [ws, lit_re ''?'', ws]) ('' '' @ ''?'' @ '' '') s cs' cs'" for cs'
  proof -
    have "takes (seq [ws]) '' '' s cs' cs'" using assms(3,4) by (intro takes_one takes_space) simp
    from takes_Cons [OF takes_lit this] have "takes (seq [lit_re ''?'', ws]) (''?'' @ '' '') s cs' cs'" .
    from takes_Cons [OF takes_space this] show ?thesis by simp
  qed
  from takes_Cons [OF group this] have "takes (seq [Group 1 (Seq cond_re more_cond_re), ws, lit_re ''?'', ws])
      (guard_text f conds @ '' '' @ ''?'' @ '' '') s cs (cs(1 \<mapsto> guard_text f conds))" .
  then show ?thesis unfolding guard_re_def by (intro takes_Opt) simp
qed

end
