(* ===== verification/TierRoundTrip.thy ===== *)
theory TierRoundTrip
  imports TierText
begin

text \<open>
  What the price editor writes is what its parser and the pricing page read: every tier with its label, its
  conditions and its prices.
\<close>

section \<open>One tier after the other\<close>

text \<open>The conditions that are written, and the text of a tier with them.\<close>

definition conds_of :: "VisualTier \<Rightarrow> TierConditionInput list" where
  "conds_of tier = filter (\<lambda>c. tc_value c \<noteq> TextValue []) (or_value (vt_conditions tier) [])"

definition tier_piece :: "numfmt \<Rightarrow> string \<times> TierConditionInput list \<times> VisualTier \<Rightarrow> string" where
  "tier_piece f x = (case x of (label, conds, tier) \<Rightarrow>
     (if conds = [] then [] else guard_text f conds @ '' ? '') @ tier_call f label tier)"

definition piece_caps :: "numfmt \<Rightarrow> string \<times> TierConditionInput list \<times> VisualTier \<Rightarrow> captures" where
  "piece_caps f x = (case x of (label, conds, tier) \<Rightarrow>
     call_caps f 2 label tier (if conds = [] then Map.empty else [1 \<mapsto> guard_text f conds]))"

definition piece_ok :: "numfmt \<Rightarrow> string \<times> TierConditionInput list \<times> VisualTier \<Rightarrow> bool" where
  "piece_ok f x = (case x of (label, conds, tier) \<Rightarrow>
     quote \<notin> set label \<and> (\<forall>c \<in> set conds. bound_ok f (tc_value c)) \<and> prices_ok f tier)"

lemma guard_text_None: "buildConditionStr f (vt_conditions tier) = guard_text f (conds_of tier)"
  by (cases "vt_conditions tier") (simp_all add: buildConditionStr_def guard_text_def conds_of_def)

lemma guard_text_eq_Nil: "guard_text f conds = [] \<longleftrightarrow> conds = []"
proof (cases conds)
  case (Cons c cs)
  have "condition_text f c \<noteq> []" by (simp add: condition_text_def)
  then show ?thesis unfolding guard_text_def Cons join_conditions by simp
qed (simp add: guard_text_def)

lemma call_start: "tier_call f label tier = CHR ''t'' # ''ier('' @ [quote] @ label @ [quote] @ '', '' @ buildTierBodyExpr f tier @ '')''"
  by (simp add: tier_call_def)

lemma refuses_var: "s = [] \<or> hd s \<notin> set ''pcl'' \<Longrightarrow> refuses var_re s"
  by (cases s) (auto simp: var_re_def refuses_def dead_def)

lemma refuses_guard: "s = [] \<or> hd s \<notin> set ''pcl'' \<Longrightarrow> refuses (seq (Group 1 (Seq cond_re more_cond_re) # rs)) s"
  unfolding cond_re_def by (intro refuses_Cons refuses_Group refuses_Seq refuses_var)

text \<open>Both parsers look for an optional guard, a label, and then the prices or any text for them.\<close>

lemma refuses_guarded:
  assumes "refuses (seq [Group 1 (Seq cond_re more_cond_re), ws, lit_re ''?'', ws]) s" "s = [] \<or> hd s \<noteq> CHR ''t''"
  shows "refuses (seq ([guard_re] @ label_re 2 @ rs)) s"
proof -
  have "\<not> prefix (''tier('' @ [quote]) s" using assms(2) by (cases s) auto
  then have "refuses (seq (label_re 2 @ rs)) s"
    unfolding label_re_def append.simps(2) by (intro refuses_Cons refuses_lit)
  with assms(1) show ?thesis unfolding guard_re_def append.simps(1,2) seq.simps(2) by (rule refuses_Opt_Seq)
qed

lemma refuses_start: "s = [] \<or> hd s \<notin> set ''pclt'' \<Longrightarrow> refuses (seq ([guard_re] @ label_re 2 @ rs)) s"
  by (intro refuses_guarded refuses_guard) auto

abbreviation guard_caps :: "numfmt \<Rightarrow> TierConditionInput list \<Rightarrow> captures" where
  "guard_caps f conds \<equiv> if conds = [] then Map.empty else [1 \<mapsto> guard_text f conds]"

lemma takes_guarded:
  assumes "piece_ok f (label, conds, tier)"
    and "takes (seq (label_re 2 @ rs)) (tier_call f label tier) s (guard_caps f conds) cs"
  shows "takes (seq ([guard_re] @ label_re 2 @ rs)) (tier_piece f (label, conds, tier)) s Map.empty cs"
proof -
  let ?call = "tier_call f label tier"
  have "takes guard_re (if conds = [] then [] else guard_text f conds @ '' ? '') (?call @ s) Map.empty (guard_caps f conds)"
  proof (cases "conds = []")
    case True
    have "refuses (seq [Group 1 (Seq cond_re more_cond_re), ws, lit_re ''?'', ws]) (?call @ s)"
      by (rule refuses_guard) (simp add: call_start)
    then show ?thesis using True by (simp add: guard_re_def takes_Opt_skip)
  next
    case False
    then show ?thesis
      using takes_guard [of conds f "?call @ s" Map.empty] assms(1) by (simp add: piece_ok_def call_start)
  qed
  then show ?thesis using takes_Cons [of guard_re, OF _ assms(2)] by (simp add: tier_piece_def)
qed

lemma tier_re_guarded: "tier_re = seq ([guard_re] @ label_re 2 @ ([ws] @ body_res 3 @ [lit_re '')'']))"
  by (simp add: tier_re_def)

lemma takes_tier:
  assumes "piece_ok f x"
  shows "takes tier_re (tier_piece f x) s Map.empty (piece_caps f x)"
proof -
  obtain label conds tier where x: "x = (label, conds, tier)" by (cases x)
  have "takes (seq (label_re 2 @ [ws] @ body_res 3 @ [lit_re '')''])) (tier_call f label tier) s (guard_caps f conds)
      (piece_caps f x)"
    using takes_call [of f tier label 2 s "guard_caps f conds"] assms
    by (simp add: piece_ok_def piece_caps_def x numeral_eq_Suc)
  then show ?thesis using takes_guarded assms unfolding x tier_re_guarded by blast
qed

section \<open>What a match holds\<close>

lemma extra_caps_out: "j < i \<or> i + length xs \<le> j \<Longrightarrow> extra_caps f tier i xs cs j = cs j"
  by (induction xs arbitrary: i cs) auto

lemma extra_caps_in:
  "k < length xs \<Longrightarrow> extra_caps f tier i xs cs (i + k) =
     (if extra_price tier (xs ! k) = Fin 0 then cs (i + k) else Some (nf_text f (extra_price tier (xs ! k))))"
proof (induction xs arbitrary: i cs k)
  case (Cons x xs)
  show ?case
  proof (cases k)
    case 0
    then show ?thesis by (simp add: extra_caps_out)
  next
    case (Suc k')
    then show ?thesis using Cons.IH [of k' "Suc i"] Cons.prems by auto
  qed
qed simp

lemma call_caps_at:
  "call_caps f l label tier cs l = Some label"
  "call_caps f l label tier cs (l + 1) = Some (nf_text f (num_or_zero (vt_input_unit_cost tier)))"
  "call_caps f l label tier cs (l + 2) = Some (nf_text f (num_or_zero (vt_output_unit_cost tier)))"
  "j < l \<Longrightarrow> call_caps f l label tier cs j = cs j"
  by (simp_all add: call_caps_def body_caps_def extra_caps_out)

lemma call_caps_extra:
  assumes "k < 7" "cs (l + 3 + k) = None"
  shows "call_caps f l label tier cs (l + 3 + k) =
    (let n = extra_price tier (BILLING_CACHE_VAR_MAP ! k) in if n = Fin 0 then None else Some (nf_text f n))"
proof -
  have "k < length BILLING_CACHE_VAR_MAP" using assms(1) by (simp add: cache_vars)
  from extra_caps_in [OF this, of f tier "l + 3"] show ?thesis
    using assms(2) by (simp add: call_caps_def body_caps_def Let_def add.assoc numeral_3_eq_3)
qed

section \<open>The tier a match is read as\<close>

definition read_back :: "numfmt \<Rightarrow> TierConditionInput \<Rightarrow> TierConditionInput" where
  "read_back f c = c\<lparr>tc_value := NumValue (nf_number f (value_text f (tc_value c)))\<rparr>"

text \<open>A tier as it is read back: every price is there, and the cache mode follows from the price of an hour.\<close>

definition canonical_tier :: "numfmt \<Rightarrow> string \<times> TierConditionInput list \<times> VisualTier \<Rightarrow> VisualTier" where
  "canonical_tier f x = (case x of (label, conds, tier) \<Rightarrow>
     \<lparr>vt_label = Some label, vt_conditions = Some (map (read_back f) conds),
      vt_input_unit_cost = Some (num_or_zero (vt_input_unit_cost tier)),
      vt_output_unit_cost = Some (num_or_zero (vt_output_unit_cost tier)),
      vt_cache_mode = Some (if num_gt (num_or_zero (vt_cache_create_1h_unit_cost tier)) 0 then Timed else Generic),
      vt_cache_read_unit_cost = Some (num_or_zero (vt_cache_read_unit_cost tier)),
      vt_cache_create_unit_cost = Some (num_or_zero (vt_cache_create_unit_cost tier)),
      vt_cache_create_1h_unit_cost = Some (num_or_zero (vt_cache_create_1h_unit_cost tier)),
      vt_image_unit_cost = Some (num_or_zero (vt_image_unit_cost tier)),
      vt_image_output_unit_cost = Some (num_or_zero (vt_image_output_unit_cost tier)),
      vt_audio_input_unit_cost = Some (num_or_zero (vt_audio_input_unit_cost tier)),
      vt_audio_output_unit_cost = Some (num_or_zero (vt_audio_output_unit_cost tier))\<rparr>)"

lemma set_field_if:
  "(if P then set_tier_field ''cache_read_unit_cost'' n t else t) =
     t\<lparr>vt_cache_read_unit_cost := if P then Some n else vt_cache_read_unit_cost t\<rparr>"
  "(if P then set_tier_field ''cache_create_unit_cost'' n t else t) =
     t\<lparr>vt_cache_create_unit_cost := if P then Some n else vt_cache_create_unit_cost t\<rparr>"
  "(if P then set_tier_field ''cache_create_1h_unit_cost'' n t else t) =
     t\<lparr>vt_cache_create_1h_unit_cost := if P then Some n else vt_cache_create_1h_unit_cost t\<rparr>"
  "(if P then set_tier_field ''image_unit_cost'' n t else t) =
     t\<lparr>vt_image_unit_cost := if P then Some n else vt_image_unit_cost t\<rparr>"
  "(if P then set_tier_field ''image_output_unit_cost'' n t else t) =
     t\<lparr>vt_image_output_unit_cost := if P then Some n else vt_image_output_unit_cost t\<rparr>"
  "(if P then set_tier_field ''audio_input_unit_cost'' n t else t) =
     t\<lparr>vt_audio_input_unit_cost := if P then Some n else vt_audio_input_unit_cost t\<rparr>"
  "(if P then set_tier_field ''audio_output_unit_cost'' n t else t) =
     t\<lparr>vt_audio_output_unit_cost := if P then Some n else vt_audio_output_unit_cost t\<rparr>"
  by (simp_all add: set_tier_field_def)

lemma set_extras_fields:
  fixes f cs i
  defines "g k \<equiv> (if cs (i + k) \<noteq> None then Some (group_num f cs (i + k)) else None)"
  assumes "vt_cache_read_unit_cost t = None" "vt_cache_create_unit_cost t = None"
    "vt_cache_create_1h_unit_cost t = None" "vt_image_unit_cost t = None" "vt_image_output_unit_cost t = None"
    "vt_audio_input_unit_cost t = None" "vt_audio_output_unit_cost t = None"
  shows "set_extras f cs i t = t\<lparr>vt_cache_read_unit_cost := g 0, vt_cache_create_unit_cost := g 1,
    vt_cache_create_1h_unit_cost := g 2, vt_image_unit_cost := g 3, vt_image_output_unit_cost := g 4,
    vt_audio_input_unit_cost := g 5, vt_audio_output_unit_cost := g 6\<rparr>"
proof -
  have enum: "enumerate i BILLING_CACHE_VAR_MAP = [(i + 0, ''cache_read_unit_cost'', ''cr''),
      (i + 1, ''cache_create_unit_cost'', ''cc''), (i + 2, ''cache_create_1h_unit_cost'', ''cc1h''),
      (i + 3, ''image_unit_cost'', ''img''), (i + 4, ''image_output_unit_cost'', ''img_o''),
      (i + 5, ''audio_input_unit_cost'', ''ai''), (i + 6, ''audio_output_unit_cost'', ''ao'')]"
    by (simp add: cache_vars)
  show ?thesis
    unfolding set_extras_def enum foldl.simps prod.case set_field_if g_def using assms(2-) by simp
qed

lemma num_or_zero_idem [simp]: "num_or_zero (Some (num_or_zero x)) = num_or_zero x"
  by (cases x rule: num_or_zero.cases) simp_all

definition kept :: "jsnum \<Rightarrow> jsnum option" where
  "kept n = (if n = Fin 0 then None else Some n)"

lemma kept_simps [simp]:
  "num_or_zero (kept (num_or_zero x)) = num_or_zero x"
  "(case kept n of None \<Rightarrow> Generic | Some m \<Rightarrow> if num_gt m 0 then Timed else Generic) =
     (if num_gt n 0 then Timed else Generic)"
  by (simp_all add: kept_def)

lemma read_tier_caps:
  assumes "prices_ok f tier" "\<forall>j > l. cs j = None"
  shows "read_tier f l conditions (call_caps f l label tier cs) =
    (canonical_tier f (label, [], tier))\<lparr>vt_conditions := Some conditions\<rparr>"
proof -
  let ?C = "call_caps f l label tier cs"
  define g where "g k = (if ?C (l + 3 + k) \<noteq> None then Some (group_num f ?C (l + 3 + k)) else None)" for k
  have g: "g k = kept (extra_price tier (BILLING_CACHE_VAR_MAP ! k))" if "k < 7" for k
  proof -
    have "k < length BILLING_CACHE_VAR_MAP" using that by (simp add: cache_vars)
    then have "BILLING_CACHE_VAR_MAP ! k \<in> set BILLING_CACHE_VAR_MAP" by (rule nth_mem)
    then have "price_ok f (extra_price tier (BILLING_CACHE_VAR_MAP ! k))" using assms(1) by (simp add: prices_ok_def)
    then show ?thesis
      using call_caps_extra [OF that, of cs l f label tier] assms(2)
      by (simp add: g_def group_num_def kept_def price_ok_def Let_def)
  qed
  have fields: "g 0 = kept (num_or_zero (vt_cache_read_unit_cost tier))" "g 1 = kept (num_or_zero (vt_cache_create_unit_cost tier))"
    "g 2 = kept (num_or_zero (vt_cache_create_1h_unit_cost tier))" "g 3 = kept (num_or_zero (vt_image_unit_cost tier))"
    "g 4 = kept (num_or_zero (vt_image_output_unit_cost tier))" "g 5 = kept (num_or_zero (vt_audio_input_unit_cost tier))"
    "g 6 = kept (num_or_zero (vt_audio_output_unit_cost tier))"
    using g [of 0] g [of 1] g [of 2] g [of 3] g [of 4] g [of 5] g [of 6] by (simp_all add: cache_vars tier_field_def)
  have base: "group_num f ?C (l + 1) = num_or_zero (vt_input_unit_cost tier)"
    "group_num f ?C (l + 2) = num_or_zero (vt_output_unit_cost tier)" "?C l = Some label"
    using assms(1) unfolding group_num_def call_caps_at by (simp_all add: prices_ok_def price_ok_def)
  have "set_extras f ?C (l + 3) (no_tier\<lparr>vt_conditions := co, vt_input_unit_cost := i, vt_output_unit_cost := out,
      vt_label := la\<rparr>) = \<lparr>vt_label = la, vt_conditions = co, vt_input_unit_cost = i, vt_output_unit_cost = out,
      vt_cache_mode = None, vt_cache_read_unit_cost = g 0, vt_cache_create_unit_cost = g 1,
      vt_cache_create_1h_unit_cost = g 2, vt_image_unit_cost = g 3, vt_image_output_unit_cost = g 4,
      vt_audio_input_unit_cost = g 5, vt_audio_output_unit_cost = g 6\<rparr>" for co i out la
    unfolding g_def by (subst set_extras_fields) (simp_all only: no_tier_def VisualTier.simps VisualTier.update_convs)
  then show ?thesis
    unfolding read_tier_def base fields
    by (simp add: normalizeVisualTier_def getTierCacheMode_def canonical_tier_def del: num_or_zero.simps)
qed

section \<open>The conditions of a match\<close>

lemma condition_chars:
  assumes "bound_ok f (tc_value c)"
  shows "CHR ''&'' \<notin> set (condition_text f c)" "condition_text f c \<noteq> []" "\<not> is_ws (last (condition_text f c))"
    "\<not> is_ws (hd (condition_text f c))"
proof -
  have v: "value_text f (tc_value c) \<noteq> []" "\<forall>x \<in> set (value_text f (tc_value c)). bound_char x"
    using assms by (auto simp: bound_ok_def list_all_iff)
  have "\<not> bound_char CHR ''&''" by (simp add: bound_char_def is_digit_def)
  moreover have "CHR ''&'' \<notin> set (var_text (tc_var c))" by (cases "tc_var c") simp_all
  moreover have "CHR ''&'' \<notin> set (op_text (tc_op c))" by (cases "tc_op c") simp_all
  ultimately show "CHR ''&'' \<notin> set (condition_text f c)" using v(2) by (auto simp: condition_text_def)
  show "\<not> is_ws (last (condition_text f c))"
    using v num_not_ws bound_num last_in_set [OF v(1)] by (auto simp: condition_text_def)
  show "condition_text f c \<noteq> []" "\<not> is_ws (hd (condition_text f c))"
    using condition_hd [of f c "[]"] by simp_all
qed

text \<open>The separator is not found inside a condition.\<close>

lemma refuses_and:
  assumes "CHR ''&'' \<notin> set u" "u \<noteq> []" "\<not> is_ws (last u)"
  shows "refuses and_re (u @ t)"
  unfolding and_re_def seq.simps
proof (rule refuses_ws)
  fix v s assume v: "u @ t = v @ s" "list_all is_ws v"
  have "length v < length u"
  proof (rule ccontr)
    assume "\<not> length v < length u"
    then have "last u \<in> set v"
      using v(1) assms(2) by (metis append_eq_append_conv_if append_take_drop_id in_set_takeD last_in_set leI)
    with v(2) assms(3) show False by (simp add: list_all_iff)
  qed
  then obtain c w where "u = v @ c # w" using v(1)
    by (metis append_eq_append_conv_if append_take_drop_id id_take_nth_drop less_imp_le)
  with v(1) assms(1) have "s = c # w @ t" "c \<noteq> CHR ''&''" by auto
  then show "refuses (Seq (lit_re ''&&'') (Seq ws Eps)) s" by (intro refuses_char) simp
qed

lemma search_and:
  assumes "CHR ''&'' \<notin> set u" "u = [] \<or> \<not> is_ws (last u)" "t \<noteq> []" "\<not> is_ws (hd t)"
  shows "search and_re b (u @ '' && '' @ t) = Some (u, Some CHR '' '', t, Map.empty)"
  using assms(1,2)
proof (induction u arbitrary: b)
  case Nil
  have "leads and_re (b, '' && '' @ t, Map.empty) (after b '' && '', t, Map.empty)"
    using takes_and [OF assms(3,4)] unfolding takes_def by blast
  then show ?case by (simp add: search_here del: search.simps)
next
  case (Cons c u)
  have "dead and_re (b, (c # u) @ '' && '' @ t, Map.empty)"
    using refuses_and [of "c # u" "'' && '' @ t"] Cons.prems unfolding refuses_def by blast
  then have "search and_re b (c # u @ '' && '' @ t) =
      map_option (\<lambda>(u, k). (c # u, k)) (search and_re (Some c) (u @ '' && '' @ t))"
    by (intro search_later) simp
  moreover have "u = [] \<or> \<not> is_ws (last u)" using Cons.prems(2) by (cases u) auto
  ultimately show ?case using Cons by simp
qed

lemma search_and_none:
  assumes "CHR ''&'' \<notin> set u"
  shows "search and_re b u = None"
  using assms
proof (induction u arbitrary: b)
  case Nil
  have "refuses and_re []" unfolding and_re_def seq.simps by (intro refuses_ws refuses_char) simp
  then show ?case by (simp add: refuses_def dead_def)
next
  case (Cons c u)
  have "refuses and_re (c # u)"
    unfolding and_re_def seq.simps
  proof (rule refuses_ws)
    fix v s assume "c # u = v @ s" "list_all is_ws v"
    then have "s = [] \<or> hd s \<in> set (c # u)" by (metis Un_iff hd_in_set set_append)
    with Cons.prems show "refuses (Seq (lit_re ''&&'') (Seq ws Eps)) s" by (intro refuses_char) auto
  qed
  then show ?case using Cons by (simp add: search_later refuses_def del: search.simps)
qed

lemma split_guard:
  assumes "\<forall>d \<in> set conds. bound_ok f (tc_value d)" "bound_ok f (tc_value c)"
  shows "split_re and_re b (condition_text f c @ more_text f conds) = map (condition_text f) (c # conds)"
  using assms
proof (induction conds arbitrary: b c)
  case Nil
  then show ?case using condition_chars(1) [of f c] by (simp add: split_re_none search_and_none)
next
  case (Cons d conds)
  let ?t = "condition_text f d @ more_text f conds"
  have "search and_re b (condition_text f c @ '' && '' @ ?t) = Some (condition_text f c, Some CHR '' '', ?t, Map.empty)"
    using condition_chars [OF Cons.prems(2)] condition_hd [of f d] by (intro search_and) auto
  then have "split_re and_re b (condition_text f c @ '' && '' @ ?t) = condition_text f c # split_re and_re (Some CHR '' '') ?t"
    by (rule split_re_step) simp
  then show ?case using Cons by simp
qed

lemma read_one_condition:
  assumes "bound_ok f (tc_value c)"
  shows "read_condition f (condition_text f c) = Some (read_back f c)"
proof -
  let ?t = "value_text f (tc_value c)" and ?o = "op_text (tc_op c)" and ?v = "var_text (tc_var c)"
  let ?cs1 = "[1 \<mapsto> ?v]" and ?cs = "[1 \<mapsto> ?v, 2 \<mapsto> ?o, 3 \<mapsto> ?t]"
  have "takes (Group 3 bound_re) ?t ([] @ []) (?cs1(2 \<mapsto> ?o)) ?cs"
    using takes_Group [OF takes_bound [OF assms, of "[]"]] by simp
  from takes_Cons [OF this takes_one [OF takes_AtEnd]]
  have "takes (seq [Group 3 bound_re, AtEnd]) ?t [] (?cs1(2 \<mapsto> ?o)) ?cs" by simp
  from takes_Cons [OF takes_space this] have "takes (seq [ws, Group 3 bound_re, AtEnd]) ('' '' @ ?t) [] (?cs1(2 \<mapsto> ?o)) ?cs"
    using bound_hd [OF assms, of "[]"] by simp
  moreover have "refuses (seq [ws, Group 3 bound_re, AtEnd]) (''= '' @ ?t @ [])"
    unfolding seq.simps by (intro refuses_ws_hd refuses_Seq refuses_Group refuses_bound) simp_all
  ultimately have "takes (seq [Group 2 op_re, ws, Group 3 bound_re, AtEnd]) (?o @ '' '' @ ?t) [] ?cs1 ?cs"
    using takes_op_group by simp
  from takes_Cons [OF takes_space this]
  have "takes (seq [ws, Group 2 op_re, ws, Group 3 bound_re, AtEnd]) ('' '' @ ?o @ '' '' @ ?t) [] ?cs1 ?cs"
    using op_hd by simp
  from takes_Cons [OF takes_Group [OF takes_var] this]
  have "takes (seq [Group 1 var_re, ws, Group 2 op_re, ws, Group 3 bound_re, AtEnd]) (condition_text f c) [] Map.empty ?cs"
    by (simp add: condition_text_def)
  then have "leads condition_re (None, condition_text f c, Map.empty) (after None (condition_text f c), [], ?cs)"
    unfolding condition_re_def seq.simps(2) [of AtStart] takes_def
    by (intro leads_Seq [of AtStart _ "(None, condition_text f c, Map.empty)"]) (simp_all add: leads_def)
  then have "re_match condition_re (condition_text f c) = Some ?cs" by (rule re_match_here)
  moreover have "trim (condition_text f c) = condition_text f c"
    using condition_chars [OF assms] by (intro trim_by_trimmed) (simp add: trimmed_by_def)
  moreover have "var_of ?v = tc_var c" by (cases "tc_var c") (simp_all add: var_of_def)
  moreover have "op_of ?o = tc_op c" by (cases "tc_op c") (simp_all add: op_of_def)
  ultimately show ?thesis by (simp add: read_condition_def read_back_def group_num_def)
qed

lemma read_all_conditions:
  assumes "\<forall>c \<in> set conds. bound_ok f (tc_value c)" "conds \<noteq> []"
  shows "read_conditions f (Some (guard_text f conds)) = map (read_back f) conds"
proof -
  obtain c rest where conds: "conds = c # rest" using assms(2) by (cases conds) auto
  have "split_re and_re None (guard_text f conds) = map (condition_text f) conds"
    using split_guard [of rest f c None] assms(1) unfolding guard_text_def conds join_conditions by simp
  moreover have "List.map_filter (read_condition f) (map (condition_text f) cs) = map (read_back f) cs"
    if "\<forall>c \<in> set cs. bound_ok f (tc_value c)" for cs
    using that by (induction cs) (simp_all add: map_filter_simps read_one_condition)
  ultimately show ?thesis
    using assms guard_text_eq_Nil [of f conds] by (simp add: read_conditions_def)
qed

end
