(* ===== verification/TierConfig.thy ===== *)
theory TierConfig
  imports TierRoundTrip
begin

text \<open>
  Whole configurations of the price editor: the expression that is generated from one is read back as that
  configuration, and reading ends on every text. What is accepted without being compared is a lone tier.
\<close>

section \<open>The texts of a configuration\<close>

text \<open>Each tier with the label and the conditions it is written with: the last of several has none.\<close>

definition pieces :: "VisualConfig \<Rightarrow> (string \<times> TierConditionInput list \<times> VisualTier) list" where
  "pieces tiers = (case tiers of
       [tier] \<Rightarrow> [(label_or ''default'' tier, conds_of tier, tier)]
     | _ \<Rightarrow> map (\<lambda>(i, tier). (label_or (''tier_'' @ show_nat (i + 1)) tier,
             if i < length tiers - 1 then conds_of tier else [], tier)) (enumerate 0 tiers))"

definition canonical_config :: "numfmt \<Rightarrow> VisualConfig \<Rightarrow> VisualConfig" where
  "canonical_config f tiers = map (canonical_tier f) (pieces tiers)"

definition tier_ok :: "numfmt \<Rightarrow> VisualTier \<Rightarrow> bool" where
  "tier_ok f tier \<longleftrightarrow> quote \<notin> set (or_value (vt_label tier) []) \<and>
     (\<forall>c \<in> set (conds_of tier). bound_ok f (tc_value c)) \<and> prices_ok f tier"

lemma pieces_many:
  "length tiers \<noteq> 1 \<Longrightarrow> pieces tiers = map (\<lambda>(i, tier). (label_or (''tier_'' @ show_nat (i + 1)) tier,
     if i < length tiers - 1 then conds_of tier else [], tier)) (enumerate 0 tiers)"
  by (cases tiers; cases "tl tiers") (simp_all add: pieces_def)

lemma length_pieces [simp]: "length (pieces tiers) = length tiers"
  by (cases tiers; cases "tl tiers") (simp_all add: pieces_def)

lemma piece_parts:
  "tier_piece f (label, conds, tier) = (if guard_text f conds \<noteq> [] then guard_text f conds @ '' ? '' @ tier_call f label tier
     else tier_call f label tier)"
  by (simp add: tier_piece_def guard_text_eq_Nil)

lemma generate_one:
  "generateExprFromVisualConfig f (Some [tier]) =
     tier_piece f (label_or ''default'' tier, conds_of tier, tier) @ (if conds_of tier = [] then [] else '' : '' @ ZERO_EXPR)"
  by (simp add: generateExprFromVisualConfig_def Let_def guard_text_None piece_parts guard_text_eq_Nil)

lemma generate_many:
  assumes "length tiers \<ge> 2"
  shows "generateExprFromVisualConfig f (Some tiers) = join '' : '' (map (tier_piece f) (pieces tiers))"
proof -
  have "tier_part f (length tiers) i tier = tier_piece f (label_or (''tier_'' @ show_nat (i + 1)) tier,
      if i < length tiers - 1 then conds_of tier else [], tier)" for i tier
    by (simp add: tier_part_def Let_def guard_text_None tier_piece_def guard_text_eq_Nil)
  then have "map (\<lambda>(i, tier). tier_part f (length tiers) i tier) (enumerate 0 tiers) = map (tier_piece f) (pieces tiers)"
    using assms by (simp add: pieces_many case_prod_beta)
  moreover have "generateExprFromVisualConfig f (Some tiers) =
      join '' : '' (map (\<lambda>(i, tier). tier_part f (length tiers) i tier) (enumerate 0 tiers))"
    using assms by (auto simp: generateExprFromVisualConfig_def split: list.split)
  ultimately show ?thesis by simp
qed

lemma label_or_neq: "fallback \<noteq> [] \<Longrightarrow> label_or fallback tier \<noteq> []"
  by (simp add: label_or_def split: option.split)

lemma label_or_no_quote:
  "quote \<notin> set (or_value (vt_label tier) []) \<Longrightarrow> quote \<notin> set fallback \<Longrightarrow> quote \<notin> set (label_or fallback tier)"
  by (cases "vt_label tier") (simp_all add: label_or_def)

lemma quote_not_shown: "quote \<notin> set (''tier_'' @ show_nat n)"
  using show_nat_digits [of quote n] by (auto simp: is_digit_def quote_def)

lemma pieces_ok:
  assumes "\<forall>tier \<in> set tiers. tier_ok f tier" "x \<in> set (pieces tiers)"
  shows "piece_ok f x"
proof -
  obtain fallback conds tier where x: "x = (label_or fallback tier, conds, tier)" "tier \<in> set tiers"
    "quote \<notin> set fallback" "set conds \<subseteq> set (conds_of tier)"
  proof (cases "length tiers = 1")
    case True
    then obtain t where t: "tiers = [t]" by (auto simp: length_Suc_conv)
    show thesis using assms(2) by (intro that [of "''default''" t "conds_of t"]) (auto simp: t pieces_def quote_def)
  next
    case False
    then obtain i t where t: "(i, t) \<in> set (enumerate 0 tiers)"
      "x = (label_or (''tier_'' @ show_nat (i + 1)) t, if i < length tiers - 1 then conds_of t else [], t)"
      using assms(2) by (auto simp: pieces_many)
    from imageI [OF t(1), of snd] have "t \<in> set tiers" by (simp flip: set_map)
    then show thesis using quote_not_shown by (intro that [OF t(2)]) (simp_all add: subset_eq)
  qed
  then have "tier_ok f tier" using assms(1) by blast
  then have "quote \<notin> set (label_or fallback tier)" "\<forall>c \<in> set conds. bound_ok f (tc_value c)" "prices_ok f tier"
    using x label_or_no_quote [of tier fallback] unfolding tier_ok_def by blast+
  then show ?thesis by (simp add: piece_ok_def x(1))
qed

section \<open>The configuration that is read is written the same\<close>

lemma body_canonical: "buildTierBodyExpr f (canonical_tier f (label, conds, tier)) = buildTierBodyExpr f tier"
proof -
  let ?t = "canonical_tier f (label, conds, tier)"
  have "extra_text f ?t xs = extra_text f tier xs" if "\<forall>x \<in> set xs. extra_price ?t x = extra_price tier x" for xs
    using that by (induction xs) (simp_all del: num_or_zero.simps)
  moreover have "\<forall>x \<in> set BILLING_CACHE_VAR_MAP. extra_price ?t x = extra_price tier x"
    by (simp add: cache_vars canonical_tier_def tier_field_def del: num_or_zero.simps)
  moreover have "num_or_zero (vt_input_unit_cost ?t) = num_or_zero (vt_input_unit_cost tier)"
    "num_or_zero (vt_output_unit_cost ?t) = num_or_zero (vt_output_unit_cost tier)"
    by (simp_all add: canonical_tier_def del: num_or_zero.simps)
  ultimately show ?thesis unfolding body_expr_text by simp
qed

lemma conds_canonical: "conds_of (canonical_tier f (label, conds, tier)) = map (read_back f) conds"
  by (simp add: conds_of_def canonical_tier_def filter_map comp_def read_back_def)

lemma guard_read_back:
  assumes "\<forall>c \<in> set conds. bound_ok f (tc_value c)"
  shows "guard_text f (map (read_back f) conds) = guard_text f conds"
proof -
  have "map (condition_text f) (map (read_back f) conds) = map (condition_text f) conds"
    using assms by (simp add: condition_text_def read_back_def bound_ok_def)
  then show ?thesis by (simp only: guard_text_def)
qed

lemma piece_canonical:
  assumes "piece_ok f (label, conds, tier)"
  shows "tier_piece f (label, map (read_back f) conds, canonical_tier f (label, conds, tier)) = tier_piece f (label, conds, tier)"
  using assms by (simp add: tier_piece_def tier_call_def body_canonical guard_read_back piece_ok_def)

lemma normalize_canonical_tier: "normalizeVisualTier (canonical_tier f x) = canonical_tier f x"
  by (cases x) (simp add: normalizeVisualTier_def canonical_tier_def del: num_or_zero.simps)

lemma label_canonical: "label \<noteq> [] \<Longrightarrow> label_or fallback (canonical_tier f (label, conds, tier)) = label"
  by (simp add: label_or_def canonical_tier_def)

lemma pieces_canonical:
  "pieces (canonical_config f tiers) =
     map (\<lambda>(label, conds, tier). (label, map (read_back f) conds, canonical_tier f (label, conds, tier))) (pieces tiers)"
proof (cases "length tiers = 1")
  case True
  then obtain t where "tiers = [t]" by (auto simp: length_Suc_conv)
  then show ?thesis
    by (simp add: canonical_config_def pieces_def label_canonical label_or_neq conds_canonical)
next
  case False
  have nth: "canonical_config f tiers ! i = canonical_tier f (pieces tiers ! i)" if "i < length tiers" for i
    using that by (simp add: canonical_config_def)
  have len: "length (canonical_config f tiers) = length tiers" by (simp add: canonical_config_def)
  have x: "pieces tiers ! i = (label_or (''tier_'' @ show_nat (i + 1)) (tiers ! i),
      if i < length tiers - 1 then conds_of (tiers ! i) else [], tiers ! i)" if "i < length tiers" for i
    using False that by (simp add: pieces_many nth_enumerate_eq)
  show ?thesis
    by (rule nth_equalityI)
      (use False in \<open>simp_all add: pieces_many [of "canonical_config f tiers"] len nth_enumerate_eq nth x
        label_canonical label_or_neq conds_canonical\<close>)
qed

lemma config_cases:
  obtains "tiers = []" | t where "tiers = [t]" | "length tiers \<ge> 2"
  by (cases tiers; cases "tl tiers") auto

lemma regenerate:
  assumes "\<forall>tier \<in> set tiers. tier_ok f tier"
  shows "generateExprFromVisualConfig f (Some (canonical_config f tiers)) = generateExprFromVisualConfig f (Some tiers)"
proof -
  have same: "map (tier_piece f) (pieces (canonical_config f tiers)) = map (tier_piece f) (pieces tiers)"
    using pieces_ok [OF assms] piece_canonical by (auto simp: pieces_canonical)
  show ?thesis
  proof (cases rule: config_cases [of tiers])
    case (2 t)
    then show ?thesis
      using same by (simp add: canonical_config_def pieces_def generate_one conds_canonical)
  next
    case 3
    then have "length (canonical_config f tiers) \<ge> 2" by (simp add: canonical_config_def)
    with 3 same show ?thesis by (simp add: generate_many)
  qed (simp add: canonical_config_def pieces_def)
qed

section \<open>What a match is read as\<close>

lemma read_piece:
  assumes "piece_ok f x"
  shows "read_tier f 2 (read_conditions f (piece_caps f x 1)) (piece_caps f x) = canonical_tier f x"
proof -
  obtain label conds tier where x: "x = (label, conds, tier)" by (cases x)
  let ?cs = "if conds = [] then Map.empty else [1 \<mapsto> guard_text f conds]"
  have "piece_caps f x 1 = ?cs 1" using call_caps_at(4) [of 1 2 f label tier ?cs] by (simp add: piece_caps_def x)
  then have "read_conditions f (piece_caps f x 1) = map (read_back f) conds"
    using read_all_conditions [of conds f] assms
    by (cases "conds = []") (simp_all add: piece_ok_def x, simp add: read_conditions_def)
  moreover have "read_tier f 2 conditions (piece_caps f x) =
      (canonical_tier f (label, [], tier))\<lparr>vt_conditions := Some conditions\<rparr>" for conditions
    unfolding piece_caps_def x prod.case by (rule read_tier_caps) (use assms in \<open>simp_all add: piece_ok_def x\<close>)
  ultimately show ?thesis by (simp add: canonical_tier_def x)
qed

text \<open>The guard of a lone tier is followed by the price of nothing, in which no tier is found.\<close>

lemma refuses_op: "s = [] \<or> hd s \<notin> set ''<>'' \<Longrightarrow> refuses (Seq op_re q) s"
  by (cases s) (auto simp: op_re_def refuses_def dead_def)

lemma refuses_price:
  assumes "c \<in> set ''pc''"
  shows "refuses (Seq var_re (Seq ws (Seq op_re q))) (c # '' * '' @ s)"
proof (rule refuses_after, rule refuses_ws, rule refuses_op)
  fix u t v w
  assume s: "c # '' * '' @ s = u @ t" "t = v @ w"
    and u: "\<forall>c \<in> set u. alphabet var_re c" and v: "list_all is_ws v"
  have space: "\<not> alphabet var_re CHR '' ''" by (simp add: var_re_def)
  have c: "\<not> is_ws c" "c \<notin> set ''<>''" using assms by auto
  show "w = [] \<or> hd w \<notin> set ''<>''"
  proof (cases u)
    case Nil
    with s v c(1) have "v = []" by (cases v) auto
    with s Nil c(2) have "hd w \<notin> set ''<>''" by (metis append_Nil list.sel(1))
    then show ?thesis ..
  next
    case (Cons a u')
    with s(1) have "u' @ t = '' * '' @ s" by simp
    with u space Cons have "u' = []" by (cases u') auto
    with s Cons have vw: "v @ w = CHR '' '' # CHR ''*'' # CHR '' '' # s" by simp
    show ?thesis
    proof (cases v)
      case Nil
      with vw show ?thesis by simp
    next
      case v': (Cons d v')
      with vw v have "v' = []" by (cases v') auto
      with vw v' have "w = CHR ''*'' # CHR '' '' # s" by simp
      then show ?thesis by simp
    qed
  qed
qed

lemma refuses_guarded_price:
  assumes "c \<in> set ''pc''"
  shows "refuses (seq ([guard_re] @ label_re 2 @ rs)) (c # '' * '' @ s)"
proof (rule refuses_guarded)
  show "refuses (seq [Group 1 (Seq cond_re more_cond_re), ws, lit_re ''?'', ws]) (c # '' * '' @ s)"
    unfolding cond_re_def seq.simps by (intro refuses_Seq refuses_Group refuses_price assms)
qed (use assms in auto)

text \<open>An expression that finds the tiers of a configuration one after the other, and nothing between them.\<close>

locale tier_scan =
  fixes r :: re and caps :: "numfmt \<Rightarrow> string \<times> TierConditionInput list \<times> VisualTier \<Rightarrow> captures"
  assumes takes_piece: "piece_ok f x \<Longrightarrow> takes r (tier_piece f x) s Map.empty (caps f x)"
    and refuses_between: "s = [] \<or> hd s \<notin> set ''pclt'' \<Longrightarrow> refuses r s"
    and refuses_coefficient: "c \<in> set ''pc'' \<Longrightarrow> refuses r (c # '' * '' @ s)"
begin

lemma exec_piece:
  assumes "piece_ok f x"
  shows "exec_loop r b (tier_piece f x @ s) = map_option (Cons (caps f x)) (exec_loop r (after b (tier_piece f x)) s)"
proof (rule exec_here)
  show "leads r (b, tier_piece f x @ s, Map.empty) (after b (tier_piece f x), s, caps f x)"
    using takes_piece [OF assms] by (simp add: takes_def)
  show "tier_piece f x \<noteq> []" by (cases x) (simp add: tier_piece_def call_start)
qed

lemma exec_skip: "c \<notin> set ''pclt'' \<Longrightarrow> exec_loop r b (c # s) = exec_loop r (Some c) s"
  using refuses_between [of "c # s"] unfolding refuses_def by (intro exec_later) simp

lemma exec_end: "exec_loop r b [] = Some []"
  using refuses_between [of "[]"] unfolding refuses_def by (intro exec_Nil) blast

lemma exec_pieces:
  assumes "\<forall>x \<in> set xs. piece_ok f x" "xs \<noteq> []"
  shows "exec_loop r b (join '' : '' (map (tier_piece f) xs)) = Some (map (caps f) xs)"
  using assms
proof (induction xs arbitrary: b rule: induct_list012)
  case (2 x)
  then show ?case using exec_piece [of f x b "[]"] by (simp add: exec_end)
next
  case (3 x y xs)
  have "join '' : '' (map (tier_piece f) (x # y # xs)) = tier_piece f x @ '' : '' @ join '' : '' (map (tier_piece f) (y # xs))" by simp
  moreover have "exec_loop r b' ('' : '' @ t) = exec_loop r (Some CHR '' '') t" for b' t
    by (simp add: exec_skip)
  ultimately show ?case using 3 exec_piece [of f x b] by simp
qed simp

lemma exec_zero: "exec_loop r b ('' : '' @ ZERO_EXPR) = Some []"
proof -
  have p: "exec_loop r b' ''p * 0 + c * 0'' = exec_loop r (Some CHR ''p'') '' * 0 + c * 0''" for b'
    using refuses_coefficient [of "CHR ''p''" "''0 + c * 0''"] unfolding refuses_def by (intro exec_later) simp
  have c: "exec_loop r b' ''c * 0'' = exec_loop r (Some CHR ''c'') '' * 0''" for b'
    using refuses_coefficient [of "CHR ''c''" "''0''"] unfolding refuses_def by (intro exec_later) simp
  show ?thesis by (simp add: ZERO_EXPR_def exec_skip p c exec_end)
qed

lemma exec_config:
  assumes "\<forall>tier \<in> set tiers. tier_ok f tier" "tiers \<noteq> []"
  shows "exec_loop r b (generateExprFromVisualConfig f (Some tiers)) = Some (map (caps f) (pieces tiers))"
proof (cases rule: config_cases [of tiers])
  case (2 t)
  then have "piece_ok f (label_or ''default'' t, conds_of t, t)" using pieces_ok [OF assms(1)] by (simp add: pieces_def)
  from exec_piece [OF this, of b "[]"] exec_piece [OF this, of b "'' : '' @ ZERO_EXPR", unfolded exec_zero] show ?thesis
    by (cases "conds_of t = []") (simp_all add: 2 generate_one pieces_def exec_end)
next
  case 3
  then have "pieces tiers \<noteq> []" by (metis length_pieces length_0_conv not_numeral_le_zero)
  with 3 show ?thesis using exec_pieces [of "pieces tiers" f b] pieces_ok [OF assms(1)] by (simp add: generate_many)
qed (use assms(2) in simp)

end

interpretation editor: tier_scan tier_re piece_caps
  by unfold_locales (simp only: takes_tier, simp_all only: tier_re_guarded refuses_start refuses_guarded_price)

section \<open>The expression of a lone tier\<close>

lemma unique_cut: "c \<notin> set u \<Longrightarrow> c \<notin> set v \<Longrightarrow> u @ c # s = v @ c # t \<Longrightarrow> u = v \<and> s = t"
proof (induction u arbitrary: v)
  case Nil
  then show ?case by (cases v) auto
next
  case (Cons a u)
  then show ?case by (cases v) auto
qed

lemma extra_text_chars:
  assumes "\<forall>x \<in> set xs. price_ok f (extra_price tier x) \<and> CHR '')'' \<notin> set (snd x)"
  shows "CHR '')'' \<notin> set (extra_text f tier xs)"
  using assms by (induction xs) (auto simp: price_part_def price_ok_def list_all_iff)

lemma body_chars: "prices_ok f tier \<Longrightarrow> CHR '')'' \<notin> set (buildTierBodyExpr f tier)"
proof -
  assume ok: "prices_ok f tier"
  then have "CHR '')'' \<notin> set (extra_text f tier BILLING_CACHE_VAR_MAP)"
    by (intro extra_text_chars) (auto simp: prices_ok_def cache_vars)
  with ok show ?thesis by (auto simp: body_expr_text price_part_def prices_ok_def price_ok_def list_all_iff)
qed

lemma body_alphabet: "\<not> alphabet (seq ([ws] @ body_res i)) CHR '')''"
  by (simp add: alphabet_seq body_res_def cache_vars extra_re_def Opt_def num_re_def Plus_def ws_def alphabet_lit)

text \<open>The expression for a lone tier does not match a longer text.\<close>

lemma refuses_longer:
  assumes "prices_ok f tier" "quote \<notin> set label" "s \<noteq> []"
  shows "refuses (seq (label_re 1 @ [ws] @ body_res 2 @ [lit_re '')'', AtEnd])) (tier_call f label tier @ s)"
proof -
  let ?b = "buildTierBodyExpr f tier"
  have "refuses (seq [lit_re '')'', AtEnd]) t"
    if t: "'' '' @ ?b @ '')'' @ s = u @ t" "\<forall>c \<in> set u. alphabet (seq ([ws] @ body_res 2)) c" for u t
    unfolding seq.simps
  proof (rule refuses_after_lit)
    fix w assume "t = '')'' @ w"
    with t(1) have "u @ CHR '')'' # w = ('' '' @ ?b) @ CHR '')'' # s" by simp
    moreover have "CHR '')'' \<notin> set u" using t(2) body_alphabet by blast
    moreover have "CHR '')'' \<notin> set ('' '' @ ?b)" using body_chars [OF assms(1)] by simp
    ultimately have "w = s" using unique_cut [of "CHR '')''" u "'' '' @ ?b" w s] by simp
    then show "refuses (Seq AtEnd Eps) w" using assms(3) by (simp add: refuses_AtEnd)
  qed
  then have body: "refuses (seq (([ws] @ body_res 2) @ [lit_re '')'', AtEnd])) ('' '' @ ?b @ '')'' @ s)"
    unfolding refuses_append by (rule refuses_after)
  have "refuses (Seq (Group 1 (Star (Chr (\<lambda>c. c \<noteq> quote)))) (Seq (lit_re [quote, CHR '','']) q))
      (label @ [quote] @ '', '' @ ?b @ '')'' @ s)" if q: "refuses q ('' '' @ ?b @ '')'' @ s)" for q
  proof (rule refuses_after, rule refuses_after_lit)
    fix u t w
    assume "label @ [quote] @ '', '' @ ?b @ '')'' @ s = u @ t" and u: "\<forall>c \<in> set u. alphabet (Group 1 (Star (Chr (\<lambda>c. c \<noteq> quote)))) c"
      and "t = [quote, CHR '',''] @ w"
    then have "u @ quote # CHR '','' # w = label @ quote # CHR '','' # '' '' @ ?b @ '')'' @ s" by simp
    moreover have "quote \<notin> set u" using u by auto
    ultimately have "CHR '','' # w = CHR '','' # '' '' @ ?b @ '')'' @ s"
      using unique_cut [of quote u label "CHR '','' # w"] assms(2) by simp
    then have "w = '' '' @ ?b @ '')'' @ s" by simp
    then show "refuses q w" using q by simp
  qed
  from this [OF body] have "refuses (seq ([Group 1 (Star (Chr (\<lambda>c. c \<noteq> quote))), lit_re [quote, CHR '','']] @
      ([ws] @ body_res 2) @ [lit_re '')'', AtEnd])) (label @ [quote] @ '', '' @ ?b @ '')'' @ s)"
    by simp
  then show ?thesis
    unfolding label_re_def append.simps(2) [of "lit_re (''tier('' @ [quote])"] seq.simps(2) [of "lit_re (''tier('' @ [quote])"]
    by (intro refuses_after_lit) (simp add: tier_call_def)
qed

lemma takes_single:
  assumes "prices_ok f tier" "quote \<notin> set label"
  shows "re_match single_re (tier_call f label tier) = Some (call_caps f 1 label tier Map.empty)"
proof -
  let ?r = "seq (label_re 1 @ [ws] @ body_res 2 @ [lit_re '')'', AtEnd])" and ?s = "tier_call f label tier"
  have "takes (seq [AtEnd]) [] [] cs cs" for cs by (rule takes_one [OF takes_AtEnd])
  moreover have "takes (seq (label_re 1 @ [ws] @ body_res 2 @ [lit_re '')''])) ?s ([] @ []) Map.empty
      (call_caps f 1 label tier Map.empty)"
    using takes_call [OF assms, of 1 "[]" Map.empty] by (simp add: numeral_2_eq_2)
  ultimately have "takes (seq ((label_re 1 @ [ws] @ body_res 2 @ [lit_re '')'']) @ [AtEnd])) (?s @ []) [] Map.empty
      (call_caps f 1 label tier Map.empty)" by (intro takes_append)
  then have "leads ?r (None, ?s, Map.empty) (after None ?s, [], call_caps f 1 label tier Map.empty)"
    by (simp add: takes_def)
  moreover have "leads AtStart (None, ?s, Map.empty) (None, ?s, Map.empty)" by (simp add: leads_def)
  ultimately show ?thesis
    unfolding single_re_def append.simps seq.simps(2) [of AtStart] by (intro re_match_here leads_Seq)
qed

lemma anchored_refused: "refuses r s \<Longrightarrow> re_match (Seq AtStart r) s = None"
  by (intro match_anchored) (simp add: refuses_def dead_def)

text \<open>The expression starts with its first tier, and only a lone tier without conditions is all of it.\<close>

lemma generated_start:
  assumes "tiers \<noteq> []"
  obtains x xs s where "pieces tiers = x # xs" "generateExprFromVisualConfig f (Some tiers) = tier_piece f x @ s"
    "s = [] \<longrightarrow> xs = [] \<and> fst (snd x) = []"
proof (cases rule: config_cases [of tiers])
  case (2 t)
  show thesis
    by (rule that [of "(label_or ''default'' t, conds_of t, t)" "[]" "if conds_of t = [] then [] else '' : '' @ ZERO_EXPR"])
      (simp_all add: 2 pieces_def generate_one split: if_splits)
next
  case 3
  then have "length (pieces tiers) \<ge> 2" by simp
  then obtain x y ys where "pieces tiers = x # y # ys" by (metis Suc_le_length_iff numeral_2_eq_2)
  then show thesis
    using generate_many [OF 3, of f] by (intro that [of x "y # ys" "'' : '' @ join '' : '' (map (tier_piece f) (y # ys))"]) simp_all
qed (use assms in simp)

lemma piece_hd: "\<exists>c s. tier_piece f x = c # s \<and> c \<in> set ''pclt'' \<and> (c = CHR ''t'' \<longrightarrow> fst (snd x) = [])"
proof -
  obtain label conds tier where x: "x = (label, conds, tier)" by (cases x)
  show ?thesis
  proof (cases conds)
    case (Cons c cs)
    have "guard_text f conds = condition_text f c @ more_text f cs" unfolding guard_text_def Cons join_conditions ..
    then show ?thesis by (cases "tc_var c") (simp_all add: x Cons tier_piece_def condition_text_def)
  qed (simp add: x tier_piece_def call_start)
qed

lemma no_version:
  assumes "s \<noteq> []" "hd s \<noteq> CHR ''v''"
  shows "re_match version_re s = None"
  unfolding version_re_def seq.simps(2) [of AtStart]
  by (intro anchored_refused refuses_Cons refuses_lit) (use assms in \<open>cases s; simp\<close>)

lemma not_single:
  assumes "piece_ok f x" "s = [] \<Longrightarrow> fst (snd x) \<noteq> []"
  shows "re_match single_re (tier_piece f x @ s) = None"
  unfolding single_re_def append.simps seq.simps(2) [of AtStart]
proof (rule anchored_refused)
  obtain label conds tier where x: "x = (label, conds, tier)" by (cases x)
  show "refuses (seq (label_re 1 @ ws # body_res 2 @ [lit_re '')'', AtEnd])) (tier_piece f x @ s)"
  proof (cases "conds = []")
    case True
    then have "refuses (seq (label_re 1 @ [ws] @ body_res 2 @ [lit_re '')'', AtEnd])) (tier_call f label tier @ s)"
      using assms by (intro refuses_longer) (auto simp: piece_ok_def x)
    then show ?thesis using True by (simp add: tier_piece_def x)
  next
    case False
    with piece_hd [of f x] obtain c t where "tier_piece f x = c # t" "c \<noteq> CHR ''t''" by (auto simp: x)
    then show ?thesis unfolding label_re_def append.simps by (intro refuses_Cons refuses_lit) simp
  qed
qed

section \<open>The round trip\<close>

lemma normalize_config:
  assumes "tiers \<noteq> []"
  shows "normalizeVisualConfig (Some (canonical_config f tiers)) = canonical_config f tiers" "canonical_config f tiers \<noteq> []"
proof -
  have "length (canonical_config f tiers) = length tiers" by (simp add: canonical_config_def)
  with assms show "canonical_config f tiers \<noteq> []" by (metis length_0_conv)
  then show "normalizeVisualConfig (Some (canonical_config f tiers)) = canonical_config f tiers"
    by (simp add: normalizeVisualConfig_def canonical_config_def normalize_canonical_tier)
qed

lemma read_single:
  assumes "piece_ok f (label, [], tier)"
  shows "read_tier f 1 [] (call_caps f 1 label tier Map.empty) = canonical_tier f (label, [], tier)"
  using read_tier_caps [of f tier 1 Map.empty "[]" label] assms by (simp add: piece_ok_def canonical_tier_def)

text \<open>C13. What the price editor generates from a configuration is read back by it as that configuration: every
  tier with its label, or the label that stands for none, with its conditions, except those of the last of
  several, and with its prices. Labels have no quote in them, and numbers are written so that they are read as
  themselves.\<close>

theorem visual_config_round_trip:
  assumes "tiers \<noteq> []" "\<forall>tier \<in> set tiers. tier_ok f tier"
  shows "tryParseVisualConfig f (generateExprFromVisualConfig f (Some tiers)) = Some (Some (canonical_config f tiers))"
proof -
  let ?e = "generateExprFromVisualConfig f (Some tiers)"
  obtain x xs s where e: "pieces tiers = x # xs" "?e = tier_piece f x @ s" "s = [] \<longrightarrow> xs = [] \<and> fst (snd x) = []"
    using generated_start [OF assms(1), of f] by blast
  have ok: "piece_ok f x" using pieces_ok [OF assms(2)] by (simp add: e(1))
  obtain c t where "?e = c # t" "c \<noteq> CHR ''v''" using piece_hd [of f x] by (auto simp: e(2))
  then have start: "?e \<noteq> []" "strip_version ?e = ?e" using no_version [of ?e] by (simp_all add: strip_version_def)
  show ?thesis
  proof (cases "s = []")
    case True
    obtain label tier where x: "x = (label, [], tier)" using e(3) True by (cases x) auto
    have "re_match single_re ?e = Some (call_caps f 1 label tier Map.empty)"
      using takes_single [of f tier label] ok by (simp add: True e(2) x tier_piece_def piece_ok_def)
    then show ?thesis
      using start normalize_config(1) [OF assms(1), of f] read_single ok e(3) True
      by (simp add: tryParseVisualConfig_def canonical_config_def e(1) x)
  next
    case False
    have "re_match single_re ?e = None" unfolding e(2) using ok False by (intro not_single) simp_all
    moreover have "map (\<lambda>cs. read_tier f 2 (read_conditions f (cs 1)) cs) (map (piece_caps f) (pieces tiers)) =
        canonical_config f tiers"
      using pieces_ok [OF assms(2)] by (simp add: canonical_config_def read_piece del: One_nat_def)
    moreover have "pieces tiers \<noteq> []" by (simp add: e(1))
    ultimately show ?thesis
      using start editor.exec_config [OF assms(2,1), of None] normalize_config [OF assms(1), of f] regenerate [OF assms(2)]
      by (simp add: tryParseVisualConfig_def Let_def del: One_nat_def)
  qed
qed

definition sample_fmt :: numfmt where
  "sample_fmt = \<lparr>
     nf_text = (\<lambda>n. if n = Fin 3 then ''3'' else if n = Fin (1/5) then ''0.2'' else if n = Fin 200000 then ''200000''
       else if n = NaN then ''NaN'' else ''0''),
     nf_number = (\<lambda>s. if s = ''3'' then Fin 3 else if s = ''0.2'' then Fin (1/5) else if s = ''200000'' then Fin 200000
       else if s = ''0'' then Fin 0 else NaN)\<rparr>"

definition sample_tiers :: VisualConfig where
  "sample_tiers =
     [no_tier\<lparr>vt_label := Some ''base'', vt_input_unit_cost := Some (Fin 3), vt_cache_create_1h_unit_cost := Some (Fin (1/5)),
        vt_conditions := Some [\<lparr>tc_var = VarLen, tc_op = Le, tc_value = NumValue (Fin 200000)\<rparr>,
          \<lparr>tc_var = VarC, tc_op = Gt, tc_value = TextValue ''3''\<rparr>]\<rparr>,
      no_tier\<lparr>vt_input_unit_cost := Some NaN, vt_output_unit_cost := Some (Fin 3)\<rparr>]"

lemma sample_ok: "\<forall>tier \<in> set sample_tiers. tier_ok sample_fmt tier"
  by (simp add: sample_tiers_def tier_ok_def conds_of_def bound_ok_def prices_ok_def price_ok_def sample_fmt_def
      cache_vars tier_field_def no_tier_def quote_def num_char_def bound_char_def is_digit_def
      del: set_filter)

theorem visual_config_round_trip_witness:
  "tryParseVisualConfig sample_fmt (generateExprFromVisualConfig sample_fmt (Some sample_tiers)) =
     Some (Some (canonical_config sample_fmt sample_tiers))"
  by (rule visual_config_round_trip [OF _ sample_ok]) (simp add: sample_tiers_def)

section \<open>Reading ends\<close>

lemma may_be_empty_seq: "may_be_empty (seq rs) \<longleftrightarrow> (\<forall>r \<in> set rs. may_be_empty r)"
  by (induction rs) simp_all

lemma all_some_Some: "(\<And>x. x \<in> set xs \<Longrightarrow> x \<noteq> None) \<Longrightarrow> \<exists>ys. all_some xs = Some ys"
  by (induction xs rule: all_some.induct) auto

lemma parseTierBody_ends: "\<exists>prices. parseTierBody f s = Some prices"
proof -
  have "\<not> may_be_empty BILLING_VAR_REGEX" by (simp add: BILLING_VAR_REGEX_def may_be_empty_seq)
  from exec_loop_ends [OF this] show ?thesis unfolding parseTierBody_def by (metis option.simps(9))
qed

text \<open>C25. The loops of the price editor's parser and of the pricing page's parser end on every text: each round
  consumes at least one character.\<close>

theorem tier_parsers_end: "tryParseVisualConfig f s \<noteq> None \<and> parseTiersFromExpr f s \<noteq> None"
proof -
  have re: "\<not> may_be_empty tier_re" "\<not> may_be_empty call_re"
    by (simp_all add: tier_re_def call_re_def label_re_def may_be_empty_seq)
  obtain ms where "exec_loop tier_re None (strip_version s) = Some ms" using exec_loop_ends [OF re(1)] by blast
  then have "tryParseVisualConfig f s \<noteq> None" by (simp add: tryParseVisualConfig_def Let_def split: option.split)
  moreover obtain ms where ms: "exec_loop call_re None (snd (stripExprVersion f s)) = Some ms"
    using exec_loop_ends [OF re(2)] by blast
  have "parsed_tier f cs \<noteq> None" for cs
    using parseTierBody_ends [of f "or_value (cs 3) []"] by (auto simp: parsed_tier_def)
  then have "\<exists>ys. all_some (map (parsed_tier f) ms) = Some ys" by (intro all_some_Some) auto
  with ms have "parseTiersFromExpr f s \<noteq> None" by (auto simp: parseTiersFromExpr_def)
  ultimately show ?thesis ..
qed

section \<open>What is not checked\<close>

text \<open>A call for a tier with any texts for its prices that the expressions take, such as \<^verbatim>\<open>1+2\<close>, and the tier it is
  opened as.\<close>

definition priced_call :: "string \<Rightarrow> string \<Rightarrow> string \<Rightarrow> string" where
  "priced_call label i out = ''tier('' @ [quote] @ label @ [quote] @ '', p * '' @ i @ '' + c * '' @ out @ '')''"

definition price_text :: "string \<Rightarrow> bool" where
  "price_text s \<longleftrightarrow> s \<noteq> [] \<and> list_all num_char s"

definition opened_tier :: "numfmt \<Rightarrow> string \<Rightarrow> string \<Rightarrow> string \<Rightarrow> VisualTier" where
  "opened_tier f label i out = normalizeVisualTier (no_tier\<lparr>vt_conditions := Some [],
     vt_input_unit_cost := Some (nf_number f i), vt_output_unit_cost := Some (nf_number f out), vt_label := Some label\<rparr>)"

text \<open>Such a call is what some format of numbers writes, so the lemmas on written calls hold for it.\<close>

definition writes :: "numfmt \<Rightarrow> VisualTier \<Rightarrow> string \<Rightarrow> string \<Rightarrow> bool" where
  "writes g t i out \<longleftrightarrow> prices_ok g t \<and> (\<forall>label. tier_call g label t = priced_call label i out) \<and>
     (\<forall>x. extra_price t x = Fin 0) \<and>
     nf_text g (num_or_zero (vt_input_unit_cost t)) = i \<and> nf_text g (num_or_zero (vt_output_unit_cost t)) = out"

lemma some_writes:
  assumes "price_text i" "price_text out"
  obtains g t where "writes g t i out"
proof -
  define num where "num s = (if s = i then Fin 1 else if s = out then Fin 2 else Fin 0)" for s
  define g where "g = \<lparr>nf_text = (\<lambda>n. if n = Fin 1 then i else if n = Fin 2 then out else i @ out @ ''0''), nf_number = num\<rparr>"
  define t where "t = no_tier\<lparr>vt_input_unit_cost := Some (num i), vt_output_unit_cost := Some (num out)\<rparr>"
  have "i @ out @ ''0'' \<noteq> out" using arg_cong [of "i @ out @ ''0''" out length] by auto
  then have "price_ok g (Fin 0)" "price_ok g (num i)" "price_ok g (num out)"
    using assms by (simp_all add: price_ok_def g_def num_def price_text_def num_char_def is_digit_def)
  moreover have extra: "extra_price t x = Fin 0" for x by (simp add: t_def no_tier_def tier_field_def)
  moreover have "num_or_zero (Some (num s)) = num s" for s by (simp add: num_def)
  ultimately have "prices_ok g t" "nf_text g (num_or_zero (vt_input_unit_cost t)) = i"
    "nf_text g (num_or_zero (vt_output_unit_cost t)) = out"
    by (simp_all add: prices_ok_def t_def g_def num_def)
  moreover have "extra_text g t xs = []" for xs by (induction xs) (simp_all add: extra)
  ultimately have "writes g t i out"
    using extra by (simp add: writes_def tier_call_def priced_call_def body_expr_text price_part_def)
  then show thesis by (rule that)
qed

lemma read_opened:
  assumes "writes g t i out" "\<forall>j > l. cs j = None"
  shows "read_tier f l [] (call_caps g l label t cs) = opened_tier f label i out"
proof -
  let ?C = "call_caps g l label t cs"
  have "?C (l + 3 + k) = None" if "k < 7" for k
    using call_caps_extra [OF that, of cs l g label t] assms by (simp add: writes_def)
  from this [of 0] this [of 1] this [of 2] this [of 3] this [of 4] this [of 5] this [of 6]
  have "set_extras f ?C (l + 3) u = u" if "vt_cache_read_unit_cost u = None" "vt_cache_create_unit_cost u = None"
    "vt_cache_create_1h_unit_cost u = None" "vt_image_unit_cost u = None" "vt_image_output_unit_cost u = None"
    "vt_audio_input_unit_cost u = None" "vt_audio_output_unit_cost u = None" for u
    using that by (subst set_extras_fields) simp_all
  moreover have "group_num f ?C (l + 1) = nf_number f i" "group_num f ?C (l + 2) = nf_number f out" "?C l = Some label"
    using assms(1) unfolding group_num_def call_caps_at writes_def by simp_all
  ultimately show ?thesis unfolding read_tier_def opened_tier_def by (simp add: no_tier_def)
qed

lemma opened_lone:
  assumes "price_text i" "price_text out" "quote \<notin> set label"
  shows "tryParseVisualConfig f (priced_call label i out) = Some (Some [opened_tier f label i out])"
proof -
  obtain g t where w: "writes g t i out" using some_writes [OF assms(1,2)] .
  then have call: "priced_call label i out = tier_call g label t" "prices_ok g t" by (simp_all add: writes_def)
  have "strip_version (tier_call g label t) = tier_call g label t"
    using no_version [of "tier_call g label t"] by (simp add: strip_version_def call_start)
  then show ?thesis
    using takes_single [OF call(2) assms(3)] read_opened [OF w, of 1 Map.empty f label]
    unfolding call(1) by (simp add: tryParseVisualConfig_def normalizeVisualConfig_def)
      (simp add: call_start opened_tier_def normalizeVisualTier_def getTierCacheMode_def)
qed

lemma opened_two:
  fixes f :: numfmt
  assumes "price_text i" "price_text out" "quote \<notin> set label" "price_text i2" "price_text out2" "quote \<notin> set label2"
  defines "body \<equiv> priced_call label i out @ '' : '' @ priced_call label2 i2 out2"
    and "tiers \<equiv> [opened_tier f label i out, opened_tier f label2 i2 out2]"
  shows "tryParseVisualConfig f body =
    Some (if remove_ws (generateExprFromVisualConfig f (Some tiers)) \<noteq> remove_ws body then None else Some tiers)"
proof -
  obtain g t where w: "writes g t i out" using some_writes [OF assms(1,2)] .
  obtain g2 t2 where w2: "writes g2 t2 i2 out2" using some_writes [OF assms(4,5)] .
  let ?x = "(label, [], t)" and ?y = "(label2, [], t2)"
  have ok: "piece_ok g ?x" "piece_ok g2 ?y" using w w2 assms(3,6) by (simp_all add: piece_ok_def writes_def)
  have body: "body = tier_piece g ?x @ '' : '' @ tier_piece g2 ?y @ []"
    using w w2 by (simp add: body_def tier_piece_def writes_def)
  have "strip_version body = body" "body \<noteq> []"
    using no_version [of body] by (simp_all add: strip_version_def body_def priced_call_def)
  moreover have "re_match single_re body = None" unfolding body by (rule not_single [OF ok(1)]) simp
  moreover have "exec_loop tier_re None body = Some [piece_caps g ?x, piece_caps g2 ?y]"
    unfolding body editor.exec_piece [OF ok(1)]
    by (simp add: editor.exec_skip editor.exec_piece [OF ok(2), of _ "[]", simplified] editor.exec_end)
  moreover have "read_tier f 2 (read_conditions f (piece_caps g ?x 1)) (piece_caps g ?x) = opened_tier f label i out"
    "read_tier f 2 (read_conditions f (piece_caps g2 ?y 1)) (piece_caps g2 ?y) = opened_tier f label2 i2 out2"
    using read_opened [OF w, of 2 Map.empty f label] read_opened [OF w2, of 2 Map.empty f label2]
    by (simp_all add: piece_caps_def call_caps_at(4) read_conditions_def)
  moreover have "normalizeVisualConfig (Some tiers) = tiers"
    by (simp add: normalizeVisualConfig_def tiers_def opened_tier_def normalizeVisualTier_def)
  ultimately show ?thesis by (simp add: tryParseVisualConfig_def Let_def tiers_def del: One_nat_def)
qed

lemma remove_ws_append: "remove_ws (s @ t) = remove_ws s @ remove_ws t"
  by (simp add: remove_ws_def)

lemma remove_ws_price: "price_text s \<Longrightarrow> remove_ws s = s"
  by (simp add: remove_ws_def price_text_def list_all_iff num_not_ws)

text \<open>Two expressions that start with a call for the same label and differ in the first price.\<close>

lemma price_differs:
  assumes "price_text i" "price_text j" "i \<noteq> j"
  shows "remove_ws (priced_call label i out @ s) \<noteq> remove_ws (priced_call label j out' @ t)"
proof
  let ?head = "''tier('' @ [quote] @ label @ [quote] @ '', p * ''" and ?rest = "\<lambda>x y. remove_ws (x @ '')'' @ y)"
  have parts: "remove_ws (priced_call label k x @ y) = remove_ws ?head @ k @ ''+c*'' @ ?rest x y" if "price_text k" for k x y
  proof -
    have "priced_call label k x @ y = ?head @ k @ '' + c * '' @ x @ '')'' @ y" by (simp add: priced_call_def)
    moreover have "remove_ws '' + c * '' = ''+c*''" by (simp add: remove_ws_def)
    ultimately show ?thesis by (simp only: remove_ws_append remove_ws_price [OF that])
  qed
  assume "remove_ws (priced_call label i out @ s) = remove_ws (priced_call label j out' @ t)"
  then have eq: "i @ ''+c*'' @ ?rest out s = j @ ''+c*'' @ ?rest out' t"
    unfolding parts [OF assms(1)] parts [OF assms(2)] by (simp only: same_append_eq)
  have "takeWhile num_char (k @ ''+c*'' @ r) = k @ ''+''" if "price_text k" for k r
    using that by (simp add: price_text_def list_all_iff num_char_def is_digit_def)
  with arg_cong [OF eq, of "takeWhile num_char"] assms show False by simp
qed

text \<open>C34. The expression of a lone tier is accepted without being compared with what would be generated from it,
  as the expressions of several tiers are. Take a text for a price that the expression allows but that is no
  number, such as \<^verbatim>\<open>1+2\<close>. A lone tier with it is opened, with no number for the price, and saving it writes the
  price 0. The same tier before another one is refused.\<close>

theorem lone_tier_unchecked:
  assumes "price_text i" "price_text out" "label \<noteq> []" "quote \<notin> set label" "nf_number f i = NaN"
    and "price_text i2" "price_text out2" "quote \<notin> set label2" "price_ok f (Fin 0)"
  shows "(\<exists>tier. tryParseVisualConfig f (priced_call label i out) = Some (Some [tier]) \<and>
      vt_input_unit_cost tier = Some NaN \<and> vt_output_unit_cost tier = Some (nf_number f out) \<and>
      generateExprFromVisualConfig f (Some [tier]) =
        priced_call label (nf_text f (Fin 0)) (nf_text f (num_or_zero (Some (nf_number f out))))) \<and>
    tryParseVisualConfig f (priced_call label i out @ '' : '' @ priced_call label2 i2 out2) = Some None"
proof -
  let ?t = "opened_tier f label i out" and ?t2 = "opened_tier f label2 i2 out2"
  let ?new = "priced_call label (nf_text f (Fin 0)) (nf_text f (num_or_zero (Some (nf_number f out))))"
  have t: "vt_input_unit_cost ?t = Some NaN" "vt_output_unit_cost ?t = Some (nf_number f out)" "conds_of ?t = []"
    "label_or fallback ?t = label" for fallback
    using assms(3,5) by (simp_all add: opened_tier_def normalizeVisualTier_def no_tier_def conds_of_def label_or_def)
  have "extra_price ?t x = Fin 0" for x
    by (simp add: opened_tier_def normalizeVisualTier_def no_tier_def tier_field_def)
  then have "extra_text f ?t xs = []" for xs by (induction xs) simp_all
  then have call: "tier_call f label ?t = ?new"
    by (simp add: tier_call_def priced_call_def body_expr_text price_part_def t)
  then have "generateExprFromVisualConfig f (Some [?t]) = ?new"
    by (simp add: generate_one t tier_piece_def)
  with opened_lone [OF assms(1,2,4), of f] t have lone: "\<exists>tier. tryParseVisualConfig f (priced_call label i out) = Some (Some [tier]) \<and>
      vt_input_unit_cost tier = Some NaN \<and> vt_output_unit_cost tier = Some (nf_number f out) \<and>
      generateExprFromVisualConfig f (Some [tier]) = ?new" by blast
  have "generateExprFromVisualConfig f (Some [?t, ?t2]) = ?new @ '' : '' @ tier_part f 2 1 ?t2"
    by (simp add: generateExprFromVisualConfig_def tier_part_def [of f _ 0] Let_def guard_text_None t guard_text_eq_Nil call numeral_2_eq_2)
  moreover have "nf_text f (Fin 0) \<noteq> i" "price_text (nf_text f (Fin 0))"
    using assms(5,9) by (auto simp: price_ok_def price_text_def)
  ultimately have "remove_ws (generateExprFromVisualConfig f (Some [?t, ?t2])) \<noteq>
      remove_ws (priced_call label i out @ '' : '' @ priced_call label2 i2 out2)"
    using assms(1) by (simp only: price_differs simp_thms)
  then have "tryParseVisualConfig f (priced_call label i out @ '' : '' @ priced_call label2 i2 out2) = Some None"
    using opened_two [OF assms(1,2,4,6,7,8), of f] by simp
  with lone show ?thesis by blast
qed

theorem lone_tier_unchecked_witness:
  "(\<exists>tier. tryParseVisualConfig sample_fmt (''tier('' @ [quote] @ ''a'' @ [quote] @ '', p * 1+2 + c * 3)'') = Some (Some [tier]) \<and>
     generateExprFromVisualConfig sample_fmt (Some [tier]) = ''tier('' @ [quote] @ ''a'' @ [quote] @ '', p * 0 + c * 3)'') \<and>
   tryParseVisualConfig sample_fmt (''tier('' @ [quote] @ ''a'' @ [quote] @ '', p * 1+2 + c * 3) : tier('' @ [quote] @ ''b'' @
     [quote] @ '', p * 3 + c * 3)'') = Some None"
proof -
  have texts: "price_text ''1+2''" "price_text ''3''" "quote \<notin> set ''a''" "quote \<notin> set ''b''" "''a'' \<noteq> []"
    "nf_number sample_fmt ''1+2'' = NaN" "price_ok sample_fmt (Fin 0)"
    by (simp_all add: price_text_def num_char_def is_digit_def quote_def sample_fmt_def price_ok_def)
  from lone_tier_unchecked [OF texts(1,2,5,3,6) texts(2,2,4,7)] show ?thesis
    by (auto simp: priced_call_def sample_fmt_def)
qed

end
