(* ===== verification/TierPage.thy ===== *)
theory TierPage
  imports TierConfig
begin

text \<open>
  The tiers the pricing page shows of an expression that the price editor generated: the parser of
  \<^verbatim>\<open>features/pricing/lib/billing-expr.ts\<close> finds the same tiers as the editor's own, and reads every price from the text
  between the brackets.
\<close>

section \<open>The prices in a text\<close>

definition price_keys :: "string list" where
  "price_keys = map bv_key BILLING_PRICING_VARS"

lemma price_keys_list: "price_keys = [''p'', ''c'', ''cr'', ''cc'', ''cc1h'', ''img'', ''img_o'', ''ai'', ''ao'']"
  by (simp add: price_keys_def BILLING_PRICING_VARS_def BILLING_VARS_def)

lemma price_keys_apart: "sorted_wrt apart price_keys" "\<forall>v \<in> set price_keys. hd v \<in> set ''pcia'' \<and> v \<noteq> []"
  by (simp_all add: price_keys_list apart_def is_ws_def)

definition factor_re :: re where
  "factor_re = seq [ws, lit_re ''*'', ws, Group 2 num_re]"

lemma takes_factor:
  assumes "price_ok f n" "s = [] \<or> \<not> num_char (hd s)"
  shows "takes factor_re ('' * '' @ nf_text f n) s cs (cs(2 \<mapsto> nf_text f n))"
  using takes_part [OF assms, of 2 "[]"] by (simp add: factor_re_def part_re_def price_part_def takes_def leads_def)

text \<open>Of the names, the one that is there is found, also when another one starts it.\<close>

lemma dead_name:
  assumes "apart u v"
  shows "dead (Seq (Group i (lit_re u)) factor_re) (b, v @ '' * '' @ s, cs)"
proof (rule dead_Seq2)
  fix k assume k: "k \<in> set (runs (Group i (lit_re u)) (b, v @ '' * '' @ s, cs))"
  have "prefix u (v @ '' * '' @ s)"
  proof (rule ccontr)
    assume "\<not> prefix u (v @ '' * '' @ s)"
    then have "runs (lit_re u) (b, v @ '' * '' @ s, cs) = []" using dead_lit [of u] unfolding dead_def by blast
    with k show False by simp
  qed
  then obtain t where t: "v @ '' * '' @ s = u @ t" by (auto simp: prefix_def)
  have "\<not> (\<not> prefix u v \<and> \<not> prefix v u)" using t by (metis prefixI prefix_same_cases)
  with assms obtain c x where "v = u @ c # x" "\<not> is_ws c" "c \<noteq> CHR ''*''" by (auto simp: apart_def)
  with t have "t \<noteq> []" "\<not> is_ws (hd t)" "hd t \<noteq> CHR ''*''" by auto
  then have "refuses factor_re t" unfolding factor_re_def seq.simps by (intro refuses_ws_hd refuses_char) simp_all
  moreover have "left k = t" using k unfolding runs.simps left.simps t runs_lit by auto
  ultimately show "dead factor_re k" by (cases k) (simp add: refuses_def)
qed

lemma leads_name:
  assumes "leads factor_re (after b v, '' * '' @ s, cs(i \<mapsto> v)) k" "sorted_wrt apart vs" "v \<in> set vs"
  shows "leads (Seq (Group i (one_of vs)) factor_re) (b, v @ '' * '' @ s, cs) k"
proof -
  have here: "leads (Group i (lit_re v)) (b, v @ '' * '' @ s, cs) (after b v, '' * '' @ s, cs(i \<mapsto> v))"
    by (intro leads_Group leads_lit)
  have alt: "runs (Seq (Group i (Alt a c)) q) k = runs (Seq (Group i a) q) k @ runs (Seq (Group i c) q) k" for a c q k
    by simp
  show ?thesis using assms(2,3)
  proof (induction vs rule: one_of.induct)
    case (2 u)
    then show ?case using leads_Seq [OF here assms(1)] by simp
  next
    case (3 u w vs)
    show ?case
    proof (cases "u = v")
      case True
      then show ?thesis
        using leads_Seq [OF here assms(1)] unfolding one_of.simps leads_def alt by auto
    next
      case False
      with 3 have "leads (Seq (Group i (one_of (w # vs))) factor_re) (b, v @ '' * '' @ s, cs) k" by simp
      moreover have "dead (Seq (Group i (lit_re u)) factor_re) (b, v @ '' * '' @ s, cs)"
        using 3 False by (intro dead_name) auto
      ultimately show ?thesis unfolding one_of.simps leads_def dead_def alt by (simp del: runs.simps)
    qed
  qed simp
qed

lemma var_regex: "BILLING_VAR_REGEX = Seq WordBoundary (Seq (Group 1 (one_of price_keys)) factor_re)"
  by (simp add: BILLING_VAR_REGEX_def price_keys_def factor_re_def)

definition price_caps :: "numfmt \<Rightarrow> string \<times> jsnum \<Rightarrow> captures" where
  "price_caps f x = [1 \<mapsto> fst x, 2 \<mapsto> nf_text f (snd x)]"

lemma exec_price:
  assumes "v \<in> set price_keys" "price_ok f n" "s = [] \<or> \<not> num_char (hd s)" "not_word b"
  shows "exec_loop BILLING_VAR_REGEX b (price_part f v n @ s) =
    map_option (Cons (price_caps f (v, n))) (exec_loop BILLING_VAR_REGEX (after b (price_part f v n)) s)"
proof (rule exec_here)
  let ?t = "'' * '' @ nf_text f n @ s"
  have v: "v \<noteq> []" "is_word (hd v)" using assms(1) by (auto simp: price_keys_list is_word_def Let_def)
  have "leads factor_re (after b v, '' * '' @ nf_text f n @ s, [1 \<mapsto> v])
      (after (after b v) ('' * '' @ nf_text f n), s, price_caps f (v, n))"
    using takes_factor [OF assms(2,3), of "[1 \<mapsto> v]"] unfolding takes_def append_assoc by (simp add: price_caps_def)
  then have "leads (Seq (Group 1 (one_of price_keys)) factor_re) (b, v @ ?t, Map.empty)
      (after (after b v) ('' * '' @ nf_text f n), s, price_caps f (v, n))"
    by (rule leads_name [OF _ price_keys_apart(1) assms(1)])
  moreover have "at_boundary b (v @ ?t)"
    using v assms(4) by (cases v) (auto simp: at_boundary_def not_word_def)
  then have "leads WordBoundary (b, v @ ?t, Map.empty) (b, v @ ?t, Map.empty)" by (simp add: leads_def)
  ultimately have "leads BILLING_VAR_REGEX (b, v @ ?t, Map.empty)
      (after (after b v) ('' * '' @ nf_text f n), s, price_caps f (v, n))"
    unfolding var_regex by (rule leads_Seq [rotated])
  then show "leads BILLING_VAR_REGEX (b, price_part f v n @ s, Map.empty) (after b (price_part f v n), s, price_caps f (v, n))"
    by (simp add: price_part_def)
qed (simp add: price_part_def)

lemma refuses_names:
  "s = [] \<or> hd s \<notin> set ''pcia'' \<Longrightarrow> \<forall>v \<in> set vs. hd v \<in> set ''pcia'' \<and> v \<noteq> [] \<Longrightarrow> refuses (one_of vs) s"
proof (induction vs rule: one_of.induct)
  case 1
  then show ?case by (simp add: refuses_def dead_def split: list.split)
next
  case (2 u)
  then show ?case by (intro refuses_lit[of u, folded one_of.simps(2)]) (cases s; cases u; auto)
next
  case (3 u w vs)
  then have "refuses (one_of (w # vs)) s" by simp
  moreover have "refuses (lit_re u) s" using 3 by (intro refuses_lit) (cases s; cases u; auto)
  ultimately show ?case by (simp add: refuses_def dead_def)
qed

lemma refuses_var_regex: "s = [] \<or> hd s \<notin> set ''pcia'' \<Longrightarrow> dead BILLING_VAR_REGEX (b, s, cs)"
  using refuses_names [OF _ price_keys_apart(2)] unfolding var_regex refuses_def dead_def by auto

lemma exec_prices:
  assumes "\<forall>x \<in> set xs. fst x \<in> set price_keys \<and> price_ok f (snd x)" "not_word b"
  shows "exec_loop BILLING_VAR_REGEX b (join '' + '' (map (\<lambda>x. price_part f (fst x) (snd x)) xs)) =
    Some (map (price_caps f) xs)"
  using assms
proof (induction xs arbitrary: b rule: induct_list012)
  case 1
  then show ?case using exec_Nil [OF refuses_var_regex] by simp
next
  case (2 x)
  then show ?case using exec_price [of "fst x" f "snd x" "[]" b] exec_Nil [OF refuses_var_regex] by simp
next
  case (3 x y xs)
  let ?rest = "join '' + '' (map (\<lambda>x. price_part f (fst x) (snd x)) (y # xs))"
  have skip: "exec_loop BILLING_VAR_REGEX b' (c # s) = exec_loop BILLING_VAR_REGEX (Some c) s"
    if "c \<notin> set ''pcia''" for b' c s using that by (intro exec_later refuses_var_regex) simp
  have "exec_loop BILLING_VAR_REGEX (Some CHR '' '') ?rest = Some (map (price_caps f) (y # xs))"
    using 3 by (intro "3.IH") (simp_all add: not_word_def is_word_def)
  then show ?case using exec_price [of "fst x" f "snd x" "'' + '' @ ?rest" b] 3 by (simp add: skip)
qed

text \<open>The price of every variable, and what is written of them.\<close>

definition charges :: "VisualTier \<Rightarrow> (string \<times> jsnum) list" where
  "charges tier = [(''p'', num_or_zero (vt_input_unit_cost tier)), (''c'', num_or_zero (vt_output_unit_cost tier))] @
     map (\<lambda>x. (snd x, extra_price tier x)) BILLING_CACHE_VAR_MAP"

definition written :: "VisualTier \<Rightarrow> (string \<times> jsnum) list" where
  "written tier = take 2 (charges tier) @ filter (\<lambda>x. snd x \<noteq> Fin 0) (drop 2 (charges tier))"

definition shown_prices :: "VisualTier \<Rightarrow> (string \<times> jsnum) list" where
  "shown_prices tier = map (\<lambda>(varName, field). (field, num_or_zero (map_of (charges tier) varName))) BILLING_VAR_KEY_TO_FIELD"

lemma body_written: "buildTierBodyExpr f tier = join '' + '' (map (\<lambda>x. price_part f (fst x) (snd x)) (written tier))"
proof -
  have "map (\<lambda>(field, var). price_part f var (num_or_zero (tier_field field tier)))
      (filter (\<lambda>(field, var). num_or_zero (tier_field field tier) \<noteq> Fin 0) xs) =
    map (\<lambda>x. price_part f (fst x) (snd x)) (filter (\<lambda>x. snd x \<noteq> Fin 0) (map (\<lambda>x. (snd x, extra_price tier x)) xs))" for xs
    by (induction xs) auto
  then show ?thesis by (simp add: buildTierBodyExpr_def written_def charges_def)
qed

lemma charges_keys: "map fst (charges tier) = price_keys"
  by (simp add: charges_def cache_vars price_keys_list)

lemma charges_ok: "prices_ok f tier \<Longrightarrow> \<forall>x \<in> set (charges tier). price_ok f (snd x)"
  by (auto simp: charges_def prices_ok_def)

lemma written_subset: "set (written tier) \<subseteq> set (charges tier)"
  using set_take_subset set_drop_subset by (fastforce simp: written_def)

lemma written_distinct: "distinct (map fst (written tier))"
proof -
  have "distinct (map fst (charges tier))" by (simp add: charges_keys price_keys_list)
  then have "distinct (map fst (take 2 (charges tier) @ drop 2 (charges tier)))" by simp
  then show ?thesis unfolding written_def map_append distinct_append
    by (auto simp: distinct_map_filter)
qed

lemma written_prices: "num_or_zero (map_of (written tier) v) = num_or_zero (map_of (charges tier) v)"
proof -
  have "num_or_zero (map_of (filter (\<lambda>x. snd x \<noteq> Fin 0) xs) v) = num_or_zero (map_of xs v)"
    if "distinct (map fst xs)" for xs :: "(string \<times> jsnum) list"
    using that
  proof (induction xs)
    case (Cons x xs)
    then have "map_of xs (fst x) = None" by (simp add: map_of_eq_None_iff)
    with Cons show ?case by (cases x) auto
  qed simp
  moreover have "distinct (map fst (drop 2 (charges tier)))" by (simp add: charges_keys price_keys_list flip: drop_map)
  ultimately have rest: "num_or_zero (map_of (filter (\<lambda>x. snd x \<noteq> Fin 0) (drop 2 (charges tier))) v) =
      num_or_zero (map_of (drop 2 (charges tier)) v)" by blast
  have "num_or_zero (map_of (take 2 (charges tier) @ drop 2 (charges tier)) v) = num_or_zero (map_of (written tier) v)"
    using rest unfolding written_def map_of_append map_add_def by (simp split: option.split)
  then show ?thesis by simp
qed

lemma coefficients:
  assumes "distinct (map fst (ys @ xs))" "\<forall>x \<in> set xs. price_ok f (snd x)"
  shows "foldl (add_coefficient f) ys (map (price_caps f) xs) = ys @ xs"
  using assms
proof (induction xs arbitrary: ys)
  case (Cons x xs)
  have "map_of ys (fst x) = None" using Cons.prems(1) by (auto simp: map_of_eq_None_iff)
  then have "add_coefficient f ys (price_caps f x) = ys @ [x]"
    using Cons.prems(2) by (simp add: add_coefficient_def price_caps_def group_num_def price_ok_def)
  then show ?case using Cons by simp
qed simp

lemma parseTierBody_body:
  assumes "prices_ok f tier"
  shows "parseTierBody f (buildTierBodyExpr f tier) = Some (shown_prices tier)"
proof -
  have ok: "\<forall>x \<in> set (written tier). price_ok f (snd x)" using charges_ok [OF assms] written_subset by blast
  have "fst ` set (charges tier) = set price_keys" using charges_keys [of tier] by (metis set_map)
  then have "\<forall>x \<in> set (written tier). fst x \<in> set price_keys \<and> price_ok f (snd x)" using ok written_subset by blast
  then have "exec_loop BILLING_VAR_REGEX None (buildTierBodyExpr f tier) = Some (map (price_caps f) (written tier))"
    unfolding body_written by (rule exec_prices) (simp add: not_word_def)
  then show ?thesis
    using coefficients [of "[]" "written tier" f] written_distinct ok written_prices
    by (simp add: parseTierBody_def shown_prices_def)
qed

section \<open>The tiers that are shown\<close>

definition page_caps :: "numfmt \<Rightarrow> string \<times> TierConditionInput list \<times> VisualTier \<Rightarrow> captures" where
  "page_caps f x = (case x of (label, conds, tier) \<Rightarrow> (guard_caps f conds)(2 \<mapsto> label, 3 \<mapsto> buildTierBodyExpr f tier))"

lemma call_re_guarded:
  "call_re = seq ([guard_re] @ label_re 2 @ [ws, Group 3 (Plus (Chr (\<lambda>c. c \<noteq> CHR '')''))), lit_re '')''])"
  by (simp add: call_re_def)

lemma takes_page_call:
  assumes "piece_ok f x"
  shows "takes call_re (tier_piece f x) s Map.empty (page_caps f x)"
proof -
  obtain label conds tier where x: "x = (label, conds, tier)" by (cases x)
  let ?b = "buildTierBodyExpr f tier" and ?cs = "(guard_caps f conds)(2 \<mapsto> label)"
  have ok: "prices_ok f tier" "quote \<notin> set label" using assms by (simp_all add: piece_ok_def x)
  obtain t where b: "?b = CHR ''p'' # t" using body_start by blast
  have "takes (Group 3 (Plus (Chr (\<lambda>c. c \<noteq> CHR '')'')))) ?b ('')'' @ s) ?cs (?cs(3 \<mapsto> ?b))"
    using body_chars [OF ok(1)] b by (intro takes_Group takes_plus) (auto simp: list_all_iff)
  from takes_Cons [OF this takes_one [OF takes_lit]]
  have "takes (seq [Group 3 (Plus (Chr (\<lambda>c. c \<noteq> CHR '')''))), lit_re '')'']) (?b @ '')'') s ?cs (?cs(3 \<mapsto> ?b))" .
  from takes_Cons [OF takes_space this]
  have "takes (seq [ws, Group 3 (Plus (Chr (\<lambda>c. c \<noteq> CHR '')''))), lit_re '')'']) ('' '' @ ?b @ '')'') s ?cs (?cs(3 \<mapsto> ?b))"
    using b by simp
  from takes_append [OF takes_label [OF ok(2)] this]
  have "takes (seq (label_re 2 @ [ws, Group 3 (Plus (Chr (\<lambda>c. c \<noteq> CHR '')''))), lit_re '')''])) (tier_call f label tier) s
      (guard_caps f conds) (page_caps f x)"
    by (simp add: tier_call_def page_caps_def x)
  then show ?thesis using takes_guarded assms unfolding x call_re_guarded by blast
qed

interpretation page: tier_scan call_re page_caps
  by unfold_locales (simp only: takes_page_call, simp_all only: call_re_guarded refuses_start refuses_guarded_price)

definition shown_tier :: "numfmt \<Rightarrow> string \<times> TierConditionInput list \<times> VisualTier \<Rightarrow> ParsedTier" where
  "shown_tier f x = (case x of (label, conds, tier) \<Rightarrow>
     \<lparr>pt_label = label, pt_conditions = map (read_back f) conds, pt_prices = shown_prices tier\<rparr>)"

lemma parsed_piece:
  assumes "piece_ok f x"
  shows "parsed_tier f (page_caps f x) = Some (shown_tier f x)"
proof -
  obtain label conds tier where x: "x = (label, conds, tier)" by (cases x)
  have "read_conditions f (guard_caps f conds 1) = map (read_back f) conds"
    using read_all_conditions [of conds f] assms
    by (cases "conds = []") (simp_all add: piece_ok_def x, simp add: read_conditions_def)
  then show ?thesis
    using parseTierBody_body [of f tier] assms
    by (simp add: parsed_tier_def page_caps_def shown_tier_def x piece_ok_def del: One_nat_def)
qed

lemma all_some_map: "all_some (map Some xs) = Some xs"
  by (induction xs) simp_all

text \<open>C14. The pricing page shows what the price editor wrote: of the expression generated from a configuration it
  reads the same tiers as the editor, with the same labels and conditions, and under each price field the price of
  its variable, 0 for one that is not written.\<close>

theorem page_shows_config:
  assumes "tiers \<noteq> []" "\<forall>tier \<in> set tiers. tier_ok f tier"
  shows "parseTiersFromExpr f (generateExprFromVisualConfig f (Some tiers)) = Some (map (shown_tier f) (pieces tiers))"
proof -
  let ?e = "generateExprFromVisualConfig f (Some tiers)"
  obtain x xs s where e: "pieces tiers = x # xs" "?e = tier_piece f x @ s" using generated_start [OF assms(1), of f] by blast
  obtain c t where "?e = c # t" "c \<noteq> CHR ''v''" using piece_hd [of f x] by (auto simp: e(2))
  then have start: "?e \<noteq> []" "snd (stripExprVersion f ?e) = ?e"
    using no_version [of ?e] by (simp_all add: stripExprVersion_def)
  have "map (parsed_tier f) (map (page_caps f) (pieces tiers)) = map Some (map (shown_tier f) (pieces tiers))"
    using pieces_ok [OF assms(2)] parsed_piece by simp
  then have "all_some (map (parsed_tier f) (map (page_caps f) (pieces tiers))) = Some (map (shown_tier f) (pieces tiers))"
    by (simp only: all_some_map)
  then show ?thesis
    using start page.exec_config [OF assms(2,1), of None] by (simp add: parseTiersFromExpr_def)
qed

theorem page_shows_config_witness:
  "parseTiersFromExpr sample_fmt (generateExprFromVisualConfig sample_fmt (Some sample_tiers)) =
     Some (map (shown_tier sample_fmt) (pieces sample_tiers))"
  by (rule page_shows_config [OF _ sample_ok]) (simp add: sample_tiers_def)

end
