(* ===== verification/Spec2Isabelle.thy ===== *)
theory Spec2Isabelle
  imports HttpStatusRules HttpClient RatioSync ChatStream FlowLimits BillingRules TierPage
begin

text \<open>
  \<^bold>\<open>The web console of the API gateway\<close>

  The program is the TypeScript web client under \<^verbatim>\<open>src/web/src\<close>. This library models the parts of it that compute: the
  session and HTTP layer every page rests on, the playground chat with its streaming and tool loop, the parser of the
  status-code settings, the upstream price synchronisation, the rules and the tiers of billing expressions, and the flow
  chart of the dashboard.

  \<^bold>\<open>How the parts interact.\<close> The authentication store holds the access token of the tab. The session layer refreshes it,
  applies what the server returns, and tells other tabs through session events. The HTTP client puts the token on every
  request, and on a 401 asks the session layer for a new one and sends the request once more. The chat handler builds a
  transcript of the conversation, hands it to the streaming controller, feeds what arrives into the messages, runs the
  tools that the model calls, and starts the next round.

  \<^bold>\<open>Theories and sources.\<close>

  \<^item> \<open>Prelude\<close>: JavaScript values (\<open>jsval\<close>, \<open>jsnum\<close>), strings, maps as association lists in insertion order, sets as
    lists without repetition, stable sorting by a comparison function (locale \<open>comparator\<close>).
  \<^item> \<open>HttpStatusRules\<close>: \<^verbatim>\<open>lib/http-status-code-rules.ts\<close>. The parser of a rule text, the merging of ranges, printing.
  \<^item> \<open>AuthStore\<close>, \<open>AuthSync\<close>, \<open>AuthSession\<close>: \<^verbatim>\<open>stores/auth-store.ts\<close>, \<^verbatim>\<open>lib/auth-session-sync.ts\<close>,
    \<^verbatim>\<open>lib/auth-session.ts\<close>, the reaction to events in \<^verbatim>\<open>routes/__root.tsx\<close> and the sign-in of the form for the one-time
    password, \<^verbatim>\<open>features/auth/otp/components/otp-form.tsx\<close>. The record \<open>world\<close> is the module state of the session
    layer; a refresh is a function of the list of the server's answers; \<open>other_step\<close> is what other code may do while a
    refresh awaits.
  \<^item> \<open>HttpClient\<close>: \<^verbatim>\<open>lib/http-client.ts\<close> and \<^verbatim>\<open>lib/server-error-message.ts\<close>. The shared GET requests and the two
    interceptors.
  \<^item> \<open>RatioSync\<close>: \<^verbatim>\<open>features/system-settings/models/upstream-ratio-sync-helpers.ts\<close>. The resolutions of price
    differences as a map of drafts.
  \<^item> \<open>Messages\<close>, \<open>ToolCalls\<close>, \<open>MessageStreaming\<close>, \<open>Transcript\<close>: \<^verbatim>\<open>features/playground/lib\<close> (messages, thinking tags,
    tool-call fragments, plans, tools, the update of a message by a stream, render items, the API transcript).
  \<^item> \<open>StreamController\<close>: \<^verbatim>\<open>features/playground/hooks/use-stream-request.ts\<close> and \<^verbatim>\<open>lib/streaming/stream-utils.ts\<close>. A
    state machine; the callbacks of a client may call the controller again.
  \<^item> \<open>ChatHandler\<close>, \<open>ChatBehaviour\<close>: \<^verbatim>\<open>features/playground/hooks/use-chat-handler.ts\<close>. The record \<open>chat\<close> is the state in
    the refs of the hook; \<open>chat_step\<close> is the relation of everything that can happen next (the user sends or stops, the
    stream delivers, completes or fails, a plain request settles, a tool finishes, the flush timer fires).
  \<^item> \<open>ChatStream\<close>: the two hooks together. The record \<open>system\<close> holds the controller, the handler and what the closures
    of each request captured; \<open>system_step\<close> is every event or action on the whole.
  \<^item> \<open>FlowRows\<close>, \<open>FlowGraph\<close>, \<open>FlowConservation\<close>, \<open>FlowLimits\<close>: \<^verbatim>\<open>features/dashboard/lib/flow.ts\<close> and
    \<^verbatim>\<open>flow-selection.ts\<close>. Rows of usage, their paths through the stages, the graph built from them.
  \<^item> \<open>ExprText\<close>, \<open>RequestRules\<close>, \<open>RulesRoundTrip\<close>, \<open>BillingRules\<close>: \<^verbatim>\<open>features/pricing/lib/billing-expr.ts\<close>. Texts of
    expressions (brackets, numeric and string literals, the steps of anchored regular expressions), the printer and the
    parser of request rules, and their properties.
  \<^item> \<open>Regex\<close>: regular expressions as the language's backtracking matcher runs them (\<open>runs\<close> lists the ends of a match in
    the order they are tried), searching, repeated matching and splitting, and rules for what an expression takes of a
    text or refuses.
  \<^item> \<open>TierExpr\<close>, \<open>TierText\<close>, \<open>TierRoundTrip\<close>, \<open>TierConfig\<close>, \<open>TierPage\<close>: \<^verbatim>\<open>features/pricing/lib/tier-expr.ts\<close> and the
    registry of variables and tier parser of \<^verbatim>\<open>billing-expr.ts\<close>. The definitions are in \<open>TierExpr\<close>; the other theories
    follow a generated expression through the two parsers.

  \<^bold>\<open>What the lemmas show.\<close>

  \<^item> Chat: an invariant of the state kept by every step; one send makes at most \<open>MAX_TOOL_ROUNDS + 3\<close> requests; every
    request carries a transcript in which each tool call is answered; when the settings ask for streaming and the tool
    calls of the model have no gap in their indexes, the generating mark is set exactly while a stream or a tool call
    is in progress; stopping is final; delivering the content in batches shows the same text as delivering it at once
    exactly when no piece can be taken for a repetition of what came before it.
  \<^item> Chat and streaming together: a forward simulation (\<open>linked\<close>) shows that the two hooks together only do what the
    handler's own machine allows, so the lemmas on the chat hold of the composed program; an open source belongs to
    the request the handler waits for; one message opens at most eight sources.
  \<^item> Streaming: callbacks of superseded requests never happen, a request has at most one terminal callback and none
    after it, every superseded source is closed.
  \<^item> Session: token, expiry and session are set and cleared together in every reachable state, except that the form for
    the one-time password stores an answer that is no bundle as it came; a refresh writes only over the credentials
    it started from or has cleared itself, and leaves what other code stored meanwhile; concurrent callers share one
    refresh; it settles after boundedly many answers; the headers of a request carry a token that has not expired or
    one that a refresh has just brought, whose expiry the code does not compare with the clock.
  \<^item> HTTP: a request is sent at most twice; the retry carries the refreshed token; a GET is shared only within the
    session that started it.
  \<^item> Rules, resolutions, messages: normal forms, round trips, equivalence of batched and sequential application; the
    transcript of a conversation carries the text of its assistant messages and each recorded call with its own result,
    and the rendered items show the text with every thought, running tool and plan at its place. Assistant messages
    without text are not in the transcript, nor are their calls.
  \<^item> Flow chart: what flows into a node flows out of it, the stages add up to the summary unless overflowing rows are
    hidden, the limit is kept, masked names do not show. The sums rest on the locale \<open>accumulator\<close>, interpreted for the node and the link map.
  \<^item> Billing rules: canonical rules (\<open>canonical_group\<close>) are read back from their text as they were written and separated
    from the price expression they multiply; a rule that compares a request parameter with a number by an order, or
    looks for a text in it, is not.
  \<^item> Tiers: the price editor reads a configuration back from the expression it generates, and the pricing page reads the
    same tiers, labels, conditions and prices from it; both parsers end on every text; a lone tier is accepted without
    the comparison that several tiers undergo, so that a price that is no number is opened and then saved as 0. The two parsers share the locale \<open>tier_scan\<close>, interpreted for the
    expression of each. The hypothesis \<open>tier_ok\<close> asks that labels have no quote and that the numbers of the
    configuration are written in the characters the parsers take and read back as themselves.

  \<^bold>\<open>Bounds and waiting.\<close> There is no fuel. A loop over answers of a server recurses over the list of those answers; an
  asynchronous function is cut at its \<^verbatim>\<open>await\<close>s into a part before and a part after, and the steps of other code
  come between as explicit steps. A loop of repeated matches gives \<open>None\<close> when a match consumes nothing, where the code
  would not return; the parsers are shown never to give it. The one numeric bound, \<open>MAX_TOOL_ROUNDS\<close>, is the code's own.

  \<^bold>\<open>Arguments of the model.\<close> \<^verbatim>\<open>JSON.parse\<close> and \<^verbatim>\<open>JSON.stringify\<close>, the writing and reading of numbers (\<open>numfmt\<close>), the clock, the translation function, \<^verbatim>\<open>localeCompare\<close>, the
  colour schemes of the chart package, the image service and the answers of servers are arguments. Amounts of the flow
  chart are exact rationals: the rounding of sums of floating-point numbers is not modelled. Characters beyond Latin-1
  occur only in texts that are passed through.

  \<^bold>\<open>Where the model is simpler than the code.\<close> The updaters that the chat handler hands to React are applied at once, in
  the order of the calls: React may defer them, but keeps that order. The callbacks that the streaming controller calls
  do not throw; in the code an exception of \<^verbatim>\<open>onUpdate\<close> or \<^verbatim>\<open>onToolCallDelta\<close> would be reported as a parse error. The index
  of a fragment of a tool call is a natural number, where the code only tests that it is a number. Amounts of a row of
  the flow chart are numbers or missing, as its interface declares, and its identifiers whole numbers; \<^verbatim>\<open>Number\<close> applied
  to texts is not modelled there. The answer that the form for the one-time password receives has fields of their
  declared types or none.

  \<^bold>\<open>Not modelled.\<close> The React components and pages (markup and event wiring), the generated route tree and the
  translation catalogues, the Go server (it is reached only through HTTP, and its answers are arguments), the desktop
  shell. Of the flow chart: the specification object handed to the chart package and the readers of its mouse events.
  Of the playground: the prompt texts and the style helpers. Of the prices: the local estimator, which compiles the
  expression with \<^verbatim>\<open>new Function\<close>, the folding of full-width signs in labels, and the formatted prices of \<^verbatim>\<open>price.ts\<close> and
  \<^verbatim>\<open>dynamic-price.ts\<close>, products of ratios handed to the currency formatter.
\<close>

end
